(* ===== verification/Prelude.thy ===== *)
theory Prelude
  imports Main "HOL-Library.Word" "HOL-Library.Code_Target_Numeral" "HOL-Library.Sublist" "HOL-Library.Multiset"
    "HOL-Library.Char_ord" "HOL-Library.List_Lexorder" "HOL-Library.Product_Lexorder"
begin

text \<open>
  The shared vocabulary of the development. It models what the sources use of Rust's
  language and standard library:
  \<^item> machine integers as words, and big-endian byte strings (\<^verbatim>\<open>to_be_bytes\<close>,
    \<^verbatim>\<open>from_be_bytes\<close>);
  \<^item> \<^verbatim>\<open>str\<close> as its UTF-8 bytes (type \<^typ>\<open>string\<close>, one \<^typ>\<open>char\<close> per
    byte) with the string methods the sources call;
  \<^item> error values: a formatted message is kept as its format string and its arguments.
  The interface locale of the host matchers that ignore ASCII case is declared here;
  the byte streams and the wire codecs are in theory \<^verbatim>\<open>Streams\<close>.
\<close>

section \<open>Collections of facts\<close>

named_theorems str_simps \<open>equations of the string methods\<close>

section \<open>Machine integers and big-endian byte strings\<close>

type_synonym u8 = "8 word"
type_synonym u16 = "16 word"
type_synonym u32 = "32 word"
type_synonym u64 = "64 word"
type_synonym u128 = "128 word"
type_synonym bytes = "u8 list"

text \<open>\<open>be_bytes k n\<close> is the \<open>k\<close>-byte big-endian form of \<open>n\<close>, and \<open>be_nat\<close>
  reads it back.\<close>

primrec be_bytes :: "nat \<Rightarrow> nat \<Rightarrow> bytes" where
  "be_bytes 0 n = []"
| "be_bytes (Suc k) n = be_bytes k (n div 256) @ [of_nat n]"

definition be_nat :: "bytes \<Rightarrow> nat" where
  "be_nat bs = foldl (\<lambda>a b. a * 256 + unat b) 0 bs"

lemma length_be_bytes [simp]: "length (be_bytes k n) = k"
  by (induction k arbitrary: n) auto

lemma be_nat_Nil [simp]: "be_nat [] = 0"
  by (simp add: be_nat_def)

lemma be_nat_snoc [simp]: "be_nat (bs @ [b]) = be_nat bs * 256 + unat b"
  by (simp add: be_nat_def)

lemma unat_of_nat_u8 [simp]: "unat (of_nat n :: u8) = n mod 256"
  by (simp add: unat_of_nat)

lemma be_nat_be_bytes: "be_nat (be_bytes k n) = n mod 256 ^ k"
proof (induction k arbitrary: n)
  case (Suc k)
  have "n mod (256 * 256 ^ k) = 256 * (n div 256 mod 256 ^ k) + n mod 256"
    by (rule mod_mult2_eq)
  with Suc show ?case by simp
qed simp

lemma unat_less [simp]:
  "unat (a :: u8) < 256" "unat (b :: u16) < 65536" "unat (c :: u32) < 4294967296"
  "unat (d :: u64) < 18446744073709551616"
  "unat (e :: u128) < 340282366920938463463374607431768211456"
  using unsigned_less [of a, where ?'a = nat] unsigned_less [of b, where ?'a = nat]
    unsigned_less [of c, where ?'a = nat] unsigned_less [of d, where ?'a = nat]
    unsigned_less [of e, where ?'a = nat]
  by simp_all

lemma be_bytes_be_nat: "be_bytes (length bs) (be_nat bs) = bs"
proof (induction bs rule: rev_induct)
  case (snoc b bs)
  have "unat (of_nat (be_nat bs * 256 + unat b) :: u8) = unat b"
    unfolding unat_of_nat_u8 by simp
  then have "(of_nat (be_nat bs * 256 + unat b) :: u8) = b"
    by (simp only: word_unat_eq_iff)
  moreover have "(be_nat bs * 256 + unat b) div 256 = be_nat bs"
    by simp
  ultimately show ?case using snoc by simp
qed simp

lemma be_nat_bound: "be_nat bs < 256 ^ length bs"
proof (induction bs rule: rev_induct)
  case (snoc b bs)
  have "unat b < 256" by simp
  with snoc have "be_nat bs * 256 + unat b < 256 ^ length bs * 256" by linarith
  then show ?case by simp
qed simp

text \<open>\<^verbatim>\<open>u16::to_be_bytes\<close>, \<^verbatim>\<open>u32::to_be_bytes\<close> and their inverses.\<close>

definition u16_to_be_bytes :: "u16 \<Rightarrow> bytes" where
  "u16_to_be_bytes w = be_bytes 2 (unat w)"

definition u16_from_be_bytes :: "bytes \<Rightarrow> u16" where
  "u16_from_be_bytes bs = of_nat (be_nat bs)"

definition u32_to_be_bytes :: "u32 \<Rightarrow> bytes" where
  "u32_to_be_bytes w = be_bytes 4 (unat w)"

definition u32_from_be_bytes :: "bytes \<Rightarrow> u32" where
  "u32_from_be_bytes bs = of_nat (be_nat bs)"

definition u128_to_be_bytes :: "u128 \<Rightarrow> bytes" where
  "u128_to_be_bytes w = be_bytes 16 (unat w)"

definition u128_from_be_bytes :: "bytes \<Rightarrow> u128" where
  "u128_from_be_bytes bs = of_nat (be_nat bs)"

lemma length_to_be_bytes [simp]:
  "length (u16_to_be_bytes p) = 2" "length (u32_to_be_bytes w) = 4"
  "length (u128_to_be_bytes x) = 16"
  by (simp_all add: u16_to_be_bytes_def u32_to_be_bytes_def u128_to_be_bytes_def)

lemma u16_from_to_be_bytes [simp]: "u16_from_be_bytes (u16_to_be_bytes w) = w"
  by (simp add: u16_to_be_bytes_def u16_from_be_bytes_def be_nat_be_bytes)

lemma u32_from_to_be_bytes [simp]: "u32_from_be_bytes (u32_to_be_bytes w) = w"
  by (simp add: u32_to_be_bytes_def u32_from_be_bytes_def be_nat_be_bytes)

lemma u128_from_to_be_bytes [simp]: "u128_from_be_bytes (u128_to_be_bytes w) = w"
  by (simp add: u128_to_be_bytes_def u128_from_be_bytes_def be_nat_be_bytes)

lemma u16_to_from_be_bytes [simp]: "length bs = 2 \<Longrightarrow> u16_to_be_bytes (u16_from_be_bytes bs) = bs"
  using be_bytes_be_nat [of bs] be_nat_bound [of bs]
  by (simp add: u16_to_be_bytes_def u16_from_be_bytes_def unat_of_nat)

lemma u32_to_from_be_bytes [simp]: "length bs = 4 \<Longrightarrow> u32_to_be_bytes (u32_from_be_bytes bs) = bs"
  using be_bytes_be_nat [of bs] be_nat_bound [of bs]
  by (simp add: u32_to_be_bytes_def u32_from_be_bytes_def unat_of_nat)

lemma u128_to_from_be_bytes [simp]: "length bs = 16 \<Longrightarrow> u128_to_be_bytes (u128_from_be_bytes bs) = bs"
  using be_bytes_be_nat [of bs] be_nat_bound [of bs]
  by (simp add: u128_to_be_bytes_def u128_from_be_bytes_def unat_of_nat)

section \<open>Strings\<close>

text \<open>A Rust \<^verbatim>\<open>str\<close> is the list of its UTF-8 bytes, one \<^typ>\<open>char\<close> per byte.\<close>

definition byte_of_char :: "char \<Rightarrow> u8" where
  "byte_of_char c = of_nat (of_char c)"

definition char_of_byte :: "u8 \<Rightarrow> char" where
  "char_of_byte b = char_of (unat b)"

definition as_bytes :: "string \<Rightarrow> bytes" where
  "as_bytes s = map byte_of_char s"

lemma char_of_byte_of_char [simp]: "char_of_byte (byte_of_char c) = c"
  by (simp add: byte_of_char_def char_of_byte_def)

lemma byte_of_char_of_byte [simp]: "byte_of_char (char_of_byte b) = b"
  by (simp add: byte_of_char_def char_of_byte_def)

lemma byte_of_char_eq_iff [simp]: "byte_of_char c = byte_of_char d \<longleftrightarrow> c = d"
  by (metis char_of_byte_of_char)

lemma length_as_bytes [simp]: "length (as_bytes s) = length s"
  by (simp add: as_bytes_def)

lemma as_bytes_append [simp]: "as_bytes (s @ t) = as_bytes s @ as_bytes t"
  by (simp add: as_bytes_def)

lemma as_bytes_inj [simp]: "as_bytes s = as_bytes t \<longleftrightarrow> s = t"
  unfolding as_bytes_def by (rule inj_map_eq_map) (auto intro: injI)

lemma map_char_of_byte_as_bytes [simp]: "map char_of_byte (as_bytes s) = s"
  by (simp add: as_bytes_def comp_def)

text \<open>\<^verbatim>\<open>str::from_utf8\<close>: the well-formed byte sequences are those of the Unicode
  standard's table of UTF-8 sequences (no overlong form, no surrogate).\<close>

definition utf8_cont :: "u8 \<Rightarrow> bool" where
  "utf8_cont b \<longleftrightarrow> 0x80 \<le> b \<and> b \<le> 0xBF"

fun utf8_valid :: "bytes \<Rightarrow> bool" where
  "utf8_valid [] = True"
| "utf8_valid (a # bs) =
     (if a \<le> 0x7F then utf8_valid bs
      else if 0xC2 \<le> a \<and> a \<le> 0xDF then
        (case bs of b # r \<Rightarrow> utf8_cont b \<and> utf8_valid r | _ \<Rightarrow> False)
      else if 0xE0 \<le> a \<and> a \<le> 0xEF then
        (case bs of b # c # r \<Rightarrow>
           (if a = 0xE0 then 0xA0 \<le> b \<and> b \<le> 0xBF
            else if a = 0xED then 0x80 \<le> b \<and> b \<le> 0x9F else utf8_cont b)
           \<and> utf8_cont c \<and> utf8_valid r
         | _ \<Rightarrow> False)
      else if 0xF0 \<le> a \<and> a \<le> 0xF4 then
        (case bs of b # c # d # r \<Rightarrow>
           (if a = 0xF0 then 0x90 \<le> b \<and> b \<le> 0xBF
            else if a = 0xF4 then 0x80 \<le> b \<and> b \<le> 0x8F else utf8_cont b)
           \<and> utf8_cont c \<and> utf8_cont d \<and> utf8_valid r
         | _ \<Rightarrow> False)
      else False)"

definition from_utf8 :: "bytes \<Rightarrow> string option" where
  "from_utf8 bs = (if utf8_valid bs then Some (map char_of_byte bs) else None)"

definition valid_str :: "string \<Rightarrow> bool" where
  "valid_str s \<longleftrightarrow> utf8_valid (as_bytes s)"

lemma from_utf8_as_bytes [simp]: "valid_str s \<Longrightarrow> from_utf8 (as_bytes s) = Some s"
  by (simp add: from_utf8_def valid_str_def)

lemma from_utf8_Some_iff: "from_utf8 bs = Some s \<longleftrightarrow> bs = as_bytes s \<and> valid_str s"
  by (auto simp: from_utf8_def valid_str_def as_bytes_def comp_def split: if_splits)

lemma from_utf8_SomeD: "from_utf8 bs = Some s \<Longrightarrow> bs = as_bytes s \<and> valid_str s"
  by (auto simp: from_utf8_def valid_str_def as_bytes_def comp_def split: if_splits)

text \<open>What precedes an ASCII byte of a well-formed sequence is well formed.\<close>

lemma ascii_not_cont:
  "b \<le> 0x7F \<Longrightarrow> \<not> utf8_cont b" "b \<le> 0x7F \<Longrightarrow> \<not> 0xA0 \<le> b" "b \<le> 0x7F \<Longrightarrow> \<not> 0x90 \<le> b"
  "b \<le> 0x7F \<Longrightarrow> \<not> 0x80 \<le> b" for b :: u8
  by (auto simp: utf8_cont_def word_le_nat_alt)

lemma utf8_valid_before_ascii:
  assumes "utf8_valid (a @ c # b)" and "c \<le> 0x7F"
  shows "utf8_valid a"
  using assms(1)
proof (induction a rule: length_induct)
  case (1 a)
  note c = ascii_not_cont [OF assms(2)]
  have IH: "utf8_valid ys" if "utf8_valid (ys @ c # b)" "length ys < length a" for ys
    using 1 that by blast
  show ?case
  proof (cases a)
    case (Cons x xs)
    note p = "1.prems" [unfolded Cons append_Cons utf8_valid.simps(2)]
    consider "x \<le> 0x7F" | "\<not> x \<le> 0x7F" "0xC2 \<le> x \<and> x \<le> 0xDF"
      | "\<not> x \<le> 0x7F" "\<not> (0xC2 \<le> x \<and> x \<le> 0xDF)" "0xE0 \<le> x \<and> x \<le> 0xEF"
      | "\<not> x \<le> 0x7F" "\<not> (0xC2 \<le> x \<and> x \<le> 0xDF)" "\<not> (0xE0 \<le> x \<and> x \<le> 0xEF)" "0xF0 \<le> x \<and> x \<le> 0xF4"
      using p by argo
    then show ?thesis
    proof cases
      case 1
      with p IH [of xs] show ?thesis by (simp add: Cons)
    next
      case 2
      with p c show ?thesis
        by (cases xs) (auto simp: Cons intro: IH)
    next
      case 3
      then have v: "utf8_valid (x # ys) = (case ys of y # z # r \<Rightarrow>
           (if x = 0xE0 then 0xA0 \<le> y \<and> y \<le> 0xBF
            else if x = 0xED then 0x80 \<le> y \<and> y \<le> 0x9F else utf8_cont y)
           \<and> utf8_cont z \<and> utf8_valid r | _ \<Rightarrow> False)" for ys
        by (simp only: utf8_valid.simps if_False if_True simp_thms)
      show ?thesis
        using "1.prems" c IH [of "drop 2 xs"] unfolding Cons append_Cons v
        by (cases xs; cases "tl xs") (auto split: if_splits list.splits)
    next
      case 4
      then have v: "utf8_valid (x # ys) = (case ys of y # z # w # r \<Rightarrow>
           (if x = 0xF0 then 0x90 \<le> y \<and> y \<le> 0xBF
            else if x = 0xF4 then 0x80 \<le> y \<and> y \<le> 0x8F else utf8_cont y)
           \<and> utf8_cont z \<and> utf8_cont w \<and> utf8_valid r | _ \<Rightarrow> False)" for ys
        by (simp only: utf8_valid.simps if_False if_True simp_thms)
      show ?thesis
        using "1.prems" c IH [of "drop 3 xs"] unfolding Cons append_Cons v
        by (cases xs; cases "tl xs"; cases "tl (tl xs)") (auto split: if_splits list.splits)
    qed
  qed simp
qed

text \<open>ASCII case: \<^verbatim>\<open>to_ascii_lowercase\<close> and \<^verbatim>\<open>eq_ignore_ascii_case\<close>.\<close>

definition lower_char :: "char \<Rightarrow> char" where
  "lower_char c = (let n = (of_char c :: nat) in
     if 65 \<le> n \<and> n \<le> 90 then char_of (n + 32) else c)"

definition to_ascii_lowercase :: "string \<Rightarrow> string" where
  "to_ascii_lowercase s = map lower_char s"

definition eq_ignore_ascii_case :: "string \<Rightarrow> string \<Rightarrow> bool" where
  "eq_ignore_ascii_case s t \<longleftrightarrow> to_ascii_lowercase s = to_ascii_lowercase t"

lemma of_char_lower_char:
  "(of_char (lower_char c) :: nat) =
     (let n = of_char c in if 65 \<le> n \<and> n \<le> 90 then n + 32 else n)"
  by (simp add: lower_char_def Let_def)

lemma lower_char_idem [simp]: "lower_char (lower_char c) = lower_char c"
  by (simp add: lower_char_def Let_def)

lemma lower_char_eq_iff:
  "lower_char c = d \<longleftrightarrow> (of_char (lower_char c) :: nat) = of_char d"
  by simp

lemma to_ascii_lowercase_idem [simp]:
  "to_ascii_lowercase (to_ascii_lowercase s) = to_ascii_lowercase s"
  by (simp add: to_ascii_lowercase_def)

lemma to_ascii_lowercase_append [simp]:
  "to_ascii_lowercase (s @ t) = to_ascii_lowercase s @ to_ascii_lowercase t"
  by (simp add: to_ascii_lowercase_def)

lemma length_to_ascii_lowercase [simp]: "length (to_ascii_lowercase s) = length s"
  by (simp add: to_ascii_lowercase_def)

lemma to_ascii_lowercase_Nil_iff [simp]: "to_ascii_lowercase s = [] \<longleftrightarrow> s = []"
  by (simp add: to_ascii_lowercase_def)

text \<open>A matcher of host names that ignores ASCII case: what the sources rely on when they
  lowercase a requested host before looking it up.\<close>

locale ci_matcher =
  fixes matcher :: "string \<Rightarrow> 'r"
  assumes matcher_lower: "matcher (to_ascii_lowercase h) = matcher h"
begin

lemma matcher_ignores_case: "eq_ignore_ascii_case h h' \<Longrightarrow> matcher h = matcher h'"
  by (metis matcher_lower eq_ignore_ascii_case_def)

end

section \<open>Cutting strings\<close>

text \<open>\<^verbatim>\<open>strip_prefix\<close>, \<^verbatim>\<open>strip_suffix\<close>, \<^verbatim>\<open>split_once\<close>,
  \<^verbatim>\<open>rsplit_once\<close> and \<^verbatim>\<open>split\<close> by one character; \<^verbatim>\<open>starts_with\<close> and
  \<^verbatim>\<open>ends_with\<close> are \<^const>\<open>prefix\<close> and \<^const>\<open>suffix\<close>.\<close>

definition strip_prefix :: "'a list \<Rightarrow> 'a list \<Rightarrow> 'a list option" where
  "strip_prefix p s = (if prefix p s then Some (drop (length p) s) else None)"

definition strip_suffix :: "'a list \<Rightarrow> 'a list \<Rightarrow> 'a list option" where
  "strip_suffix p s = (if suffix p s then Some (take (length s - length p) s) else None)"

definition split_once :: "'a \<Rightarrow> 'a list \<Rightarrow> ('a list \<times> 'a list) option" where
  "split_once c s =
     (if c \<in> set s then Some (takeWhile (\<lambda>x. x \<noteq> c) s, tl (dropWhile (\<lambda>x. x \<noteq> c) s)) else None)"

definition rsplit_once :: "'a \<Rightarrow> 'a list \<Rightarrow> ('a list \<times> 'a list) option" where
  "rsplit_once c s = map_option (\<lambda>(a, b). (rev b, rev a)) (split_once c (rev s))"

fun split_on :: "'a \<Rightarrow> 'a list \<Rightarrow> 'a list list" where
  "split_on c [] = [[]]"
| "split_on c (x # xs) =
     (if x = c then [] # split_on c xs
      else (case split_on c xs of [] \<Rightarrow> [[x]] | p # ps \<Rightarrow> (x # p) # ps))"

lemma strip_prefix_Some_iff [simp]: "strip_prefix p s = Some r \<longleftrightarrow> s = p @ r"
  by (auto simp: strip_prefix_def prefix_def)

lemma strip_prefix_None_iff [simp]: "strip_prefix p s = None \<longleftrightarrow> \<not> prefix p s"
  by (simp add: strip_prefix_def)

lemma strip_suffix_Some_iff [simp]: "strip_suffix p s = Some r \<longleftrightarrow> s = r @ p"
  by (auto simp: strip_suffix_def suffix_def)

lemma strip_suffix_None_iff [simp]: "strip_suffix p s = None \<longleftrightarrow> \<not> suffix p s"
  by (simp add: strip_suffix_def)

lemma strip_miss [simp]:
  "\<not> prefix p s \<Longrightarrow> strip_prefix p s = None" "\<not> suffix p s \<Longrightarrow> strip_suffix p s = None"
  by simp_all

lemma strip_append [simp]: "strip_prefix p (p @ r) = Some r" "strip_suffix p (r @ p) = Some r"
  by simp_all

lemma strip_prefix_rec [simp]:
  "strip_prefix [] s = Some s" "strip_prefix (a # p) [] = None"
  "strip_prefix (a # p) (b # s) = (if a = b then strip_prefix p s else None)"
  by (simp_all add: strip_prefix_def)

lemma split_once_Some_iff: "split_once c s = Some (a, b) \<longleftrightarrow> s = a @ c # b \<and> c \<notin> set a"
proof
  assume "split_once c s = Some (a, b)"
  then have c: "c \<in> set s" and a: "a = takeWhile (\<lambda>x. x \<noteq> c) s"
    and b: "b = tl (dropWhile (\<lambda>x. x \<noteq> c) s)"
    by (auto simp: split_once_def split: if_splits)
  have ne: "dropWhile (\<lambda>x. x \<noteq> c) s \<noteq> []" using c by (simp add: dropWhile_eq_Nil_conv)
  then have "dropWhile (\<lambda>x. x \<noteq> c) s = c # b"
    using hd_dropWhile [OF ne] b by (cases "dropWhile (\<lambda>x. x \<noteq> c) s") auto
  with a have "s = a @ c # b" by (metis takeWhile_dropWhile_id)
  moreover have "c \<notin> set a" using a by (auto dest: set_takeWhileD)
  ultimately show "s = a @ c # b \<and> c \<notin> set a" ..
next
  assume "s = a @ c # b \<and> c \<notin> set a"
  then show "split_once c s = Some (a, b)"
    by (auto simp: split_once_def takeWhile_append dropWhile_append)
qed

lemma split_once_None_iff: "split_once c s = None \<longleftrightarrow> c \<notin> set s"
  by (simp add: split_once_def)

lemma rsplit_once_Some_iff: "rsplit_once c s = Some (a, b) \<longleftrightarrow> s = a @ c # b \<and> c \<notin> set b"
  by (auto simp: rsplit_once_def split_once_Some_iff rev_swap)

lemma rsplit_once_None_iff: "rsplit_once c s = None \<longleftrightarrow> c \<notin> set s"
  by (simp add: rsplit_once_def split_once_None_iff)

lemma split_on_not_Nil [simp]: "split_on c s \<noteq> []"
  by (induction s) (auto split: list.splits)

lemma split_on_pieces: "p \<in> set (split_on c s) \<Longrightarrow> c \<notin> set p"
  by (induction s arbitrary: p) (auto split: if_splits list.splits)

text \<open>Joining the pieces again gives the string back.\<close>

fun join_with :: "'a list \<Rightarrow> 'a list list \<Rightarrow> 'a list" where
  "join_with sep [] = []"
| "join_with sep [p] = p"
| "join_with sep (p # q # ps) = p @ sep @ join_with sep (q # ps)"

lemma join_split_on: "join_with [c] (split_on c s) = s"
proof (induction s)
  case (Cons x s)
  obtain p ps where p: "split_on c s = p # ps" by (cases "split_on c s") auto
  with Cons show ?case by (cases ps) auto
qed simp

lemma suffix_dot_linear:
  assumes "suffix a h" and "suffix b h"
  shows "suffix a b \<or> suffix b a"
  using suffix_same_cases [OF assms] by blast

text \<open>\<^verbatim>\<open>trim_matches\<close> with one character.\<close>

definition trim_matches :: "'a \<Rightarrow> 'a list \<Rightarrow> 'a list" where
  "trim_matches c s = rev (dropWhile (\<lambda>x. x = c) (rev (dropWhile (\<lambda>x. x = c) s)))"

section \<open>Trimming and numbers\<close>

text \<open>\<^verbatim>\<open>str::trim\<close> removes the Unicode white space on both ends: the UTF-8 sequences of
  the code points with the \<^verbatim>\<open>White_Space\<close> property.\<close>

definition white_space :: "string list" where
  "white_space =
     map (\<lambda>n. [char_of n]) [9, 10, 11, 12, 13, 32 :: nat] @
     map (map char_of) [[0xC2, 0x85], [0xC2, 0xA0], [0xE1, 0x9A, 0x80 :: nat]] @
     map (\<lambda>n. map char_of [0xE2, 0x80, n :: nat])
       [0x80, 0x81, 0x82, 0x83, 0x84, 0x85, 0x86, 0x87, 0x88, 0x89, 0x8A, 0xA8, 0xA9, 0xAF] @
     map (map char_of) [[0xE2, 0x81, 0x9F], [0xE3, 0x80, 0x80 :: nat]]"

function trim_start :: "string \<Rightarrow> string" where
  "trim_start s = (case find (\<lambda>w. prefix w s) white_space of
     None \<Rightarrow> s | Some w \<Rightarrow> trim_start (drop (length w) s))"
  by pat_completeness auto
termination
proof (relation "measure length")
  fix s w
  assume "find (\<lambda>w. prefix w s) white_space = Some w"
  then have "w \<in> set white_space" "prefix w s"
    by (auto simp: find_Some_iff)
  then have "w \<noteq> []" "s \<noteq> []" by (auto simp: white_space_def)
  then show "(drop (length w) s, s) \<in> measure length" by simp
qed simp

declare trim_start.simps [simp del]

function trim_end :: "string \<Rightarrow> string" where
  "trim_end s = (case find (\<lambda>w. suffix w s) white_space of
     None \<Rightarrow> s | Some w \<Rightarrow> trim_end (take (length s - length w) s))"
  by pat_completeness auto
termination
proof (relation "measure length")
  fix s w
  assume "find (\<lambda>w. suffix w s) white_space = Some w"
  then have "w \<in> set white_space" "suffix w s"
    by (auto simp: find_Some_iff)
  then have "w \<noteq> []" "s \<noteq> []" by (auto simp: white_space_def)
  then show "(take (length s - length w) s, s) \<in> measure length" by (cases w) auto
qed simp

declare trim_end.simps [simp del]

definition trim :: "string \<Rightarrow> string" where
  "trim s = trim_end (trim_start s)"

lemma trim_start_suffix: "suffix (trim_start s) s"
proof (induction s rule: trim_start.induct)
  case (1 s)
  show ?case
  proof (cases "find (\<lambda>w. prefix w s) white_space")
    case None
    then show ?thesis by (simp add: trim_start.simps [of s])
  next
    case (Some w)
    with "1.IH" have "suffix (trim_start (drop (length w) s)) s"
      by (meson suffix_drop suffix_order.trans)
    with Some show ?thesis by (simp add: trim_start.simps [of s])
  qed
qed

lemma trim_end_prefix: "prefix (trim_end s) s"
proof (induction s rule: trim_end.induct)
  case (1 s)
  show ?case
  proof (cases "find (\<lambda>w. suffix w s) white_space")
    case None
    then show ?thesis by (simp add: trim_end.simps [of s])
  next
    case (Some w)
    with "1.IH" have "prefix (trim_end (take (length s - length w) s)) s"
      by (meson take_is_prefix prefix_order.trans)
    with Some show ?thesis by (simp add: trim_end.simps [of s])
  qed
qed

text \<open>A string with no white-space byte at all is its own trimmed form.\<close>

definition no_white_space :: "string \<Rightarrow> bool" where
  "no_white_space s \<longleftrightarrow> (\<forall>c \<in> set s. (of_char c :: nat) \<notin> {9, 10, 11, 12, 13, 32} \<and> (of_char c :: nat) < 128)"

lemma white_space_head:
  assumes "w \<in> set white_space"
  shows "\<exists>c \<in> set w. (of_char c :: nat) \<in> {9, 10, 11, 12, 13, 32} \<or> 128 \<le> (of_char c :: nat)"
  using assms unfolding white_space_def by auto

lemma trim_no_white_space: "no_white_space s \<Longrightarrow> trim s = s"
proof -
  assume s: "no_white_space s"
  have "\<not> set w \<subseteq> set s" if "w \<in> set white_space" for w
    using white_space_head [OF that] s by (fastforce simp: no_white_space_def)
  then have "find (\<lambda>w. prefix w s) white_space = None" "find (\<lambda>w. suffix w s) white_space = None"
    by (auto simp: find_None_iff dest: set_mono_prefix set_mono_suffix)
  then show ?thesis by (simp add: trim_def trim_start.simps [of s] trim_end.simps [of s])
qed

text \<open>\<^verbatim>\<open>str::parse::<u16>\<close>: an optional \<^verbatim>\<open>+\<close>, at least one decimal digit,
  no overflow.\<close>

definition is_digit :: "char \<Rightarrow> bool" where
  "is_digit c \<longleftrightarrow> 48 \<le> (of_char c :: nat) \<and> (of_char c :: nat) \<le> 57"

definition digits_val :: "string \<Rightarrow> nat" where
  "digits_val ds = foldl (\<lambda>a d. 10 * a + (of_char d - 48)) 0 ds"

definition parse_u16 :: "string \<Rightarrow> u16 option" where
  "parse_u16 s =
     (let ds = (case strip_prefix ''+'' s of Some r \<Rightarrow> r | None \<Rightarrow> s) in
      if ds = [] \<or> \<not> list_all is_digit ds \<or> 65535 < digits_val ds then None
      else Some (of_nat (digits_val ds)))"

text \<open>\<^verbatim>\<open>Display\<close> of an unsigned integer.\<close>

fun show_nat :: "nat \<Rightarrow> string" where
  "show_nat n = (if n < 10 then [char_of (48 + n)]
     else show_nat (n div 10) @ [char_of (48 + n mod 10)])"

declare show_nat.simps [simp del]

lemma show_nat_digits: "list_all is_digit (show_nat n)"
proof (induction n rule: show_nat.induct)
  case (1 n)
  have d: "is_digit (char_of (48 + k :: nat))" if "k < 10" for k
    using that by (simp add: is_digit_def)
  show ?case
  proof (cases "n < 10")
    case True
    with d show ?thesis by (simp add: show_nat.simps [of n])
  next
    case False
    with 1 d [of "n mod 10"] show ?thesis by (simp add: show_nat.simps [of n])
  qed
qed

lemma digits_val_snoc [simp]: "digits_val (ds @ [d]) = 10 * digits_val ds + (of_char d - 48)"
  by (simp add: digits_val_def)

lemma digits_val_show_nat [simp]: "digits_val (show_nat n) = n"
proof (induction n rule: show_nat.induct)
  case (1 n)
  show ?case
  proof (cases "n < 10")
    case True
    then show ?thesis by (simp add: show_nat.simps [of n] digits_val_def)
  next
    case False
    with 1 show ?thesis by (simp add: show_nat.simps [of n])
  qed
qed

lemma show_nat_not_Nil [simp]: "show_nat n \<noteq> []"
  by (subst show_nat.simps) simp

lemma parse_u16_show_nat: "n < 65536 \<Longrightarrow> parse_u16 (show_nat n) = Some (of_nat n)"
proof -
  assume n: "n < 65536"
  have "\<not> prefix ''+'' (show_nat n)"
    using show_nat_digits [of n] by (cases "show_nat n") (auto simp: is_digit_def)
  with n show ?thesis by (simp add: parse_u16_def Let_def show_nat_digits)
qed

section \<open>Error values\<close>

text \<open>A message built by \<^verbatim>\<open>format!\<close> is its format string with the arguments.\<close>

datatype fmt_arg = FStr string | FNat nat

text \<open>The dash some messages contain, in UTF-8.\<close>

definition em_dash :: string where "em_dash = map char_of [0xE2, 0x80, 0x94 :: nat]"

type_synonym msg = "string \<times> fmt_arg list"

text \<open>The values of \<^verbatim>\<open>std::io::ErrorKind\<close> that the sources distinguish; the remaining
  ones are \<open>OtherKind\<close> with a number. \<open>Panic\<close> is not a kind of Rust's: it marks the
  model's outcome where the code would panic (an \<^verbatim>\<open>expect\<close> on \<^verbatim>\<open>None\<close>, a
  slice out of range).\<close>

datatype error_kind = NotFound | ConnectionRefused | ConnectionReset | ConnectionAborted
  | HostUnreachable | NetworkUnreachable | AddrInUse | BrokenPipe | TimedOut | Interrupted
  | UnexpectedEof | Other | OtherKind nat | Panic

datatype io_error = IoError (err_kind: error_kind) (err_msg: msg)

abbreviation io_other :: "string \<Rightarrow> fmt_arg list \<Rightarrow> io_error" where
  "io_other t args \<equiv> IoError Other (t, args)"

abbreviation panic_error :: "string \<Rightarrow> io_error" where
  "panic_error t \<equiv> IoError Panic (t, [])"

text \<open>The \<^verbatim>\<open>?\<close> operator on results.\<close>

definition result_bind :: "'e + 'a \<Rightarrow> ('a \<Rightarrow> 'e + 'b) \<Rightarrow> 'e + 'b" where
  "result_bind r f = (case r of Inl e \<Rightarrow> Inl e | Inr x \<Rightarrow> f x)"

lemma result_bind_simps [simp]:
  "result_bind (Inl e) f = Inl e" "result_bind (Inr x) f = f x"
  by (simp_all add: result_bind_def)

lemma result_bind_Inr_iff: "result_bind r f = Inr y \<longleftrightarrow> (\<exists>x. r = Inr x \<and> f x = Inr y)"
  by (cases r) auto

lemma result_bind_cong [fundef_cong]:
  "r = r' \<Longrightarrow> (\<And>x. r' = Inr x \<Longrightarrow> f x = f' x) \<Longrightarrow> result_bind r f = result_bind r' f'"
  by (cases r') auto

text \<open>\<^verbatim>\<open>map_err\<close> and \<^verbatim>\<open>with_context\<close> on results.\<close>

definition map_err :: "('e \<Rightarrow> 'f) \<Rightarrow> 'e + 'a \<Rightarrow> 'f + 'a" where
  "map_err f r = (case r of Inl e \<Rightarrow> Inl (f e) | Inr x \<Rightarrow> Inr x)"

lemma map_err_simps [simp]: "map_err f (Inl e) = Inl (f e)" "map_err f (Inr x) = Inr x"
  by (simp_all add: map_err_def)

lemma map_err_Inr_iff [simp]: "map_err f r = Inr x \<longleftrightarrow> r = Inr x"
  by (cases r) auto

lemma map_err_Inl_iff: "map_err f r = Inl e \<longleftrightarrow> (\<exists>e'. r = Inl e' \<and> e = f e')"
  by (cases r) auto

section \<open>JSON\<close>

text \<open>The JSON values the sources build with \<^verbatim>\<open>json!\<close> and \<^verbatim>\<open>to_value\<close>; printing them (\<^verbatim>\<open>serde_json\<close>) is a parameter.\<close>

datatype json = JNull | JBool bool | JNum nat | JStr string | JMsg msg | JArr "json list" | JObj "(string \<times> json) list"

section \<open>Transition systems\<close>

text \<open>The interface of the components that are modelled as states changed by interleaved
  steps: an invariant that holds at the start and is kept by every step holds in every
  reachable state.\<close>

locale invariant_system =
  fixes init :: "'s \<Rightarrow> bool" and step :: "'s \<Rightarrow> 's \<Rightarrow> bool" and inv :: "'s \<Rightarrow> bool"
  assumes init_inv: "init s \<Longrightarrow> inv s"
    and step_inv: "inv s \<Longrightarrow> step s s' \<Longrightarrow> inv s'"
begin

lemma steps_inv: "inv s \<Longrightarrow> step\<^sup>*\<^sup>* s s' \<Longrightarrow> inv s'"
  by (rotate_tac, induction rule: rtranclp_induct) (auto intro: step_inv)

lemma reachable_inv: "init s \<Longrightarrow> step\<^sup>*\<^sup>* s s' \<Longrightarrow> inv s'"
  by (rule steps_inv [OF init_inv])

end

end
