(* ===== verification/Streams.thy ===== *)
theory Streams
  imports Prelude
begin

text \<open>
  Byte streams and the operations of tokio's \<^verbatim>\<open>AsyncReadExt\<close> and
  \<^verbatim>\<open>AsyncWriteExt\<close> that the protocol code uses, as a state-and-error monad, and the
  interface locale of the self-delimiting wire codecs with what every client of a codec
  relies on: unambiguous decoding, and that a sequence of messages written on a stream is
  read back message by message.
\<close>

named_theorems io_simps \<open>equations of the stream operations\<close>
named_theorems io_inv \<open>inversion of successful stream operations\<close>
named_theorems wire_defs \<open>definitions of the wire formats\<close>

section \<open>Streams\<close>

text \<open>
  One end of a connection: \<open>rx\<close> are the bytes the peer sends before it finishes its
  side (a read past them is an end-of-file), \<open>tx\<close> the bytes written so far, and
  \<open>tx_open\<close> whether the peer still takes bytes (a write fails otherwise).
\<close>

record stream =
  rx :: bytes
  tx :: bytes
  tx_open :: bool

type_synonym 'a io = "stream \<Rightarrow> (io_error + 'a) \<times> stream"

definition io_return :: "'a \<Rightarrow> 'a io" where
  "io_return x s = (Inr x, s)"

definition io_fail :: "io_error \<Rightarrow> 'a io" where
  "io_fail e s = (Inl e, s)"

definition io_bind :: "'a io \<Rightarrow> ('a \<Rightarrow> 'b io) \<Rightarrow> 'b io" where
  "io_bind m f s = (case m s of (Inl e, s') \<Rightarrow> (Inl e, s') | (Inr x, s') \<Rightarrow> f x s')"

definition eof_error :: io_error where
  "eof_error = IoError UnexpectedEof (''early eof'', [])"

definition closed_error :: io_error where
  "closed_error = IoError BrokenPipe (''stream closed'', [])"

definition read_exact :: "nat \<Rightarrow> bytes io" where
  "read_exact n s =
     (if n \<le> length (rx s) then (Inr (take n (rx s)), s\<lparr>rx := drop n (rx s)\<rparr>)
      else (Inl eof_error, s\<lparr>rx := []\<rparr>))"

definition read_u8 :: "u8 io" where
  "read_u8 s = (case rx s of [] \<Rightarrow> (Inl eof_error, s) | b # bs \<Rightarrow> (Inr b, s\<lparr>rx := bs\<rparr>))"

definition read_u16 :: "u16 io" where
  "read_u16 = io_bind (read_exact 2) (\<lambda>bs. io_return (u16_from_be_bytes bs))"

definition write_all :: "bytes \<Rightarrow> unit io" where
  "write_all bs s =
     (if tx_open s then (Inr (), s\<lparr>tx := tx s @ bs\<rparr>) else (Inl closed_error, s))"

lemma io_return_apply [simp, io_simps]: "io_return x s = (Inr x, s)"
  by (simp add: io_return_def)

lemma io_fail_apply [simp, io_simps]: "io_fail e s = (Inl e, s)"
  by (simp add: io_fail_def)

lemma io_bind_ok [io_simps]: "m s = (Inr x, s') \<Longrightarrow> io_bind m f s = f x s'"
  by (simp add: io_bind_def)

lemma io_bind_err [io_simps]: "m s = (Inl e, s') \<Longrightarrow> io_bind m f s = (Inl e, s')"
  by (simp add: io_bind_def)

lemma read_u8_Cons [io_simps]: "rx s = b # bs \<Longrightarrow> read_u8 s = (Inr b, s\<lparr>rx := bs\<rparr>)"
  by (simp add: read_u8_def)

lemma read_exact_append [io_simps]:
  "rx s = bs @ rest \<Longrightarrow> length bs = n \<Longrightarrow> read_exact n s = (Inr bs, s\<lparr>rx := rest\<rparr>)"
  by (auto simp: read_exact_def)

lemma read_u16_append [io_simps]:
  "rx s = u16_to_be_bytes p @ rest \<Longrightarrow> read_u16 s = (Inr p, s\<lparr>rx := rest\<rparr>)"
  by (simp add: read_u16_def io_simps)

lemma write_all_open [io_simps]: "tx_open s \<Longrightarrow> write_all bs s = (Inr (), s\<lparr>tx := tx s @ bs\<rparr>)"
  by (simp add: write_all_def)

lemma io_bind_Inr_iff [io_inv]:
  "io_bind m f s = (Inr y, s'') \<longleftrightarrow> (\<exists>x s'. m s = (Inr x, s') \<and> f x s' = (Inr y, s''))"
  by (auto simp: io_bind_def split: prod.splits sum.splits)

text \<open>What a successful operation says of the stream it ran on.\<close>

lemma read_exact_Inr_iff [io_inv]:
  "read_exact n s = (Inr bs, s') \<longleftrightarrow>
     (\<exists>rest. rx s = bs @ rest \<and> length bs = n \<and> s' = s\<lparr>rx := rest\<rparr>)"
proof
  assume "read_exact n s = (Inr bs, s')"
  then show "\<exists>rest. rx s = bs @ rest \<and> length bs = n \<and> s' = s\<lparr>rx := rest\<rparr>"
    by (intro exI [of _ "drop n (rx s)"]) (auto simp: read_exact_def split: if_splits)
qed (auto simp: read_exact_def)

lemma read_u8_Inr_iff [io_inv]:
  "read_u8 s = (Inr b, s') \<longleftrightarrow> (\<exists>rest. rx s = b # rest \<and> s' = s\<lparr>rx := rest\<rparr>)"
  by (auto simp: read_u8_def split: list.splits)

lemma read_u16_Inr_iff [io_inv]:
  "read_u16 s = (Inr p, s') \<longleftrightarrow> (\<exists>rest. rx s = u16_to_be_bytes p @ rest \<and> s' = s\<lparr>rx := rest\<rparr>)"
  by (auto simp: read_u16_def io_bind_Inr_iff read_exact_Inr_iff)
    (metis length_to_be_bytes(1) u16_from_to_be_bytes)

lemma write_all_Inr_iff [io_inv]:
  "write_all bs s = (Inr x, s') \<longleftrightarrow> tx_open s \<and> s' = s\<lparr>tx := tx s @ bs\<rparr>"
  by (auto simp: write_all_def)

lemma io_bind_assoc: "io_bind (io_bind m f) g = io_bind m (\<lambda>x. io_bind (f x) g)"
  by (rule ext) (simp add: io_bind_def split: prod.splits sum.splits)

section \<open>What an operation may do to its stream\<close>

text \<open>
  An operation only takes bytes off the front of its input, only appends to its output,
  and leaves the peer's readiness alone. Every protocol operation is \<^emph>\<open>well-behaved\<close> in
  this sense, because the primitives are and sequencing keeps it.
\<close>

definition well_behaved :: "'a io \<Rightarrow> bool" where
  "well_behaved m \<longleftrightarrow> (\<forall>s r s'. m s = (r, s') \<longrightarrow>
     suffix (rx s') (rx s) \<and> prefix (tx s) (tx s') \<and> tx_open s' = tx_open s)"

named_theorems wb \<open>well-behaved operations\<close>

lemma well_behavedD:
  assumes "well_behaved m" and "m s = (r, s')"
  shows "suffix (rx s') (rx s)" "prefix (tx s) (tx s')" "tx_open s' = tx_open s"
  using assms by (auto simp: well_behaved_def)

lemma wb_return [wb]: "well_behaved (io_return x)"
  by (simp add: well_behaved_def)

lemma wb_fail [wb]: "well_behaved (io_fail e)"
  by (simp add: well_behaved_def)

lemma wb_bind [wb]:
  assumes m: "well_behaved m" and f: "\<And>x. well_behaved (f x)"
  shows "well_behaved (io_bind m f)"
  unfolding well_behaved_def
proof (intro allI impI)
  fix s r s''
  assume run: "io_bind m f s = (r, s'')"
  obtain r' s' where ms: "m s = (r', s')" by fastforce
  note m' = well_behavedD [OF m ms]
  show "suffix (rx s'') (rx s) \<and> prefix (tx s) (tx s'') \<and> tx_open s'' = tx_open s"
  proof (cases r')
    case (Inl e)
    with run ms m' show ?thesis by (simp add: io_bind_def)
  next
    case (Inr x)
    with run ms have "f x s' = (r, s'')" by (simp add: io_bind_def)
    note f' = well_behavedD [OF f this]
    from m' f' show ?thesis
      by (metis suffix_order.trans prefix_order.trans)
  qed
qed

lemma wb_read_exact [wb]: "well_behaved (read_exact n)"
  by (auto simp: well_behaved_def read_exact_def suffix_drop split: if_splits)

lemma wb_read_u8 [wb]: "well_behaved read_u8"
  by (auto simp: well_behaved_def read_u8_def suffix_ConsI split: list.splits)

lemma wb_read_u16 [wb]: "well_behaved read_u16"
  unfolding read_u16_def by (intro wb)

lemma wb_write_all [wb]: "well_behaved (write_all bs)"
  by (auto simp: well_behaved_def write_all_def split: if_splits)

lemma wb_option [wb]:
  "well_behaved m \<Longrightarrow> (\<And>x. well_behaved (f x)) \<Longrightarrow>
   well_behaved (case y of None \<Rightarrow> m | Some x \<Rightarrow> f x)"
  by (cases y) auto

lemma wb_if [wb]: "well_behaved m \<Longrightarrow> well_behaved m' \<Longrightarrow> well_behaved (if b then m else m')"
  by simp

section \<open>Wire codecs\<close>

text \<open>
  A codec writes a value as a byte string, and its reader, given a stream that starts with
  that byte string, returns the value and leaves exactly the rest. \<open>wf\<close> are the values
  the writer accepts.
\<close>

locale wire_codec =
  fixes wf :: "'a \<Rightarrow> bool"
    and enc :: "'a \<Rightarrow> bytes"
    and wr :: "'a \<Rightarrow> unit io"
    and rd :: "'a io"
  assumes wr_enc: "wf x \<Longrightarrow> tx_open s \<Longrightarrow> wr x s = (Inr (), s\<lparr>tx := tx s @ enc x\<rparr>)"
    and rd_enc: "wf x \<Longrightarrow> rx s = enc x @ rest \<Longrightarrow> rd s = (Inr x, s\<lparr>rx := rest\<rparr>)"
begin

lemma decode_unique:
  assumes "wf x" "wf y" "enc x @ a = enc y @ b"
  shows "x = y \<and> a = b"
proof -
  let ?s = "\<lparr>rx = enc x @ a, tx = [], tx_open = True\<rparr>"
  have "rd ?s = (Inr x, ?s\<lparr>rx := a\<rparr>)" using assms(1) by (rule rd_enc) simp
  moreover have "rd ?s = (Inr y, ?s\<lparr>rx := b\<rparr>)" using assms(2,3) by (intro rd_enc) simp_all
  ultimately show ?thesis by simp
qed

lemma enc_prefix_free: "wf x \<Longrightarrow> wf y \<Longrightarrow> prefix (enc x) (enc y) \<Longrightarrow> x = y"
  using decode_unique [of x y _ "[]"] by (auto simp: prefix_def)

lemma enc_inj_on: "inj_on enc {x. wf x}"
  using decode_unique [of _ _ "[]" "[]"] by (auto intro: inj_onI)

primrec write_seq :: "'a list \<Rightarrow> unit io" where
  "write_seq [] = io_return ()"
| "write_seq (x # xs) = io_bind (wr x) (\<lambda>_. write_seq xs)"

primrec read_seq :: "nat \<Rightarrow> 'a list io" where
  "read_seq 0 = io_return []"
| "read_seq (Suc n) = io_bind rd (\<lambda>x. io_bind (read_seq n) (\<lambda>xs. io_return (x # xs)))"

lemma write_seq_enc:
  "list_all wf xs \<Longrightarrow> tx_open s \<Longrightarrow>
   write_seq xs s = (Inr (), s\<lparr>tx := tx s @ concat (map enc xs)\<rparr>)"
proof (induction xs arbitrary: s)
  case (Cons x xs)
  let ?s = "s\<lparr>tx := tx s @ enc x\<rparr>"
  have "wr x s = (Inr (), ?s)" using Cons.prems by (intro wr_enc) auto
  moreover have "write_seq xs ?s = (Inr (), ?s\<lparr>tx := tx ?s @ concat (map enc xs)\<rparr>)"
    using Cons.prems by (intro Cons.IH) auto
  ultimately show ?case by (simp add: io_bind_ok)
qed simp

lemma read_seq_enc:
  "list_all wf xs \<Longrightarrow> rx s = concat (map enc xs) @ rest \<Longrightarrow>
   read_seq (length xs) s = (Inr xs, s\<lparr>rx := rest\<rparr>)"
proof (induction xs arbitrary: s)
  case (Cons x xs)
  let ?s = "s\<lparr>rx := concat (map enc xs) @ rest\<rparr>"
  have "rd s = (Inr x, ?s)" using Cons.prems by (intro rd_enc) auto
  moreover have "read_seq (length xs) ?s = (Inr xs, ?s\<lparr>rx := rest\<rparr>)"
    using Cons.prems by (intro Cons.IH) auto
  ultimately show ?case by (simp add: io_bind_ok)
qed simp

text \<open>What one end writes, the other end reads back: the messages arrive unchanged, in
  order, and nothing after them is consumed.\<close>

lemma transfer:
  assumes "list_all wf xs" "tx_open s" "tx s = []" "write_seq xs s = (r, s')" "rx t = tx s' @ rest"
  shows "r = Inr () \<and> read_seq (length xs) t = (Inr xs, t\<lparr>rx := rest\<rparr>)"
  using write_seq_enc [OF assms(1,2)] read_seq_enc [OF assms(1), of t rest] assms(3-5) by auto

end

end
