(* ===== verification/Net_Addr.thy ===== *)
theory Net_Addr
  imports Prelude
begin

text \<open>
  The part of \<^verbatim>\<open>std::net\<close> that the sources use: IP and socket addresses, their octets,
  loopback, and the parsers behind \<^verbatim>\<open>IpAddr::from_str\<close> and
  \<^verbatim>\<open>SocketAddr::from_str\<close> (which strings are IP literals decides whether a host is
  matched as a name or as an address). Two facts about the parsers are used later: they
  ignore ASCII case, and an IP literal consists of hexadecimal digits, dots and colons.
\<close>

section \<open>Addresses\<close>

datatype ip_addr = IpV4 u32 | IpV6 u128

text \<open>A V6 socket address carries a flow label and a scope id besides the address.\<close>

datatype socket_addr = SockV4 u32 u16 | SockV6 u128 u16 u32 u32

fun sock_ip :: "socket_addr \<Rightarrow> ip_addr" where
  "sock_ip (SockV4 a p) = IpV4 a"
| "sock_ip (SockV6 a p f sc) = IpV6 a"

fun sock_port :: "socket_addr \<Rightarrow> u16" where
  "sock_port (SockV4 a p) = p"
| "sock_port (SockV6 a p f sc) = p"

fun sock_new :: "ip_addr \<Rightarrow> u16 \<Rightarrow> socket_addr" where
  "sock_new (IpV4 a) p = SockV4 a p"
| "sock_new (IpV6 a) p = SockV6 a p 0 0"

fun is_ipv4_sock :: "socket_addr \<Rightarrow> bool" where
  "is_ipv4_sock (SockV4 a p) = True"
| "is_ipv4_sock (SockV6 a p f sc) = False"

text \<open>\<^verbatim>\<open>IpAddr::is_loopback\<close>: \<^verbatim>\<open>127.0.0.0/8\<close> or \<^verbatim>\<open>::1\<close>.\<close>

fun is_loopback :: "ip_addr \<Rightarrow> bool" where
  "is_loopback (IpV4 a) = (unat a div 16777216 = 127)"
| "is_loopback (IpV6 a) = (a = 1)"

definition ipv4_localhost :: u32 where "ipv4_localhost = 0x7F000001"

definition ipv6_localhost :: u128 where "ipv6_localhost = 1"

lemma sock_new_simps [simp]: "sock_ip (sock_new a p) = a" "sock_port (sock_new a p) = p"
  by (cases a; simp)+

section \<open>The parsers\<close>

type_synonym 'a parser = "string \<Rightarrow> ('a \<times> string) option"

definition to_digit :: "nat \<Rightarrow> char \<Rightarrow> nat option" where
  "to_digit radix c =
     (let n = of_char c;
          d = (if 48 \<le> n \<and> n \<le> 57 then n - 48
               else if 97 \<le> n \<and> n \<le> 122 then n - 87
               else if 65 \<le> n \<and> n \<le> 90 then n - 55 else 36)
      in if d < radix then Some d else None)"

definition is_radix_digit :: "nat \<Rightarrow> char \<Rightarrow> bool" where
  "is_radix_digit radix c \<longleftrightarrow> to_digit radix c \<noteq> None"

definition radix_val :: "nat \<Rightarrow> string \<Rightarrow> nat" where
  "radix_val radix ds = foldl (\<lambda>a d. radix * a + (case to_digit radix d of Some v \<Rightarrow> v | None \<Rightarrow> 0)) 0 ds"

text \<open>\<^verbatim>\<open>Parser::read_number\<close>: the longest run of digits, with a bound on their number
  (\<open>None\<close>: unbounded), on leading zeros and on the value.\<close>

definition read_number :: "nat \<Rightarrow> nat option \<Rightarrow> bool \<Rightarrow> nat \<Rightarrow> nat parser" where
  "read_number radix max_digits allow_zero_prefix limit s =
     (let ds = takeWhile (is_radix_digit radix) s; rest = dropWhile (is_radix_digit radix) s in
      if ds = [] \<or> (case max_digits of Some m \<Rightarrow> m < length ds | None \<Rightarrow> False)
         \<or> (\<not> allow_zero_prefix \<and> hd ds = CHR ''0'' \<and> 1 < length ds)
         \<or> limit < radix_val radix ds
      then None else Some (radix_val radix ds, rest))"

fun read_given_char :: "char \<Rightarrow> unit parser" where
  "read_given_char c [] = None"
| "read_given_char c (x # xs) = (if x = c then Some ((), xs) else None)"

definition read_separator :: "char \<Rightarrow> nat \<Rightarrow> 'a parser \<Rightarrow> 'a parser" where
  "read_separator sep i inner s =
     (if 0 < i then Option.bind (read_given_char sep s) (\<lambda>(_, r). inner r) else inner s)"

definition read_octet :: "nat \<Rightarrow> nat parser" where
  "read_octet i = read_separator CHR ''.'' i (read_number 10 (Some 3) False 255)"

definition read_ipv4_addr :: "u32 parser" where
  "read_ipv4_addr s =
     Option.bind (read_octet 0 s) (\<lambda>(a, s).
     Option.bind (read_octet 1 s) (\<lambda>(b, s).
     Option.bind (read_octet 2 s) (\<lambda>(c, s).
     Option.bind (read_octet 3 s) (\<lambda>(d, s).
       Some (of_nat (((a * 256 + b) * 256 + c) * 256 + d), s)))))"

text \<open>\<^verbatim>\<open>read_groups\<close>: \<open>k\<close> groups are still wanted, \<open>i\<close> have been read. An
  embedded IPv4 address fills two groups and ends the run.\<close>

fun read_groups :: "nat \<Rightarrow> nat \<Rightarrow> string \<Rightarrow> nat list \<times> bool \<times> string" where
  "read_groups 0 i s = ([], False, s)"
| "read_groups (Suc k) i s =
     (case (if 0 < k then read_separator CHR '':'' i read_ipv4_addr s else None) of
        Some (a, r) \<Rightarrow> ([unat a div 65536, unat a mod 65536], True, r)
      | None \<Rightarrow>
          (case read_separator CHR '':'' i (read_number 16 (Some 4) True 65535) s of
             Some (g, r) \<Rightarrow> (case read_groups k (Suc i) r of (gs, v4, r') \<Rightarrow> (g # gs, v4, r'))
           | None \<Rightarrow> ([], False, s)))"

definition ipv6_of_groups :: "nat list \<Rightarrow> u128" where
  "ipv6_of_groups gs = of_nat (foldl (\<lambda>a g. a * 65536 + g) 0 gs)"

definition read_ipv6_addr :: "u128 parser" where
  "read_ipv6_addr s =
     (case read_groups 8 0 s of (head, head_ipv4, r) \<Rightarrow>
        if length head = 8 then Some (ipv6_of_groups head, r)
        else if head_ipv4 then None
        else Option.bind (read_given_char CHR '':'' r) (\<lambda>(_, r).
             Option.bind (read_given_char CHR '':'' r) (\<lambda>(_, r).
               (case read_groups (8 - (length head + 1)) 0 r of (tail, _, r) \<Rightarrow>
                  Some (ipv6_of_groups
                    (head @ replicate (8 - length head - length tail) 0 @ tail), r)))))"

definition parse_all :: "'a parser \<Rightarrow> string \<Rightarrow> 'a option" where
  "parse_all p s = (case p s of Some (a, []) \<Rightarrow> Some a | _ \<Rightarrow> None)"

definition read_ip_addr :: "ip_addr parser" where
  "read_ip_addr s =
     (case read_ipv4_addr s of Some (a, r) \<Rightarrow> Some (IpV4 a, r)
      | None \<Rightarrow> map_option (\<lambda>(a, r). (IpV6 a, r)) (read_ipv6_addr s))"

text \<open>\<^verbatim>\<open>IpAddr::from_str\<close>.\<close>

definition parse_ip :: "string \<Rightarrow> ip_addr option" where
  "parse_ip = parse_all read_ip_addr"

definition read_port :: "nat parser" where
  "read_port s = Option.bind (read_given_char CHR '':'' s)
     (\<lambda>(_, r). read_number 10 None True 65535 r)"

definition read_scope_id :: "nat parser" where
  "read_scope_id s = Option.bind (read_given_char CHR ''%'' s)
     (\<lambda>(_, r). read_number 10 None True 4294967295 r)"

definition read_socket_addr_v6 :: "socket_addr parser" where
  "read_socket_addr_v6 s =
     Option.bind (read_given_char CHR ''['' s) (\<lambda>(_, r).
     Option.bind (read_ipv6_addr r) (\<lambda>(a, r).
     (case (case read_scope_id r of Some (n, r') \<Rightarrow> (n, r') | None \<Rightarrow> (0, r)) of (scope, r) \<Rightarrow>
     Option.bind (read_given_char CHR '']'' r) (\<lambda>(_, r).
     Option.bind (read_port r) (\<lambda>(p, r).
       Some (SockV6 a (of_nat p) 0 (of_nat scope), r))))))"

definition read_socket_addr :: "socket_addr parser" where
  "read_socket_addr s =
     (case Option.bind (read_ipv4_addr s) (\<lambda>(a, r).
           Option.bind (read_port r) (\<lambda>(p, r). Some (SockV4 a (of_nat p), r))) of
        Some x \<Rightarrow> Some x
      | None \<Rightarrow> read_socket_addr_v6 s)"

text \<open>\<^verbatim>\<open>SocketAddr::from_str\<close>.\<close>

definition parse_socket_addr :: "string \<Rightarrow> socket_addr option" where
  "parse_socket_addr = parse_all read_socket_addr"

section \<open>IP literals and ASCII case\<close>

text \<open>A parser that ignores case behaves on the lowercased input as on the input itself,
  with the rest lowercased.\<close>

definition ci_parser :: "'a parser \<Rightarrow> bool" where
  "ci_parser p \<longleftrightarrow>
     (\<forall>s. p (to_ascii_lowercase s) = map_option (map_prod id to_ascii_lowercase) (p s))"

named_theorems ci_parsers \<open>parsers that ignore case\<close>

lemma ci_parserD: "ci_parser p \<Longrightarrow>
  p (to_ascii_lowercase s) = map_option (map_prod id to_ascii_lowercase) (p s)"
  by (simp add: ci_parser_def)

lemma to_digit_lower [simp]: "radix \<le> 36 \<Longrightarrow> to_digit radix (lower_char c) = to_digit radix c"
  by (auto simp: to_digit_def of_char_lower_char Let_def)

lemma lower_char_keeps:
  "lower_char c = CHR '':'' \<longleftrightarrow> c = CHR '':''" "lower_char c = CHR ''.'' \<longleftrightarrow> c = CHR ''.''"
  "lower_char c = CHR ''0'' \<longleftrightarrow> c = CHR ''0''" "lower_char c = CHR ''['' \<longleftrightarrow> c = CHR ''[''"
  "lower_char c = CHR '']'' \<longleftrightarrow> c = CHR '']''" "lower_char c = CHR ''*'' \<longleftrightarrow> c = CHR ''*''"
proof -
  have *: "lower_char c = d \<longleftrightarrow> c = d" if "(of_char d :: nat) < 65 \<or> 90 < (of_char d :: nat) \<and>
    (of_char d :: nat) < 97" for d
  proof -
    have "lower_char c = d \<longleftrightarrow> (of_char (lower_char c) :: nat) = of_char d" by simp
    also have "\<dots> \<longleftrightarrow> (of_char c :: nat) = of_char d"
      using that by (auto simp: of_char_lower_char Let_def simp del: of_char_eq_iff)
    finally show ?thesis by simp
  qed
  show "lower_char c = CHR '':'' \<longleftrightarrow> c = CHR '':''" "lower_char c = CHR ''.'' \<longleftrightarrow> c = CHR ''.''"
    "lower_char c = CHR ''0'' \<longleftrightarrow> c = CHR ''0''" "lower_char c = CHR ''['' \<longleftrightarrow> c = CHR ''[''"
    "lower_char c = CHR '']'' \<longleftrightarrow> c = CHR '']''" "lower_char c = CHR ''*'' \<longleftrightarrow> c = CHR ''*''"
    by (rule *; simp)+
qed

lemma radix_val_lower [simp]: "radix \<le> 36 \<Longrightarrow> radix_val radix (map lower_char ds) = radix_val radix ds"
  by (simp add: radix_val_def foldl_map)

lemma ci_read_number [ci_parsers]:
  "radix \<le> 36 \<Longrightarrow> ci_parser (read_number radix m z l)"
  unfolding ci_parser_def
proof
  fix s
  assume r: "radix \<le> 36"
  have "(is_radix_digit radix \<circ> lower_char) = is_radix_digit radix"
    using r by (auto simp: is_radix_digit_def)
  moreover have "hd (map lower_char (takeWhile (is_radix_digit radix) s)) = CHR ''0'' \<longleftrightarrow>
      hd (takeWhile (is_radix_digit radix) s) = CHR ''0''" if "takeWhile (is_radix_digit radix) s \<noteq> []"
    using that by (simp add: list.map_sel lower_char_keeps)
  ultimately show "read_number radix m z l (to_ascii_lowercase s) =
      map_option (map_prod id to_ascii_lowercase) (read_number radix m z l s)"
    using r by (cases m)
      (auto simp: read_number_def to_ascii_lowercase_def takeWhile_map dropWhile_map Let_def)
qed

lemma ci_read_given_char [ci_parsers]:
  "c \<in> {CHR '':'', CHR ''.'', CHR ''['', CHR '']''} \<Longrightarrow> ci_parser (read_given_char c)"
  unfolding ci_parser_def
proof
  fix s
  assume "c \<in> {CHR '':'', CHR ''.'', CHR ''['', CHR '']''}"
  then show "read_given_char c (to_ascii_lowercase s) =
      map_option (map_prod id to_ascii_lowercase) (read_given_char c s)"
    by (cases s) (auto simp: to_ascii_lowercase_def lower_char_keeps)
qed

lemma ci_bind:
  assumes "ci_parser p" and "\<And>a. ci_parser (f a)"
  shows "ci_parser (\<lambda>s. Option.bind (p s) (\<lambda>(a, r). f a r))"
  unfolding ci_parser_def
proof
  fix s
  show "Option.bind (p (to_ascii_lowercase s)) (\<lambda>(a, r). f a r) =
      map_option (map_prod id to_ascii_lowercase) (Option.bind (p s) (\<lambda>(a, r). f a r))"
    unfolding ci_parserD [OF assms(1)]
    by (cases "p s") (auto simp: ci_parserD [OF assms(2)])
qed

lemma ci_return: "ci_parser (\<lambda>s. Some (a, s))"
  by (simp add: ci_parser_def)

lemma ci_read_separator:
  "c \<in> {CHR '':'', CHR ''.''} \<Longrightarrow> ci_parser p \<Longrightarrow> ci_parser (read_separator c i p)"
  using ci_bind [of "read_given_char c" "\<lambda>_. p"] ci_read_given_char [of c]
  by (auto simp: ci_parser_def read_separator_def split_def)

lemma ci_read_ipv4_addr [ci_parsers]: "ci_parser read_ipv4_addr"
  unfolding read_ipv4_addr_def [abs_def] read_octet_def
  by (intro ci_bind ci_read_separator ci_read_number ci_return) simp_all

lemma ci_read_groups:
  "read_groups k i (to_ascii_lowercase s) =
     (case read_groups k i s of (gs, v4, r) \<Rightarrow> (gs, v4, to_ascii_lowercase r))"
proof (induction k arbitrary: i s)
  case (Suc k)
  have v4: "read_separator CHR '':'' i read_ipv4_addr (to_ascii_lowercase s) =
      map_option (map_prod id to_ascii_lowercase) (read_separator CHR '':'' i read_ipv4_addr s)"
    by (intro ci_parserD ci_read_separator ci_parsers) simp
  have g: "read_separator CHR '':'' i (read_number 16 (Some 4) True 65535) (to_ascii_lowercase s) =
      map_option (map_prod id to_ascii_lowercase)
        (read_separator CHR '':'' i (read_number 16 (Some 4) True 65535) s)"
    by (intro ci_parserD ci_read_separator ci_parsers) simp_all
  show ?case
    by (auto simp: v4 g Suc.IH split: option.splits prod.splits)
qed simp

lemma ci_read_ipv6_addr [ci_parsers]: "ci_parser read_ipv6_addr"
  unfolding ci_parser_def
proof
  fix s
  obtain hs v4 r where h: "read_groups 8 0 s = (hs, v4, r)" by (metis prod_cases3)
  have c: "read_given_char CHR '':'' (to_ascii_lowercase t) =
      map_option (map_prod id to_ascii_lowercase) (read_given_char CHR '':'' t)" for t
    by (intro ci_parserD ci_parsers) simp
  show "read_ipv6_addr (to_ascii_lowercase s) =
      map_option (map_prod id to_ascii_lowercase) (read_ipv6_addr s)"
    by (auto simp: read_ipv6_addr_def h ci_read_groups c split: prod.splits Option.bind_splits)
qed

lemma ci_read_ip_addr [ci_parsers]: "ci_parser read_ip_addr"
  using ci_read_ipv4_addr ci_read_ipv6_addr
  by (auto simp: ci_parser_def read_ip_addr_def option.map_comp comp_def split_def
      split: option.splits)

lemma parse_all_lower: "ci_parser p \<Longrightarrow> parse_all p (to_ascii_lowercase s) = parse_all p s"
  by (simp add: parse_all_def ci_parserD split: option.split prod.split)
    (auto simp: to_ascii_lowercase_def split: list.splits)

interpretation ip_ci: ci_matcher parse_ip
  by unfold_locales (simp add: parse_ip_def parse_all_lower ci_parsers)

section \<open>The characters of an IP literal\<close>

definition ip_char :: "char \<Rightarrow> bool" where
  "ip_char c \<longleftrightarrow> is_radix_digit 16 c \<or> c = CHR '':'' \<or> c = CHR ''.''"

definition ip_parser :: "'a parser \<Rightarrow> bool" where
  "ip_parser p \<longleftrightarrow> (\<forall>s a r. p s = Some (a, r) \<longrightarrow> (\<exists>u. s = u @ r \<and> list_all ip_char u))"

lemma ip_parserD: "ip_parser p \<Longrightarrow> p s = Some (a, r) \<Longrightarrow> \<exists>u. s = u @ r \<and> list_all ip_char u"
  by (simp add: ip_parser_def)

lemma radix_10_16: "is_radix_digit 10 c \<Longrightarrow> is_radix_digit 16 c"
  by (auto simp: is_radix_digit_def to_digit_def Let_def split: if_splits)

lemma ip_read_number: "radix = 10 \<or> radix = 16 \<Longrightarrow> ip_parser (read_number radix m z l)"
  unfolding ip_parser_def
proof (intro allI impI)
  fix s a r
  assume radix: "radix = 10 \<or> radix = 16" and "read_number radix m z l s = Some (a, r)"
  then have r: "r = dropWhile (is_radix_digit radix) s"
    by (auto simp: read_number_def Let_def split: if_splits)
  have "list_all ip_char (takeWhile (is_radix_digit radix) s)"
    using radix by (auto simp: list_all_iff ip_char_def dest!: set_takeWhileD intro: radix_10_16)
  with r show "\<exists>u. s = u @ r \<and> list_all ip_char u" by (metis takeWhile_dropWhile_id)
qed

lemma ip_read_given_char: "ip_char c \<Longrightarrow> ip_parser (read_given_char c)"
  unfolding ip_parser_def
proof (intro allI impI)
  fix s a r
  assume "ip_char c" "read_given_char c s = Some (a, r)"
  then show "\<exists>u. s = u @ r \<and> list_all ip_char u"
    by (cases s) (auto split: if_splits intro: exI [of _ "[c]"])
qed

lemma ip_bind:
  assumes p: "ip_parser p" and f: "\<And>a. ip_parser (f a)"
  shows "ip_parser (\<lambda>s. Option.bind (p s) (\<lambda>(a, r). f a r))"
  unfolding ip_parser_def
proof (intro allI impI)
  fix s b r'
  assume "Option.bind (p s) (\<lambda>(a, r). f a r) = Some (b, r')"
  then obtain a r where a: "p s = Some (a, r)" and b: "f a r = Some (b, r')"
    by (auto simp: bind_eq_Some_conv)
  from ip_parserD [OF p a] ip_parserD [OF f b]
  show "\<exists>u. s = u @ r' \<and> list_all ip_char u" by (metis append.assoc list_all_append)
qed

lemma ip_return: "ip_parser (\<lambda>s. Some (a, s))"
  by (simp add: ip_parser_def)

lemma ip_read_separator: "ip_char c \<Longrightarrow> ip_parser p \<Longrightarrow> ip_parser (read_separator c i p)"
  using ip_bind [of "read_given_char c" "\<lambda>_. p"] ip_read_given_char [of c]
  by (auto simp: ip_parser_def read_separator_def split_def)

lemma ip_char_sep [simp]: "ip_char CHR '':''" "ip_char CHR ''.''"
  by (simp_all add: ip_char_def)

lemma ip_read_ipv4_addr: "ip_parser read_ipv4_addr"
  unfolding read_ipv4_addr_def [abs_def] read_octet_def
  by (intro ip_bind ip_read_separator ip_read_number ip_return) simp_all

lemma ip_read_groups:
  "read_groups k i s = (gs, v4, r) \<Longrightarrow> \<exists>u. s = u @ r \<and> list_all ip_char u"
proof (induction k arbitrary: i s gs v4 r)
  case (Suc k)
  let ?v4 = "read_separator CHR '':'' i read_ipv4_addr"
  let ?g = "read_separator CHR '':'' i (read_number 16 (Some 4) True 65535)"
  have v4: "ip_parser ?v4" and g: "ip_parser ?g"
    by (intro ip_read_separator ip_read_ipv4_addr ip_read_number; simp)+
  consider (v4) a where "0 < k" "?v4 s = Some (a, r)"
    | (group) g' r1 gs' where "?g s = Some (g', r1)" "read_groups k (Suc i) r1 = (gs', v4, r)"
    | (none) "r = s"
    using Suc.prems by (auto split: option.splits prod.splits if_splits)
  then show ?case
  proof cases
    case v4
    with ip_parserD [OF \<open>ip_parser ?v4\<close>] show ?thesis by blast
  next
    case group
    from ip_parserD [OF g group(1)] Suc.IH [OF group(2)] show ?thesis
      by (metis append.assoc list_all_append)
  qed (auto intro: exI [of _ "[]"])
qed (auto intro: exI [of _ "[]"])

lemma ip_read_ipv6_addr: "ip_parser read_ipv6_addr"
  unfolding ip_parser_def
proof (intro allI impI)
  fix s a r
  assume run: "read_ipv6_addr s = Some (a, r)"
  obtain hs v4 r0 where h: "read_groups 8 0 s = (hs, v4, r0)" by (metis prod_cases3)
  from ip_read_groups [OF h] obtain u where u: "s = u @ r0" "list_all ip_char u" by blast
  show "\<exists>u. s = u @ r \<and> list_all ip_char u"
  proof (cases "length hs = 8")
    case True
    with run h u show ?thesis by (auto simp: read_ipv6_addr_def)
  next
    case False
    with run h obtain r1 r2 where
      c: "read_given_char CHR '':'' r0 = Some ((), r1)" "read_given_char CHR '':'' r1 = Some ((), r2)"
      and r: "(case read_groups (8 - (length hs + 1)) 0 r2 of (ts, v, r3) \<Rightarrow> r3) = r"
      by (auto simp: read_ipv6_addr_def bind_eq_Some_conv split_def split: if_splits)
    from r obtain ts v where "read_groups (8 - (length hs + 1)) 0 r2 = (ts, v, r)"
      by (auto simp: split_def prod_eq_iff)
    from ip_read_groups [OF this] obtain u' where "r2 = u' @ r" "list_all ip_char u'" by blast
    with c u show ?thesis
      by (cases r0; cases r1) (auto split: if_splits intro!: exI [of _ "u @ '':'' @ '':'' @ u'"])
  qed
qed

lemma parse_ip_chars: "parse_ip s = Some a \<Longrightarrow> list_all ip_char s"
proof -
  assume "parse_ip s = Some a"
  then have "(\<exists>a. read_ipv4_addr s = Some (a, [])) \<or> (\<exists>a. read_ipv6_addr s = Some (a, []))"
    by (auto simp: parse_ip_def parse_all_def read_ip_addr_def split: option.splits prod.splits list.splits)
  then show ?thesis
    using ip_parserD [OF ip_read_ipv4_addr] ip_parserD [OF ip_read_ipv6_addr] by fastforce
qed

lemma not_ip_literal: "c \<in> set s \<Longrightarrow> \<not> ip_char c \<Longrightarrow> parse_ip s = None"
  using parse_ip_chars [of s] by (cases "parse_ip s") (auto simp: list_all_iff)

end
