(* ===== verification/Signaling.thy ===== *)
theory Signaling
  imports Streams Net_Addr
begin

text \<open>
  The wire protocol, \<^verbatim>\<open>src/crates/flextunnel-core/src/proxy/signaling.rs\<close>: the handshake
  and control messages with their version check, the length-prefixed frames they travel in,
  and the compact per-stream request and reply headers. The JSON coding of the messages is
  the library \<^verbatim>\<open>serde_json\<close>: its \<^verbatim>\<open>to_vec\<close> and \<^verbatim>\<open>from_slice\<close> are
  arguments of the encoders and decoders.
\<close>

section \<open>Constants\<close>

definition PROTOCOL_VERSION :: u16 where "PROTOCOL_VERSION = 13"

definition MAX_HANDSHAKE_SIZE :: nat where "MAX_HANDSHAKE_SIZE = 64 * 1024"

definition MAX_CONTROL_MSG_SIZE :: nat where "MAX_CONTROL_MSG_SIZE = 16 * 1024"

definition STREAM_VERSION :: u8 where [wire_defs]: "STREAM_VERSION = 1"

definition ATYP_IPV4 :: u8 where [wire_defs]: "ATYP_IPV4 = 0x01"
definition ATYP_DOMAIN :: u8 where [wire_defs]: "ATYP_DOMAIN = 0x03"
definition ATYP_IPV6 :: u8 where [wire_defs]: "ATYP_IPV6 = 0x04"

definition REP_SUCCESS :: u8 where "REP_SUCCESS = 0x00"
definition REP_GENERAL_FAILURE :: u8 where "REP_GENERAL_FAILURE = 0x01"
definition REP_NOT_ALLOWED :: u8 where "REP_NOT_ALLOWED = 0x02"
definition REP_NET_UNREACHABLE :: u8 where "REP_NET_UNREACHABLE = 0x03"
definition REP_HOST_UNREACHABLE :: u8 where "REP_HOST_UNREACHABLE = 0x04"
definition REP_CONN_REFUSED :: u8 where "REP_CONN_REFUSED = 0x05"
definition REP_CMD_NOT_SUPPORTED :: u8 where "REP_CMD_NOT_SUPPORTED = 0x07"
definition REP_ATYP_NOT_SUPPORTED :: u8 where "REP_ATYP_NOT_SUPPORTED = 0x08"

lemmas rep_defs = REP_SUCCESS_def REP_GENERAL_FAILURE_def REP_NOT_ALLOWED_def
  REP_NET_UNREACHABLE_def REP_HOST_UNREACHABLE_def REP_CONN_REFUSED_def
  REP_CMD_NOT_SUPPORTED_def REP_ATYP_NOT_SUPPORTED_def

section \<open>Handshake and control messages\<close>

record client_auth_payload =
  public_key :: string
  endpoint_id :: string
  signature :: string

record hello =
  hello_version :: u16
  auth :: "client_auth_payload option"
  client_instance_nonce :: u128
  duplicate_server_observed :: bool

record bridge_hello =
  bridge_hello_version :: u16

record bridge_summary =
  summary_name :: string
  summary_endpoint_id :: string
  summary_domains :: "string list"
  summary_cidrs :: "string list"

record accepted_routes =
  acc_routed_domains :: "string list"
  acc_routed_cidrs :: "string list"
  acc_host_aliases :: "(string \<times> string) list"
  acc_dns_forwards :: "(string \<times> string list) list"
  acc_bridges :: "bridge_summary list"

record hello_response =
  resp_version :: u16
  accepted :: bool
  reject_reason :: "msg option"
  server_instance_nonce :: u128
  routed_domains :: "string list"
  routed_cidrs :: "string list"
  host_aliases :: "(string \<times> string) list"
  dns_forwards :: "(string \<times> string list) list"
  bridges :: "bridge_summary list"

datatype control_msg = Heartbeat u64 | HeartbeatAck u64

definition hello_new :: "client_auth_payload option \<Rightarrow> u128 \<Rightarrow> hello" where
  "hello_new a nonce = \<lparr>hello_version = PROTOCOL_VERSION, auth = a,
     client_instance_nonce = nonce, duplicate_server_observed = False\<rparr>"

definition bridge_hello_new :: bridge_hello where
  "bridge_hello_new = \<lparr>bridge_hello_version = PROTOCOL_VERSION\<rparr>"

definition no_routes :: accepted_routes where
  "no_routes = \<lparr>acc_routed_domains = [], acc_routed_cidrs = [], acc_host_aliases = [],
     acc_dns_forwards = [], acc_bridges = []\<rparr>"

definition response_accepted :: "u128 \<Rightarrow> accepted_routes \<Rightarrow> hello_response" where
  "response_accepted nonce routes = \<lparr>resp_version = PROTOCOL_VERSION, accepted = True,
     reject_reason = None, server_instance_nonce = nonce,
     routed_domains = acc_routed_domains routes, routed_cidrs = acc_routed_cidrs routes,
     host_aliases = acc_host_aliases routes, dns_forwards = acc_dns_forwards routes,
     bridges = acc_bridges routes\<rparr>"

definition response_rejected :: "u128 \<Rightarrow> msg \<Rightarrow> hello_response" where
  "response_rejected nonce reason = \<lparr>resp_version = PROTOCOL_VERSION, accepted = False,
     reject_reason = Some reason, server_instance_nonce = nonce, routed_domains = [],
     routed_cidrs = [], host_aliases = [], dns_forwards = [], bridges = []\<rparr>"

text \<open>\<open>map_err(io::Error::other)\<close> on a result of the JSON library.\<close>

definition json_result :: "msg + 'a \<Rightarrow> io_error + 'a" where
  "json_result r = (case r of Inl e \<Rightarrow> Inl (IoError Other e) | Inr x \<Rightarrow> Inr x)"

text \<open>The version check shared by the three handshake decoders.\<close>

definition version_error :: "u16 \<Rightarrow> io_error" where
  "version_error v = io_other ''Unsupported protocol version: {} (expected {})''
     [FNat (unat v), FNat (unat PROTOCOL_VERSION)]"

definition encode_hello :: "(hello \<Rightarrow> msg + bytes) \<Rightarrow> hello \<Rightarrow> io_error + bytes" where
  "encode_hello to_vec h = json_result (to_vec h)"

definition decode_hello :: "(bytes \<Rightarrow> msg + hello) \<Rightarrow> bytes \<Rightarrow> io_error + hello" where
  "decode_hello from_slice data = result_bind (json_result (from_slice data)) (\<lambda>h.
     if hello_version h \<noteq> PROTOCOL_VERSION then Inl (version_error (hello_version h)) else Inr h)"

definition encode_bridge_hello ::
  "(bridge_hello \<Rightarrow> msg + bytes) \<Rightarrow> bridge_hello \<Rightarrow> io_error + bytes" where
  "encode_bridge_hello to_vec h = json_result (to_vec h)"

definition decode_bridge_hello ::
  "(bytes \<Rightarrow> msg + bridge_hello) \<Rightarrow> bytes \<Rightarrow> io_error + bridge_hello" where
  "decode_bridge_hello from_slice data = result_bind (json_result (from_slice data)) (\<lambda>h.
     if bridge_hello_version h \<noteq> PROTOCOL_VERSION
     then Inl (version_error (bridge_hello_version h)) else Inr h)"

definition encode_hello_response ::
  "(hello_response \<Rightarrow> msg + bytes) \<Rightarrow> hello_response \<Rightarrow> io_error + bytes" where
  "encode_hello_response to_vec r = json_result (to_vec r)"

definition decode_hello_response ::
  "(bytes \<Rightarrow> msg + hello_response) \<Rightarrow> bytes \<Rightarrow> io_error + hello_response" where
  "decode_hello_response from_slice data = result_bind (json_result (from_slice data)) (\<lambda>r.
     if resp_version r \<noteq> PROTOCOL_VERSION then Inl (version_error (resp_version r)) else Inr r)"

definition encode_control :: "(control_msg \<Rightarrow> msg + bytes) \<Rightarrow> control_msg \<Rightarrow> io_error + bytes" where
  "encode_control to_vec m = json_result (to_vec m)"

definition decode_control :: "(bytes \<Rightarrow> msg + control_msg) \<Rightarrow> bytes \<Rightarrow> io_error + control_msg" where
  "decode_control from_slice data = json_result (from_slice data)"

section \<open>Frames\<close>

definition write_message :: "bytes \<Rightarrow> unit io" where
  "write_message data =
     (if length data < 2 ^ 32 then
        io_bind (write_all (u32_to_be_bytes (of_nat (length data)))) (\<lambda>_. write_all data)
      else io_fail (io_other ''Message too large: {} bytes'' [FNat (length data)]))"

definition read_message :: "nat \<Rightarrow> bytes io" where
  "read_message max_size =
     io_bind (read_exact 4) (\<lambda>len_buf.
       let len = unat (u32_from_be_bytes len_buf) in
       if max_size < len
       then io_fail (io_other ''Message too large: {len} > {max_size}'' [FNat len, FNat max_size])
       else read_exact len)"

section \<open>Request and reply headers\<close>

datatype target = TIp socket_addr | TDomain string u16

definition write_request :: "target \<Rightarrow> unit io" where
  "write_request t =
     (case t of
        TIp (SockV4 ip port) \<Rightarrow>
          write_all ([STREAM_VERSION] @ [ATYP_IPV4] @ u32_to_be_bytes ip @ u16_to_be_bytes port)
      | TIp (SockV6 ip port flow scope) \<Rightarrow>
          write_all ([STREAM_VERSION] @ [ATYP_IPV6] @ u128_to_be_bytes ip @ u16_to_be_bytes port)
      | TDomain host port \<Rightarrow>
          if length (as_bytes host) \<le> 255 then
            write_all ([STREAM_VERSION] @ [ATYP_DOMAIN] @ [of_nat (length (as_bytes host))]
              @ as_bytes host @ u16_to_be_bytes port)
          else io_fail (io_other ''domain name longer than 255 bytes'' []))"

definition stream_version_error :: "u8 \<Rightarrow> io_error" where
  "stream_version_error ver =
     io_other ''Unsupported stream version: {ver} (expected {STREAM_VERSION})''
       [FNat (unat ver), FNat (unat STREAM_VERSION)]"

definition read_request :: "target io" where
  "read_request =
     io_bind read_u8 (\<lambda>ver.
     if ver \<noteq> STREAM_VERSION then io_fail (stream_version_error ver) else
     io_bind read_u8 (\<lambda>atyp.
     if atyp = ATYP_IPV4 then
       io_bind (read_exact 4) (\<lambda>octets. io_bind read_u16 (\<lambda>port.
         io_return (TIp (SockV4 (u32_from_be_bytes octets) port))))
     else if atyp = ATYP_IPV6 then
       io_bind (read_exact 16) (\<lambda>octets. io_bind read_u16 (\<lambda>port.
         io_return (TIp (SockV6 (u128_from_be_bytes octets) port 0 0))))
     else if atyp = ATYP_DOMAIN then
       io_bind read_u8 (\<lambda>len. io_bind (read_exact (unat len)) (\<lambda>host. io_bind read_u16 (\<lambda>port.
         case from_utf8 host of
           None \<Rightarrow> io_fail (io_other ''domain name is not valid UTF-8'' [])
         | Some host \<Rightarrow> io_return (TDomain host port))))
     else io_fail (io_other ''invalid address type: 0x{other:02x}'' [FNat (unat atyp)])))"

definition write_reply :: "u8 \<Rightarrow> unit io" where
  "write_reply rep = write_all [STREAM_VERSION, rep]"

definition read_reply :: "u8 io" where
  "read_reply = io_bind read_u8 (\<lambda>ver.
     if ver \<noteq> STREAM_VERSION then io_fail (stream_version_error ver) else read_u8)"

definition map_io_err :: "io_error \<Rightarrow> u8" where
  "map_io_err e = (case err_kind e of
       ConnectionRefused \<Rightarrow> REP_CONN_REFUSED
     | NetworkUnreachable \<Rightarrow> REP_NET_UNREACHABLE
     | HostUnreachable \<Rightarrow> REP_HOST_UNREACHABLE
     | _ \<Rightarrow> REP_GENERAL_FAILURE)"

section \<open>The request header as a codec\<close>

text \<open>The byte string of a request, and the targets a request header can carry: a V6
  address without flow label and scope, or a name of at most 255 bytes.\<close>

definition enc_request :: "target \<Rightarrow> bytes" where
  "enc_request t = (case t of
     TIp (SockV4 ip port) \<Rightarrow> [1, 1] @ u32_to_be_bytes ip @ u16_to_be_bytes port
   | TIp (SockV6 ip port _ _) \<Rightarrow> [1, 4] @ u128_to_be_bytes ip @ u16_to_be_bytes port
   | TDomain host port \<Rightarrow>
       [1, 3, of_nat (length host)] @ as_bytes host @ u16_to_be_bytes port)"

definition wire_target :: "target \<Rightarrow> bool" where
  "wire_target t = (case t of
     TIp (SockV4 _ _) \<Rightarrow> True
   | TIp (SockV6 _ _ flow scope) \<Rightarrow> flow = 0 \<and> scope = 0
   | TDomain host _ \<Rightarrow> length host \<le> 255 \<and> valid_str host)"

text \<open>What survives of a target on the wire.\<close>

fun wire_form :: "target \<Rightarrow> target" where
  "wire_form (TIp sa) = TIp (sock_new (sock_ip sa) (sock_port sa))"
| "wire_form (TDomain h p) = TDomain h p"

lemma unat_of_length [simp]: "n \<le> 255 \<Longrightarrow> unat (of_nat n :: u8) = n"
  by simp

lemma length_u8_eq: "length xs = unat (b :: u8) \<Longrightarrow> b = of_nat (length xs) \<and> length xs \<le> 255"
  using unat_less(1) [of b] by (auto simp del: unat_less)

lemma read_request_Inr_iff [io_inv]:
  "read_request s = (Inr t, s') \<longleftrightarrow>
     wire_target t \<and> (\<exists>rest. rx s = enc_request t @ rest \<and> s' = s\<lparr>rx := rest\<rparr>)"
proof
  assume "read_request s = (Inr t, s')"
  then show "wire_target t \<and> (\<exists>rest. rx s = enc_request t @ rest \<and> s' = s\<lparr>rx := rest\<rparr>)"
    by (auto simp: read_request_def io_inv wire_defs enc_request_def wire_target_def
        from_utf8_Some_iff split: if_splits option.splits dest!: length_u8_eq)
next
  assume "wire_target t \<and> (\<exists>rest. rx s = enc_request t @ rest \<and> s' = s\<lparr>rx := rest\<rparr>)"
  then show "read_request s = (Inr t, s')"
    by (auto simp: read_request_def io_simps wire_defs enc_request_def wire_target_def
        split: target.splits socket_addr.splits)
qed

lemma write_request_enc:
  "wire_target t \<Longrightarrow> tx_open s \<Longrightarrow> write_request t s = (Inr (), s\<lparr>tx := tx s @ enc_request t\<rparr>)"
  by (auto simp: write_request_def io_simps wire_defs enc_request_def wire_target_def
      split: target.splits socket_addr.splits)

lemma wire_target_wire_form:
  "case t of TDomain h p \<Rightarrow> length h \<le> 255 \<and> valid_str h | _ \<Rightarrow> True \<Longrightarrow> wire_target (wire_form t)"
  by (cases t rule: wire_form.cases) (auto simp: wire_target_def split: socket_addr.splits
      elim: sock_new.elims)

lemma wire_form_same:
  "enc_request (wire_form t) = enc_request t" "write_request (wire_form t) = write_request t"
  by (cases t rule: wire_form.cases; auto simp: enc_request_def write_request_def
      split: socket_addr.splits elim: sock_new.elims sock_ip.elims)+

interpretation request: wire_codec wire_target enc_request write_request read_request
  by unfold_locales (auto simp: write_request_enc read_request_Inr_iff)

interpretation reply: wire_codec "\<lambda>_. True" "\<lambda>rep. [1, rep]" write_reply read_reply
  by unfold_locales (auto simp: write_reply_def read_reply_def io_simps wire_defs)

section \<open>Frames as a codec\<close>

definition enc_message :: "bytes \<Rightarrow> bytes" where
  "enc_message data = u32_to_be_bytes (of_nat (length data)) @ data"

definition frame_ok :: "nat \<Rightarrow> bytes \<Rightarrow> bool" where
  "frame_ok max_size data \<longleftrightarrow> length data \<le> max_size \<and> length data < 2 ^ 32"

lemma read_message_Inr_iff [io_inv]:
  "read_message m s = (Inr data, s') \<longleftrightarrow>
     frame_ok m data \<and> (\<exists>rest. rx s = enc_message data @ rest \<and> s' = s\<lparr>rx := rest\<rparr>)"
proof
  assume "read_message m s = (Inr data, s')"
  then obtain lb rest where lb: "length lb = 4" "rx s = lb @ data @ rest"
    and len: "unat (u32_from_be_bytes lb) = length data" "length data \<le> m" and s': "s' = s\<lparr>rx := rest\<rparr>"
    by (auto simp: read_message_def io_inv Let_def split: if_splits)
  from len(1) have "u32_from_be_bytes lb = of_nat (length data)" by (metis of_nat_unat ucast_id)
  with lb have "lb = u32_to_be_bytes (of_nat (length data))" by (metis u32_to_from_be_bytes)
  moreover have "length data < 2 ^ 32"
    using unat_less(3) [of "u32_from_be_bytes lb"] len(1) by simp
  ultimately show "frame_ok m data \<and> (\<exists>rest. rx s = enc_message data @ rest \<and> s' = s\<lparr>rx := rest\<rparr>)"
    using lb len s' by (auto simp: frame_ok_def enc_message_def)
qed (auto simp: read_message_def io_simps frame_ok_def enc_message_def unat_of_nat)

interpretation frame: wire_codec "frame_ok m" enc_message write_message "read_message m" for m
  by unfold_locales
    (auto simp: write_message_def frame_ok_def enc_message_def io_simps read_message_Inr_iff)

lemma wb_signaling [wb]:
  "well_behaved (write_message data)" "well_behaved (read_message m)" "well_behaved read_request"
  "well_behaved (write_reply rep)" "well_behaved read_reply"
  unfolding write_message_def read_message_def read_request_def write_reply_def read_reply_def Let_def
  by (intro wb)+

lemma wb_write_request [wb]: "well_behaved (write_request t)"
  unfolding write_request_def by (auto intro!: wb split: target.split socket_addr.split)

section \<open>Properties\<close>

text \<open>C1: Whatever target one end requests (any V4 or V6 address, or any name of at most 255
  bytes), the other end reads from the header exactly that target, up to the flow label and
  scope of a V6 address, which the header does not carry, and consumes nothing of the data
  that follows the header.\<close>

theorem request_round_trip:
  assumes "case t of TDomain h p \<Rightarrow> length h \<le> 255 \<and> valid_str h | _ \<Rightarrow> True"
    and "tx_open s" and "tx s = []"
    and "write_request t s = (r, s')" and "rx s2 = tx s' @ payload"
  shows "r = Inr () \<and> read_request s2 = (Inr (wire_form t), s2\<lparr>rx := payload\<rparr>)"
  using request.wr_enc [OF wire_target_wire_form [OF assms(1)] assms(2)]
    request.rd_enc [OF wire_target_wire_form [OF assms(1)], of s2 payload] assms(3-5)
  by (auto simp: wire_form_same)

theorem request_round_trip_witness:
  "write_request (TDomain ''db.corp'' 5432) \<lparr>rx = [], tx = [], tx_open = True\<rparr> =
     (Inr (), \<lparr>rx = [], tx = [1, 3, 7, 100, 98, 46, 99, 111, 114, 112, 21, 56], tx_open = True\<rparr>) \<and>
   read_request \<lparr>rx = [1, 3, 7, 100, 98, 46, 99, 111, 114, 112, 21, 56, 22, 3], tx = [], tx_open = True\<rparr> =
     (Inr (TDomain ''db.corp'' 5432), \<lparr>rx = [22, 3], tx = [], tx_open = True\<rparr>)"
proof -
  have w: "write_request (TDomain ''db.corp'' 5432) \<lparr>rx = [], tx = [], tx_open = True\<rparr> =
     (Inr (), \<lparr>rx = [], tx = [1, 3, 7, 100, 98, 46, 99, 111, 114, 112, 21, 56], tx_open = True\<rparr>)"
    by code_simp
  have "valid_str ''db.corp''" by code_simp
  with request_round_trip [OF _ _ _ w, of "\<lparr>rx = [1, 3, 7, 100, 98, 46, 99, 111, 114, 112, 21, 56, 22, 3],
      tx = [], tx_open = True\<rparr>" "[22, 3]"] w
  show ?thesis by simp
qed

text \<open>The request reader accepts exactly the byte strings the writer produces: it returns
  a target only from a stream that starts with that target's header, and then it leaves the
  rest. No two byte strings mean the same request, and no accepted header is the start of
  another.\<close>

theorem request_header_exact:
  "(read_request s = (Inr t, s') \<longleftrightarrow>
      wire_target t \<and> (\<exists>rest. rx s = enc_request t @ rest \<and> s' = s\<lparr>rx := rest\<rparr>))
   \<and> (wire_target t \<and> wire_target t' \<and> prefix (enc_request t) (enc_request t') \<longrightarrow> t = t')"
  using read_request_Inr_iff request.enc_prefix_free by blast

theorem request_header_exact_witness:
  "wire_target (TDomain ''a'' 80)
   \<and> \<not> prefix (enc_request (TDomain ''a'' 80)) (enc_request (TDomain ''ab'' 80))"
  using request_header_exact [of undefined "TDomain ''a'' 80" undefined "TDomain ''ab'' 80"]
  by (auto simp: wire_target_def valid_str_def as_bytes_def byte_of_char_def)

text \<open>A name of more than 255 bytes is refused before anything is written; every other
  target is written whenever the peer takes bytes.\<close>

theorem write_request_refuses_long_names:
  "write_request (TDomain h p) s =
     (if 255 < length h then (Inl (io_other ''domain name longer than 255 bytes'' []), s)
      else if tx_open s then (Inr (), s\<lparr>tx := tx s @ enc_request (TDomain h p)\<rparr>)
      else (Inl closed_error, s))"
  by (simp add: write_request_def write_all_def enc_request_def wire_defs)

text \<open>A frame reader with limit \<open>m\<close> returns a message exactly when the stream starts
  with that message's frame and the message has at most \<open>m\<close> bytes; a frame that announces
  more is refused after its four length bytes, with none of the body read.\<close>

theorem read_message_bounded:
  "(read_message m s = (Inr data, s') \<longleftrightarrow>
      length data \<le> m \<and> length data < 2 ^ 32 \<and>
      (\<exists>rest. rx s = enc_message data @ rest \<and> s' = s\<lparr>rx := rest\<rparr>))
   \<and> (rx s = u32_to_be_bytes n @ body \<and> m < unat n \<longrightarrow>
      read_message m s = (Inl (io_other ''Message too large: {len} > {max_size}''
        [FNat (unat n), FNat m]), s\<lparr>rx := body\<rparr>))"
  unfolding read_message_Inr_iff frame_ok_def
  by (auto simp: read_message_def io_simps Let_def)

theorem read_message_bounded_witness:
  "read_message MAX_CONTROL_MSG_SIZE \<lparr>rx = [0, 0, 64, 1, 123], tx = [], tx_open = True\<rparr> =
     (Inl (io_other ''Message too large: {len} > {max_size}'' [FNat 16385, FNat 16384]),
      \<lparr>rx = [123], tx = [], tx_open = True\<rparr>)"
proof -
  have "u32_to_be_bytes 16385 @ [123] = [0, 0, 64, 1, 123]" by code_simp
  with read_message_bounded [of MAX_CONTROL_MSG_SIZE "\<lparr>rx = [0, 0, 64, 1, 123], tx = [], tx_open = True\<rparr>"
      undefined undefined 16385 "[123]"]
  show ?thesis by (simp add: MAX_CONTROL_MSG_SIZE_def)
qed

end
