(* ===== verification/Transport.thy ===== *)
theory Transport
  imports Signaling
begin

text \<open>
  The transport layer's own logic, \<^verbatim>\<open>src/crates/flextunnel-core/src/transport/\<close>, and the
  error type of the proxy, \<^verbatim>\<open>error.rs\<close>: the heartbeat and liveness constants, the
  allowlist check that runs when a handshake completes, the client's rebuildable endpoint
  handle as interleaved calls of \<^verbatim>\<open>rebuild\<close>, and the reports on connection paths and
  relay health. The QUIC endpoint itself is the library \<^verbatim>\<open>iroh\<close>: endpoints, relay URLs and
  the paths of a connection are data the library hands over.

  An endpoint id is represented by its canonical text, what \<^verbatim>\<open>EndpointId\<close>'s
  \<^verbatim>\<open>Display\<close> prints; parsing other texts of an id is a parameter where it is used.
\<close>

section \<open>Errors\<close>

datatype proxy_error = Network io_error | ConfigError msg | SignalingError msg
  | AuthenticationFailed msg | ConnectionLost msg | DuplicateServerId msg

type_synonym 'a proxy_result = "proxy_error + 'a"

definition is_recoverable :: "proxy_error \<Rightarrow> bool" where
  "is_recoverable e = (case e of
     ConnectionLost _ \<Rightarrow> True | Network _ \<Rightarrow> True | SignalingError _ \<Rightarrow> True | _ \<Rightarrow> False)"

definition config_with_source :: "msg \<Rightarrow> proxy_error" where
  "config_with_source message = ConfigError message"

text \<open>The \<^verbatim>\<open>?\<close> operator on an I/O result in a function that returns a proxy result.\<close>

abbreviation net_result :: "io_error + 'a \<Rightarrow> 'a proxy_result" where
  "net_result \<equiv> map_err Network"

section \<open>Durations and constants\<close>

text \<open>A \<^verbatim>\<open>Duration\<close>, and an \<^verbatim>\<open>Instant\<close> relative to the start of the process, is its
  number of nanoseconds.\<close>

type_synonym duration = nat
type_synonym instant = nat
type_synonym endpoint_id = string

definition from_secs :: "nat \<Rightarrow> duration" where "from_secs n = n * 1000000000"

definition from_millis :: "nat \<Rightarrow> duration" where "from_millis n = n * 1000000"

definition as_secs :: "duration \<Rightarrow> nat" where "as_secs d = d div 1000000000"

definition QUIC_IDLE_TIMEOUT :: duration where "QUIC_IDLE_TIMEOUT = from_secs 180"

definition QUIC_INITIAL_MTU :: u16 where "QUIC_INITIAL_MTU = 1452"

definition HEARTBEAT_INTERVAL :: duration where "HEARTBEAT_INTERVAL = from_secs 10"

definition HEARTBEAT_INTERVAL_IDLE :: duration where "HEARTBEAT_INTERVAL_IDLE = from_secs 60"

definition LIVENESS_GRACE :: duration where "LIVENESS_GRACE = from_secs 3"

definition liveness_window :: "duration \<Rightarrow> duration" where
  "liveness_window interval = from_secs (as_secs interval * 3 + as_secs LIVENESS_GRACE)"

definition LIVENESS_WINDOW :: duration where
  "LIVENESS_WINDOW = liveness_window HEARTBEAT_INTERVAL_IDLE"

definition ALPN :: bytes where "ALPN = as_bytes ''flextunnel/1''"

definition BRIDGE_ALPN :: bytes where "BRIDGE_ALPN = as_bytes ''flextunnel-bridge/1''"

definition QUICK_ALPN :: bytes where "QUICK_ALPN = as_bytes ''flextunnel-quick/1''"

lemmas time_defs = from_secs_def from_millis_def as_secs_def HEARTBEAT_INTERVAL_def
  HEARTBEAT_INTERVAL_IDLE_def LIVENESS_GRACE_def liveness_window_def LIVENESS_WINDOW_def
  QUIC_IDLE_TIMEOUT_def

lemma alpns_distinct [simp]:
  "ALPN \<noteq> BRIDGE_ALPN" "ALPN \<noteq> QUICK_ALPN" "BRIDGE_ALPN \<noteq> QUICK_ALPN"
  "BRIDGE_ALPN \<noteq> ALPN" "QUICK_ALPN \<noteq> ALPN" "QUICK_ALPN \<noteq> BRIDGE_ALPN"
  by (simp_all add: ALPN_def BRIDGE_ALPN_def QUICK_ALPN_def)

section \<open>The allowlist hook\<close>

definition CLOSE_NOT_ALLOWLISTED :: nat where "CLOSE_NOT_ALLOWLISTED = 3"

record endpoint_allowlists =
  bridge_servers :: "endpoint_id list"
  quick_clients :: "endpoint_id list"

datatype side = ClientSide | ServerSide

datatype handshake_outcome = HAccept | HReject nat bytes

definition after_handshake ::
  "endpoint_allowlists \<Rightarrow> side \<Rightarrow> bytes \<Rightarrow> endpoint_id \<Rightarrow> handshake_outcome" where
  "after_handshake allowlists side alpn remote_id =
     (if side \<noteq> ServerSide then HAccept
      else
        (let gate = (\<lambda>allowed disabled_reason rejected_reason.
              if remote_id \<in> set allowed then HAccept
              else let reason = (if allowed = [] then disabled_reason else rejected_reason)
                in HReject CLOSE_NOT_ALLOWLISTED (as_bytes reason)) in
         if alpn = BRIDGE_ALPN then
           gate (bridge_servers allowlists)
             ''bridging is not enabled on this server''
             ''server id is not on this server's bridge allowlist''
         else if alpn = QUICK_ALPN then
           gate (quick_clients allowlists)
             ''quick mode is not enabled on this server''
             ''client id is not on this server's quick-client allowlist''
         else HAccept))"

lemma after_handshake_accept_iff:
  "after_handshake al ServerSide alpn remote_id = HAccept \<longleftrightarrow>
     (alpn = BRIDGE_ALPN \<longrightarrow> remote_id \<in> set (bridge_servers al)) \<and>
     (alpn = QUICK_ALPN \<longrightarrow> remote_id \<in> set (quick_clients al))"
  by (auto simp: after_handshake_def Let_def)

section \<open>Endpoint settings\<close>

text \<open>The settings the code hands to the endpoint builder of the shared crate. The builder is a
  parameter: its constructor and the four setters the code calls.\<close>

record quic_transport_config =
  max_idle_timeout :: "duration option"
  initial_mtu :: u16

record endpoint_options =
  transport_config :: quic_transport_config
  publish_address :: bool
  relay_only :: bool

record ('b, 'r, 'k) builder_ops =
  bo_endpoint_builder :: "'r \<Rightarrow> endpoint_options \<Rightarrow> 'b"
  bo_alpns :: "bytes list \<Rightarrow> 'b \<Rightarrow> 'b"
  bo_hooks :: "endpoint_allowlists \<Rightarrow> 'b \<Rightarrow> 'b"
  bo_secret_key :: "'k \<Rightarrow> 'b \<Rightarrow> 'b"

text \<open>\<^verbatim>\<open>IdleTimeout\<close> is a QUIC variable-length integer of milliseconds, at most
  \<open>2 ^ 62 - 1\<close>.\<close>

definition build_quic_transport_config :: "msg + quic_transport_config" where
  "build_quic_transport_config =
     (if QUIC_IDLE_TIMEOUT div 1000000 < 2 ^ 62
      then Inr \<lparr>max_idle_timeout = Some QUIC_IDLE_TIMEOUT, initial_mtu = QUIC_INITIAL_MTU\<rparr>
      else Inl (''converting QUIC_IDLE_TIMEOUT to IdleTimeout'', []))"

definition base_builder :: "('b, 'r, 'k) builder_ops \<Rightarrow> 'r \<Rightarrow> bool \<Rightarrow> msg + 'b" where
  "base_builder bo relay_config publish =
     result_bind build_quic_transport_config (\<lambda>cfg.
       Inr (bo_endpoint_builder bo relay_config
         \<lparr>transport_config = cfg, publish_address = publish, relay_only = False\<rparr>))"

definition server_builder ::
  "('b, 'r, 'k) builder_ops \<Rightarrow> 'r \<Rightarrow> 'k \<Rightarrow> endpoint_allowlists \<Rightarrow> msg + 'b" where
  "server_builder bo relay_config secret allowlists =
     result_bind (base_builder bo relay_config True) (\<lambda>b.
       Inr (bo_secret_key bo secret (bo_hooks bo allowlists
         (bo_alpns bo [ALPN, BRIDGE_ALPN, QUICK_ALPN] b))))"

definition client_builder :: "('b, 'r, 'k) builder_ops \<Rightarrow> 'r \<Rightarrow> 'k option \<Rightarrow> msg + 'b" where
  "client_builder bo relay_config secret =
     result_bind (base_builder bo relay_config False) (\<lambda>b.
       Inr (case secret of Some k \<Rightarrow> bo_secret_key bo k b | None \<Rightarrow> b))"

section \<open>The rebuildable endpoint\<close>

text \<open>
  Several tasks share the handle and may call \<^verbatim>\<open>rebuild\<close> at once. A call reads the
  generation, waits for the lock, and then either finds that the generation has moved on
  and returns, or builds a fresh endpoint while it holds the lock, and installs it. The
  build may fail, and a call may be dropped at any point where it waits, which releases
  the lock. \<open>re_history\<close> records the installations, oldest first: who installed, the
  generation the call had read, and the endpoint it took out and closed.
\<close>

datatype rebuild_pc = RIdle | RWaiting u64 | RBuilding u64 | RDone u64 | RFailed

record 'e client_endpoint =
  re_generation :: u64
  re_endpoint :: 'e
  re_lock :: "nat option"
  re_pc :: "nat \<Rightarrow> rebuild_pc"
  re_history :: "(nat \<times> u64 \<times> 'e) list"

definition from_parts :: "'e \<Rightarrow> 'e client_endpoint" where
  "from_parts e = \<lparr>re_generation = 0, re_endpoint = e, re_lock = None, re_pc = (\<lambda>_. RIdle),
     re_history = []\<rparr>"

inductive rebuild_step :: "'e client_endpoint \<Rightarrow> 'e client_endpoint \<Rightarrow> bool" where
  call: "re_pc s i \<in> {RIdle, RFailed} \<or> (\<exists>g. re_pc s i = RDone g) \<Longrightarrow>
    rebuild_step s (s\<lparr>re_pc := (re_pc s)(i := RWaiting (re_generation s))\<rparr>)"
| already_rebuilt: "re_pc s i = RWaiting seen \<Longrightarrow> re_lock s = None \<Longrightarrow> re_generation s \<noteq> seen \<Longrightarrow>
    rebuild_step s (s\<lparr>re_pc := (re_pc s)(i := RDone seen)\<rparr>)"
| lock: "re_pc s i = RWaiting seen \<Longrightarrow> re_lock s = None \<Longrightarrow> re_generation s = seen \<Longrightarrow>
    rebuild_step s (s\<lparr>re_pc := (re_pc s)(i := RBuilding seen), re_lock := Some i\<rparr>)"
| install: "re_pc s i = RBuilding seen \<Longrightarrow>
    rebuild_step s (s\<lparr>re_pc := (re_pc s)(i := RDone seen), re_lock := None,
      re_generation := re_generation s + 1, re_endpoint := fresh,
      re_history := re_history s @ [(i, seen, re_endpoint s)]\<rparr>)"
| build_fails: "re_pc s i = RBuilding seen \<Longrightarrow>
    rebuild_step s (s\<lparr>re_pc := (re_pc s)(i := RFailed), re_lock := None\<rparr>)"
| dropped: "re_pc s i = RWaiting seen \<Longrightarrow> rebuild_step s (s\<lparr>re_pc := (re_pc s)(i := RFailed)\<rparr>)"

inductive_cases rebuild_stepE: "rebuild_step s s'"

text \<open>What holds of a call after \<open>n\<close> installations: exactly the call that holds the lock
  builds, and it replaces the current generation; a call that has returned successfully read
  a generation that has since been replaced.\<close>

fun rebuild_pc_ok :: "nat \<Rightarrow> nat option \<Rightarrow> nat \<Rightarrow> rebuild_pc \<Rightarrow> bool" where
  "rebuild_pc_ok n lk i RIdle \<longleftrightarrow> lk \<noteq> Some i"
| "rebuild_pc_ok n lk i RFailed \<longleftrightarrow> lk \<noteq> Some i"
| "rebuild_pc_ok n lk i (RWaiting seen) \<longleftrightarrow> lk \<noteq> Some i \<and> (\<exists>k \<le> n. seen = of_nat k)"
| "rebuild_pc_ok n lk i (RBuilding seen) \<longleftrightarrow> lk = Some i \<and> seen = of_nat n"
| "rebuild_pc_ok n lk i (RDone seen) \<longleftrightarrow> lk \<noteq> Some i \<and> (\<exists>k < n. seen = of_nat k)"

definition rebuild_inv :: "'e client_endpoint \<Rightarrow> bool" where
  "rebuild_inv s \<longleftrightarrow>
     re_generation s = of_nat (length (re_history s)) \<and>
     map (\<lambda>(i, seen, old). seen) (re_history s) = map of_nat [0..<length (re_history s)] \<and>
     (\<forall>i. rebuild_pc_ok (length (re_history s)) (re_lock s) i (re_pc s i))"

lemma rebuild_pc_ok_release:
  "rebuild_pc_ok n (Some i) j pc \<Longrightarrow> j \<noteq> i \<Longrightarrow> rebuild_pc_ok n None j pc"
  by (cases pc) auto

lemma rebuild_pc_ok_take:
  "rebuild_pc_ok n None j pc \<Longrightarrow> j \<noteq> i \<Longrightarrow> rebuild_pc_ok n (Some i) j pc"
  by (cases pc) auto

lemma rebuild_pc_ok_Suc: "rebuild_pc_ok n None j pc \<Longrightarrow> rebuild_pc_ok (Suc n) None j pc"
  by (cases pc) (auto intro: le_SucI less_SucI)

lemma rebuild_inv_step: "rebuild_inv s \<Longrightarrow> rebuild_step s s' \<Longrightarrow> rebuild_inv s'"
proof (erule rebuild_stepE, goal_cases)
  case (1 i)
  then have "rebuild_pc_ok (length (re_history s)) (re_lock s) i (re_pc s i)"
    by (simp add: rebuild_inv_def)
  with 1 have "re_lock s \<noteq> Some i" by auto
  with 1 show ?case by (auto simp: rebuild_inv_def)
next
  case (2 i seen)
  then have "rebuild_pc_ok (length (re_history s)) None i (RWaiting seen)"
    by (metis rebuild_inv_def)
  then obtain k where k: "k \<le> length (re_history s)" "seen = of_nat k" by auto
  with 2 have "k < length (re_history s)" by (auto simp: rebuild_inv_def le_less)
  with 2 k show ?case by (auto simp: rebuild_inv_def)
next
  case (3 i)
  then show ?case by (auto simp: rebuild_inv_def rebuild_pc_ok_take)
next
  case (4 i seen fresh)
  then have "rebuild_pc_ok (length (re_history s)) (re_lock s) i (RBuilding seen)"
    by (metis rebuild_inv_def)
  with 4 show ?case
    by (auto simp: rebuild_inv_def intro!: rebuild_pc_ok_Suc intro: rebuild_pc_ok_release)
next
  case (5 i seen)
  then have "rebuild_pc_ok (length (re_history s)) (re_lock s) i (RBuilding seen)"
    by (metis rebuild_inv_def)
  with 5 show ?case by (auto simp: rebuild_inv_def intro: rebuild_pc_ok_release)
next
  case (6 i seen)
  then have "rebuild_pc_ok (length (re_history s)) (re_lock s) i (RWaiting seen)"
    by (metis rebuild_inv_def)
  with 6 show ?case by (auto simp: rebuild_inv_def)
qed

interpretation rebuilds: invariant_system "\<lambda>s. s = from_parts e" rebuild_step rebuild_inv for e
  by (unfold_locales, simp add: from_parts_def rebuild_inv_def, rule rebuild_inv_step)

section \<open>Connection paths\<close>

text \<open>A path as the library reports it. The text of an address that is neither an IP address
  nor a relay is its \<^verbatim>\<open>Debug\<close> output; \<open>rtt\<close> is the formatted round-trip time.\<close>

datatype transport_addr = TaIp string | TaRelay string | TaOther string

record path_info =
  path_rtt :: string
  path_selected :: bool
  remote_addr :: transport_addr

datatype conn_path_kind = PkDirect | PkRelay | PkOther

record conn_path =
  cp_kind :: conn_path_kind
  cp_display :: msg
  cp_selected :: bool

definition path_display :: "path_info \<Rightarrow> msg" where
  "path_display p = (case remote_addr p of
     TaIp addr \<Rightarrow> (''Direct {addr} (rtt {rtt:.0?})'', [FStr addr, FStr (path_rtt p)])
   | TaRelay url \<Rightarrow> (''Relay {url} (rtt {rtt:.0?})'', [FStr url, FStr (path_rtt p)])
   | TaOther other \<Rightarrow> (''{other:?} (rtt {rtt:.0?})'', [FStr other, FStr (path_rtt p)]))"

definition connection_paths_from :: "path_info list \<Rightarrow> conn_path list" where
  "connection_paths_from paths = map (\<lambda>p.
     \<lparr>cp_kind = (case remote_addr p of TaIp _ \<Rightarrow> PkDirect | TaRelay _ \<Rightarrow> PkRelay | TaOther _ \<Rightarrow> PkOther),
      cp_display = path_display p, cp_selected = path_selected p\<rparr>) paths"

text \<open>The relay health check. \<open>url_join\<close> and \<open>http_get\<close> (its status code) are the
  libraries' operations, \<open>http_client\<close> the result of building the HTTP client.\<close>

record custom_relay_status =
  relay_url :: string
  relay_working :: "bool option"
  relay_error :: "msg option"

definition probe_relay_healthz ::
  "(string \<Rightarrow> string \<Rightarrow> msg + 'u) \<Rightarrow> ('u \<Rightarrow> msg + nat) \<Rightarrow> string \<Rightarrow> custom_relay_status" where
  "probe_relay_healthz url_join http_get url =
     (case url_join url ''/healthz'' of
        Inl e \<Rightarrow> \<lparr>relay_url = url, relay_working = Some False,
                  relay_error = Some (''invalid relay URL: {e}'', snd e)\<rparr>
      | Inr healthz \<Rightarrow>
          (case http_get healthz of
             Inr status \<Rightarrow>
               if 200 \<le> status \<and> status < 300
               then \<lparr>relay_url = url, relay_working = Some True, relay_error = None\<rparr>
               else \<lparr>relay_url = url, relay_working = Some False,
                      relay_error = Some (''/healthz returned HTTP {}'', [FNat status])\<rparr>
           | Inl e \<Rightarrow> \<lparr>relay_url = url, relay_working = Some False, relay_error = Some e\<rparr>))"

definition probe_custom_relay_health ::
  "(msg + unit) \<Rightarrow> (string \<Rightarrow> string \<Rightarrow> msg + 'u) \<Rightarrow> ('u \<Rightarrow> msg + nat) \<Rightarrow> string list \<Rightarrow>
   custom_relay_status list" where
  "probe_custom_relay_health http_client url_join http_get urls =
     (if urls = [] then []
      else case http_client of
        Inl e \<Rightarrow> map (\<lambda>url. \<lparr>relay_url = url, relay_working = None,
            relay_error = Some (''failed to build health-check client: {e}'', snd e)\<rparr>) urls
      | Inr _ \<Rightarrow> map (probe_relay_healthz url_join http_get) urls)"

record connection_snapshot =
  snap_paths :: "conn_path list"
  snap_relays :: "custom_relay_status list"
  udp_tx_datagrams :: u64
  udp_rx_datagrams :: u64

text \<open>The watcher that logs the selected path: the text it logs, the key it compares, and the
  snapshots it logs out of those the connection reports.\<close>

definition format_paths :: "path_info list \<Rightarrow> msg list" where
  "format_paths paths =
     (if paths = [] then [(''establishing...'', [])]
      else let parts = map path_display (filter path_selected paths) in
        if parts = [] then [(''no selected path'', [])] else parts)"

definition paths_key :: "path_info list \<Rightarrow> bool \<times> transport_addr list" where
  "paths_key paths = (paths = [], map remote_addr (filter path_selected paths))"

fun watch_paths :: "(bool \<times> transport_addr list) option \<Rightarrow> path_info list list \<Rightarrow> path_info list list" where
  "watch_paths last_key [] = []"
| "watch_paths last_key (paths # stream) =
     (let key = paths_key paths in
      if last_key \<noteq> Some key then paths # watch_paths (Some key) stream
      else watch_paths last_key stream)"

lemma remdups_adj_head: "remdups_adj (x # xs) = x # tl (remdups_adj (x # xs))"
proof (induction xs)
  case (Cons y ys)
  then show ?case by simp
qed simp

lemma watch_paths_keys_aux:
  "map paths_key (watch_paths (Some k) stream) = tl (remdups_adj (k # map paths_key stream))"
proof (induction stream arbitrary: k)
  case (Cons p stream)
  with remdups_adj_head [of "paths_key p" "map paths_key stream"] show ?case by (simp add: Let_def)
qed simp

text \<open>The watcher logs once per change of the selected path, never for a change of the
  round-trip time alone.\<close>

lemma watch_paths_keys: "map paths_key (watch_paths None stream) = remdups_adj (map paths_key stream)"
proof (cases stream)
  case (Cons p stream')
  with remdups_adj_head [of "paths_key p" "map paths_key stream'"] show ?thesis
    by (simp add: Let_def watch_paths_keys_aux)
qed simp

section \<open>Properties\<close>

text \<open>However calls of \<^verbatim>\<open>rebuild\<close> interleave, fail or are dropped, the k-th
  installation is by a call that had read generation k: two callers that noticed the
  same dead endpoint never both replace it. A call that returned successfully did so only
  after the endpoint it had seen was replaced, and at most one call is building at any
  moment.\<close>

theorem rebuild_coalesces:
  assumes "rebuild_step\<^sup>*\<^sup>* (from_parts e) s"
  shows "map (\<lambda>(i, seen, old). seen) (re_history s) = map of_nat [0..<length (re_history s)] \<and>
    re_generation s = of_nat (length (re_history s)) \<and>
    \<not> (\<exists>i seen. re_pc s i = RDone seen \<and> \<not> (\<exists>k < length (re_history s). seen = of_nat k)) \<and>
    \<not> (\<exists>i j seen seen'. re_pc s i = RBuilding seen \<and> re_pc s j = RBuilding seen' \<and> i \<noteq> j)"
proof -
  have inv: "rebuild_inv s" by (rule rebuilds.reachable_inv [OF refl assms])
  then have ok: "rebuild_pc_ok (length (re_history s)) (re_lock s) i (re_pc s i)" for i
    by (simp add: rebuild_inv_def)
  have "\<exists>k < length (re_history s). seen = of_nat k" if "re_pc s i = RDone seen" for i seen
    using ok [of i] that by simp
  moreover have "re_lock s = Some i" if "re_pc s i = RBuilding seen" for i seen
    using ok [of i] that by simp
  ultimately show ?thesis using inv unfolding rebuild_inv_def by (metis option.inject)
qed

text \<open>Two callers notice the same dead endpoint; the first installs a fresh one and the second
  returns without building.\<close>

theorem rebuild_coalesces_witness:
  "\<exists>s. rebuild_step\<^sup>*\<^sup>* (from_parts (10 :: nat)) s \<and> re_pc s 0 = RDone 0 \<and> re_pc s 1 = RDone 0 \<and>
     re_history s = [(0, 0, 10)] \<and> re_endpoint s = 11 \<and> re_generation s = of_nat (length (re_history s))"
proof -
  let ?s0 = "from_parts (10 :: nat)"
  let ?s1 = "?s0\<lparr>re_pc := (\<lambda>_. RIdle)(0 := RWaiting 0)\<rparr>"
  let ?s2 = "?s0\<lparr>re_pc := (\<lambda>_. RIdle)(0 := RWaiting 0, 1 := RWaiting 0)\<rparr>"
  let ?s3 = "?s0\<lparr>re_pc := (\<lambda>_. RIdle)(1 := RWaiting 0, 0 := RBuilding 0), re_lock := Some 0\<rparr>"
  let ?s4 = "?s0\<lparr>re_pc := (\<lambda>_. RIdle)(1 := RWaiting 0, 0 := RDone 0), re_generation := 1,
    re_endpoint := 11, re_history := [(0, 0, 10)]\<rparr>"
  let ?s5 = "?s4\<lparr>re_pc := (\<lambda>_. RIdle)(0 := RDone 0, 1 := RDone 0)\<rparr>"
  note d = from_parts_def
  have "rebuild_step ?s0 ?s1" using rebuild_step.call [of ?s0 0] by (simp add: d)
  moreover have "rebuild_step ?s1 ?s2" using rebuild_step.call [of ?s1 1] by (simp add: d)
  moreover have "rebuild_step ?s2 ?s3"
    using rebuild_step.lock [of ?s2 0 0] by (simp add: d fun_upd_twist)
  moreover have "rebuild_step ?s3 ?s4" using rebuild_step.install [of ?s3 0 0 11] by (simp add: d)
  moreover have "rebuild_step ?s4 ?s5"
    using rebuild_step.already_rebuilt [of ?s4 1 0] by (simp add: d fun_upd_twist)
  ultimately have "rebuild_step\<^sup>*\<^sup>* ?s0 ?s5"
    by (meson converse_rtranclp_into_rtranclp rtranclp.rtrancl_refl)
  from this rebuild_coalesces [OF this] show ?thesis by (intro exI [of _ ?s5]) (simp add: d)
qed

end
