(* ===== verification/Reconnect.thy ===== *)
theory Reconnect
  imports Transport
begin

text \<open>
  The reconnect policy of \<^verbatim>\<open>src/crates/flextunnel-core/src/proxy/client.rs\<close>: the backoff
  series, the decision to retry or to give up, the wait that a network or foreground event
  cuts short, the decision to rebuild the endpoint, and the tracker of server nonces. The
  backoff series of the client and bridges, and the one of the port forwards, share the
  interface locale of a bounded monotone series. Random jitter is a parameter.
\<close>

section \<open>Backoff series\<close>

text \<open>A series of delays: the delay before a retry is a base that grows with the number of
  failures, between a first and a largest delay, plus a bounded jitter.\<close>

locale backoff_series =
  fixes base :: "u32 \<Rightarrow> duration" and lo hi :: duration
  assumes base_lo: "lo \<le> base a" and base_hi: "base a \<le> hi"
    and base_mono: "a \<le> b \<Longrightarrow> base a \<le> base b"
begin

text \<open>The time spent on a series of retries grows at most linearly in their number: an outage
  of any length is probed at least once per largest delay.\<close>

lemma total_bounds:
  "length as * lo \<le> sum_list (map base as)" "sum_list (map base as) \<le> length as * hi"
  by (induction as) (auto intro: add_mono base_lo base_hi)

lemma total_mono:
  "list_all2 (\<le>) as bs \<Longrightarrow> sum_list (map base as) \<le> sum_list (map base bs)"
  by (induction rule: list_all2_induct) (auto intro: add_mono base_mono)

text \<open>Once a delay is the largest, all later ones are.\<close>

lemma stays_at_top: "base a = hi \<Longrightarrow> a \<le> b \<Longrightarrow> base b = hi"
  using base_mono [of a b] base_hi [of b] by simp

end

section \<open>Constants\<close>

definition RECONNECT_BACKOFF_MAX :: duration where "RECONNECT_BACKOFF_MAX = from_secs 60"

definition REBUILD_ENDPOINT_ATTEMPTS :: u32 where "REBUILD_ENDPOINT_ATTEMPTS = 3"

definition REBUILD_ENDPOINT_MIN_INTERVAL :: duration where
  "REBUILD_ENDPOINT_MIN_INTERVAL = from_secs (30 * 60)"

definition RECONNECT_JITTER_MAX_MS :: nat where "RECONNECT_JITTER_MAX_MS = 500"

definition CLIENT_CONNECT_TIMEOUT :: duration where "CLIENT_CONNECT_TIMEOUT = from_secs 30"

section \<open>Connecting\<close>

text \<open>\<^verbatim>\<open>connect_with_timeout\<close>: \<open>None\<close> is the passed deadline.\<close>

definition connect_with_timeout :: "(msg + 'c) option \<Rightarrow> 'c proxy_result" where
  "connect_with_timeout outcome = (case outcome of
     None \<Rightarrow> Inl (SignalingError (''timed out connecting to server after {}s'',
               [FNat (as_secs CLIENT_CONNECT_TIMEOUT)]))
   | Some r \<Rightarrow> map_err (\<lambda>e. SignalingError (''Failed to connect to server: {e}'', snd e)) r)"

section \<open>The series\<close>

definition backoff_base :: "u32 \<Rightarrow> duration" where
  "backoff_base attempt =
     (let shift = min (unat attempt - 1) 16;
          secs = min (2 ^ shift) (as_secs RECONNECT_BACKOFF_MAX) in
      from_secs secs)"

definition calculate_backoff :: "u32 \<Rightarrow> nat \<Rightarrow> duration" where
  "calculate_backoff attempt jitter = backoff_base attempt + from_millis jitter"

lemma backoff_base_bounds: "from_secs 1 \<le> backoff_base a" "backoff_base a \<le> from_secs 60"
  by (simp_all add: backoff_base_def Let_def RECONNECT_BACKOFF_MAX_def from_secs_def as_secs_def)

lemma backoff_base_mono: "a \<le> b \<Longrightarrow> backoff_base a \<le> backoff_base b"
proof -
  assume "a \<le> b"
  then have "min (unat a - 1) 16 \<le> min (unat b - 1) 16" by (simp add: word_le_nat_alt)
  then have "(2 :: nat) ^ min (unat a - 1) 16 \<le> 2 ^ min (unat b - 1) 16" by (rule power_increasing) simp
  then show ?thesis unfolding backoff_base_def Let_def from_secs_def
    by (intro mult_le_mono1 min.mono) simp_all
qed

interpretation reconnect: backoff_series backoff_base "from_secs 1" "from_secs 60"
  by unfold_locales (rule backoff_base_bounds backoff_base_mono, assumption?)+

section \<open>Rebuilding\<close>

definition rebuild_due :: "instant \<Rightarrow> u32 \<Rightarrow> instant option \<Rightarrow> bool" where
  "rebuild_due now attempt last_rebuild \<longleftrightarrow>
     REBUILD_ENDPOINT_ATTEMPTS \<le> attempt \<and>
     (case last_rebuild of None \<Rightarrow> True | Some at \<Rightarrow> REBUILD_ENDPOINT_MIN_INTERVAL \<le> now - at)"

section \<open>Retry or give up\<close>

text \<open>A client key is what the client does with it: its public form, and signing an endpoint
  id under a context.\<close>

datatype client_auth = AuthKey (public_str: string) (sign_with: "bytes \<Rightarrow> endpoint_id \<Rightarrow> string")
  | QuickAllowlisted

record client_config =
  cc_server_node_id :: string
  cc_auth :: client_auth
  cc_socks_listen :: "socket_addr option"
  cc_http_listen :: "socket_addr option"
  cc_relay_urls :: "string list"
  cc_relay_auth_token :: "string option"
  auto_reconnect :: bool
  max_reconnect_attempts :: "u32 option"

record reconnect_status =
  failed_attempts :: u32
  last_error :: "proxy_error option"
  next_attempt_at :: "instant option"

definition reconnect_status_default :: reconnect_status where
  "reconnect_status_default = \<lparr>failed_attempts = 0, last_error = None, next_attempt_at = None\<rparr>"

text \<open>The result, the attempt counter and the published status.\<close>

definition handle_failure ::
  "client_config \<Rightarrow> instant \<Rightarrow> nat \<Rightarrow> proxy_error \<Rightarrow> u32 \<Rightarrow> reconnect_status \<Rightarrow>
   (proxy_error + duration) \<times> u32 \<times> reconnect_status" where
  "handle_failure cfg now jitter e attempt status =
     (if \<not> auto_reconnect cfg \<or> \<not> is_recoverable e then (Inl e, attempt, status)
      else
        (let attempt = attempt + 1 in
         if (case max_reconnect_attempts cfg of Some m \<Rightarrow> m < attempt | None \<Rightarrow> False)
         then (Inl e, attempt, status)
         else
           (let backoff = calculate_backoff attempt jitter in
            (Inr backoff, attempt,
             \<lparr>failed_attempts = attempt, last_error = Some e, next_attempt_at = Some (now + backoff)\<rparr>))))"

definition reset_backoff :: "instant \<Rightarrow> reconnect_status \<Rightarrow> u32 \<times> reconnect_status" where
  "reset_backoff now status = (0, status\<lparr>next_attempt_at := Some now\<rparr>)"

text \<open>How a wait ends: the delay passes, or the network path is lost and comes back, or the
  application comes to the foreground. \<open>now\<close> is the time at which it ends. An application
  that is not in the background cannot come to the foreground: the wait then ends with the
  delay.\<close>

datatype backoff_wake = Elapsed | PathLost | Foregrounded

definition wait_backoff ::
  "bool \<Rightarrow> bool \<Rightarrow> backoff_wake \<Rightarrow> instant \<Rightarrow> u32 \<Rightarrow> reconnect_status \<Rightarrow> bool \<times> u32 \<times> reconnect_status" where
  "wait_backoff available background wake now attempt status =
     (if \<not> available then (True, reset_backoff now status)
      else case wake of
        PathLost \<Rightarrow> (True, reset_backoff now status)
      | Foregrounded \<Rightarrow> if background then (True, reset_backoff now status) else (False, attempt, status)
      | Elapsed \<Rightarrow> (False, attempt, status))"

section \<open>Server nonces\<close>

record server_nonce_tracker =
  nonce_history :: "u128 list"
  nonce_last :: "u128 option"

definition nonce_tracker_default :: server_nonce_tracker where
  "nonce_tracker_default = \<lparr>nonce_history = [], nonce_last = None\<rparr>"

text \<open>The result, the tracker and the latch \<^verbatim>\<open>duplicate_server\<close>.\<close>

definition observe_server_nonce ::
  "u128 \<Rightarrow> server_nonce_tracker \<Rightarrow> bool \<Rightarrow> bool \<times> server_nonce_tracker \<times> bool" where
  "observe_server_nonce nonce t flagged =
     (case nonce_last t of
        Some l \<Rightarrow>
          if l = nonce then (False, t, flagged)
          else if nonce \<in> set (nonce_history t)
          then (\<not> flagged, t\<lparr>nonce_last := Some nonce\<rparr>, True)
          else (False, t\<lparr>nonce_history := nonce_history t @ [nonce], nonce_last := Some nonce\<rparr>, flagged)
      | None \<Rightarrow> (False, t\<lparr>nonce_history := nonce_history t @ [nonce], nonce_last := Some nonce\<rparr>, flagged))"

text \<open>The tracker and the latch after a sequence of observations.\<close>

definition observe_step :: "u128 \<Rightarrow> server_nonce_tracker \<times> bool \<Rightarrow> server_nonce_tracker \<times> bool" where
  "observe_step n = (\<lambda>(t, f). snd (observe_server_nonce n t f))"

definition observe_all :: "u128 list \<Rightarrow> server_nonce_tracker \<times> bool" where
  "observe_all ns = fold observe_step ns (nonce_tracker_default, False)"

text \<open>What the detection is meant to be: a nonce that was seen before comes back after a
  different one.\<close>

definition reappears :: "u128 list \<Rightarrow> bool" where
  "reappears ns \<longleftrightarrow> (\<exists>i j k. i < j \<and> j < k \<and> k < length ns \<and> ns ! i = ns ! k \<and> ns ! j \<noteq> ns ! k)"

lemma observe_all_snoc: "observe_all (ns @ [n]) = observe_step n (observe_all ns)"
  by (simp add: observe_all_def)

lemma reappears_snoc:
  "reappears (ns @ [n]) \<longleftrightarrow> reappears ns \<or> (ns \<noteq> [] \<and> n \<in> set ns \<and> last ns \<noteq> n)"
proof
  assume "reappears (ns @ [n])"
  then obtain i j k where ijk: "i < j" "j < k" "k < length (ns @ [n])" "(ns @ [n]) ! i = (ns @ [n]) ! k"
      "(ns @ [n]) ! j \<noteq> (ns @ [n]) ! k"
    unfolding reappears_def by blast
  show "reappears ns \<or> (ns \<noteq> [] \<and> n \<in> set ns \<and> last ns \<noteq> n)"
  proof (cases "k < length ns")
    case True
    with ijk show ?thesis unfolding reappears_def
      by (intro disjI1 exI [of _ i] exI [of _ j] exI [of _ k]) (simp add: nth_append)
  next
    case False
    with ijk have l: "i < length ns" "j < length ns" "ns ! i = n" "ns ! j \<noteq> n"
      by (auto simp: nth_append split: if_splits)
    then have ne: "ns \<noteq> []" "n \<in> set ns" by auto
    show ?thesis
    proof (cases "last ns = n")
      case True
      with ne(1) have last: "ns ! (length ns - 1) = n" by (simp add: last_conv_nth)
      with l have "j \<noteq> length ns - 1" by auto
      with l have "j < length ns - 1" by linarith
      with l last ijk(1) have "reappears ns" unfolding reappears_def
        by (intro exI [of _ i] exI [of _ j] exI [of _ "length ns - 1"]) simp
      then show ?thesis ..
    qed (use ne in simp)
  qed
next
  assume "reappears ns \<or> (ns \<noteq> [] \<and> n \<in> set ns \<and> last ns \<noteq> n)"
  then show "reappears (ns @ [n])"
  proof
    assume "reappears ns"
    then obtain i j k where "i < j" "j < k" "k < length ns" "ns ! i = ns ! k" "ns ! j \<noteq> ns ! k"
      unfolding reappears_def by blast
    then show ?thesis unfolding reappears_def
      by (intro exI [of _ i] exI [of _ j] exI [of _ k]) (simp add: nth_append)
  next
    assume a: "ns \<noteq> [] \<and> n \<in> set ns \<and> last ns \<noteq> n"
    then obtain i where i: "i < length ns" "ns ! i = n" by (auto simp: in_set_conv_nth)
    from a have last: "ns ! (length ns - 1) \<noteq> n" using last_conv_nth [of ns] by simp
    with i have "i \<noteq> length ns - 1" by auto
    with i have "i < length ns - 1" by linarith
    with i last show ?thesis unfolding reappears_def
      by (intro exI [of _ i] exI [of _ "length ns - 1"] exI [of _ "length ns"]) (simp add: nth_append)
  qed
qed

lemma observe_all_inv:
  "case observe_all ns of (t, f) \<Rightarrow> set (nonce_history t) = set ns \<and>
     nonce_last t = (if ns = [] then None else Some (last ns)) \<and> (f \<longleftrightarrow> reappears ns)"
proof (induction ns rule: rev_induct)
  case Nil
  show ?case by (simp add: observe_all_def nonce_tracker_default_def reappears_def)
next
  case (snoc n ns)
  obtain t f where tf: "observe_all ns = (t, f)" by fastforce
  with snoc have inv: "set (nonce_history t) = set ns"
      "nonce_last t = (if ns = [] then None else Some (last ns))" "f \<longleftrightarrow> reappears ns"
    by simp_all
  show ?case
  proof (cases "ns = []")
    case True
    then show ?thesis
      by (simp add: observe_all_def observe_step_def observe_server_nonce_def nonce_tracker_default_def
          reappears_def)
  next
    case False
    with inv(2) have l: "nonce_last t = Some (last ns)" by simp
    have step: "observe_all (ns @ [n]) = snd (observe_server_nonce n t f)"
      by (simp add: observe_all_snoc tf observe_step_def)
    consider "last ns = n" | "last ns \<noteq> n" "n \<in> set ns" | "last ns \<noteq> n" "n \<notin> set ns" by blast
    then show ?thesis
    proof cases
      case 1
      with False have "n \<in> set ns" by auto
      with 1 l show ?thesis
        unfolding step observe_server_nonce_def reappears_snoc by (simp add: inv(1,3) insert_absorb)
    next
      case 2
      with l False show ?thesis
        unfolding step observe_server_nonce_def reappears_snoc by (simp add: inv(1) insert_absorb)
    next
      case 3
      with l False show ?thesis
        unfolding step observe_server_nonce_def reappears_snoc by (simp add: inv(1,3))
    qed
  qed
qed

section \<open>Properties\<close>

text \<open>The client flags a duplicate server exactly when, in the sequence of server nonces it
  has observed, some nonce comes back after a different one. A server that only restarts,
  with a fresh nonce each time, is never flagged, however often the client reconnects.\<close>

theorem duplicate_server_detection_exact:
  "snd (observe_all ns) \<longleftrightarrow>
     (\<exists>i j k. i < j \<and> j < k \<and> k < length ns \<and> ns ! i = ns ! k \<and> ns ! j \<noteq> ns ! k)"
  using observe_all_inv [of ns] by (auto simp: reappears_def split: prod.splits)

text \<open>A failure is retried exactly when reconnecting is on, the error is recoverable and the
  retry cap is not exceeded; otherwise the session ends with that very error. The delay
  before a retry lies between one second and sixty and a half, and the published status
  names the failure and the time of the next attempt.\<close>

theorem handle_failure_decides:
  assumes "jitter \<le> RECONNECT_JITTER_MAX_MS" and "attempt < 2 ^ 32 - 1"
  shows "case handle_failure cfg now jitter e attempt status of
      (Inr backoff, attempt', status') \<Rightarrow>
        auto_reconnect cfg \<and> is_recoverable e \<and> attempt' = attempt + 1 \<and>
        (case max_reconnect_attempts cfg of Some m \<Rightarrow> unat attempt + 1 \<le> unat m | None \<Rightarrow> True) \<and>
        from_secs 1 \<le> backoff \<and> backoff \<le> from_millis 60500 \<and>
        status' = \<lparr>failed_attempts = attempt', last_error = Some e, next_attempt_at = Some (now + backoff)\<rparr>
    | (Inl e', attempt', status') \<Rightarrow> e' = e \<and> status' = status \<and>
        \<not> (auto_reconnect cfg \<and> is_recoverable e \<and>
           (case max_reconnect_attempts cfg of Some m \<Rightarrow> unat attempt + 1 \<le> unat m | None \<Rightarrow> True))"
proof -
  have u: "unat (attempt + 1) = unat attempt + 1"
    using assms(2) by (simp add: unat_word_ariths word_less_nat_alt)
  have "m < attempt + 1 \<longleftrightarrow> \<not> unat attempt + 1 \<le> unat m" for m
    by (simp add: word_less_nat_alt u not_le)
  moreover have "from_secs 1 \<le> calculate_backoff a jitter" "calculate_backoff a jitter \<le> from_millis 60500" for a
    using reconnect.base_lo [of a] reconnect.base_hi [of a] assms(1)
    by (simp_all add: calculate_backoff_def RECONNECT_JITTER_MAX_MS_def from_secs_def from_millis_def)
  ultimately show ?thesis
    by (auto simp: handle_failure_def Let_def split: option.split)
qed

theorem handle_failure_decides_witness:
  "let cfg = \<lparr>cc_server_node_id = ''s'', cc_auth = QuickAllowlisted, cc_socks_listen = None,
      cc_http_listen = None, cc_relay_urls = [], cc_relay_auth_token = None, auto_reconnect = True,
      max_reconnect_attempts = Some 1\<rparr>;
      e = ConnectionLost (''gone'', []) in
   fst (handle_failure cfg 0 250 e 0 reconnect_status_default) = Inr (from_millis 1250) \<and>
   fst (handle_failure cfg 0 250 e 1 reconnect_status_default) = Inl e"
proof -
  define cfg where "cfg = \<lparr>cc_server_node_id = ''s'', cc_auth = QuickAllowlisted, cc_socks_listen = None,
      cc_http_listen = None, cc_relay_urls = [], cc_relay_auth_token = None, auto_reconnect = True,
      max_reconnect_attempts = Some 1\<rparr>"
  let ?e = "ConnectionLost (''gone'', [])"
  have r: "is_recoverable ?e" by (simp add: is_recoverable_def)
  have "fst (handle_failure cfg 0 250 ?e 0 reconnect_status_default) = Inr (from_millis 1250)"
    by (simp add: handle_failure_def r cfg_def calculate_backoff_def backoff_base_def from_secs_def
        from_millis_def RECONNECT_BACKOFF_MAX_def as_secs_def)
  moreover have "fst (handle_failure cfg 0 250 ?e 1 reconnect_status_default) = Inl ?e"
  proof -
    obtain r a st where run: "handle_failure cfg 0 250 ?e 1 reconnect_status_default = (r, a, st)"
      using prod_cases3 by blast
    have m: "max_reconnect_attempts cfg = Some 1" by (simp add: cfg_def)
    from handle_failure_decides [where jitter = 250 and attempt = 1 and cfg = cfg and now = 0 and e = ?e
        and status = reconnect_status_default]
    have "case r of Inr backoff \<Rightarrow> False | Inl e' \<Rightarrow> e' = ?e"
      by (cases r) (simp_all add: run m RECONNECT_JITTER_MAX_MS_def)
    with run show ?thesis by (cases r) simp_all
  qed
  ultimately show ?thesis unfolding cfg_def [symmetric] by simp
qed

end
