(* ===== verification/Reserved.thy ===== *)
theory Reserved
  imports Net_Addr
begin

text \<open>
  The reserved \<^verbatim>\<open>flextunnel.internal\<close> namespace,
  \<^verbatim>\<open>src/crates/flextunnel-core/src/proxy/reserved.rs\<close>. The lemmas say which hosts are
  reserved and that no reserved host is an IP literal.
\<close>

definition STATUS_HOST :: string where "STATUS_HOST = ''flextunnel.internal''"

definition LOCALHOST_HOST :: string where "LOCALHOST_HOST = ''localhost.flextunnel.internal''"

definition RESERVED_SUFFIX :: string where "RESERVED_SUFFIX = ''.flextunnel.internal''"

definition is_status_host :: "string \<Rightarrow> bool" where
  "is_status_host host = eq_ignore_ascii_case host STATUS_HOST"

definition is_localhost_host :: "string \<Rightarrow> bool" where
  "is_localhost_host host = eq_ignore_ascii_case host LOCALHOST_HOST"

definition is_reserved_host :: "string \<Rightarrow> bool" where
  "is_reserved_host host =
     (if is_status_host host then True
      else (case strip_suffix RESERVED_SUFFIX (to_ascii_lowercase host) of
              None \<Rightarrow> False | Some label \<Rightarrow> label \<noteq> []))"

lemmas reserved_names = STATUS_HOST_def LOCALHOST_HOST_def RESERVED_SUFFIX_def

lemma lower_reserved [simp]:
  "to_ascii_lowercase STATUS_HOST = STATUS_HOST" "to_ascii_lowercase LOCALHOST_HOST = LOCALHOST_HOST"
  by (simp_all add: reserved_names to_ascii_lowercase_def lower_char_def Let_def)

lemma is_status_host_iff: "is_status_host h \<longleftrightarrow> to_ascii_lowercase h = ''flextunnel.internal''"
  by (simp only: is_status_host_def eq_ignore_ascii_case_def lower_reserved) (simp only: STATUS_HOST_def)

lemma is_localhost_host_iff:
  "is_localhost_host h \<longleftrightarrow> to_ascii_lowercase h = ''localhost.flextunnel.internal''"
  by (simp only: is_localhost_host_def eq_ignore_ascii_case_def lower_reserved)
    (simp only: LOCALHOST_HOST_def)

lemma is_reserved_host_iff:
  "is_reserved_host h \<longleftrightarrow> to_ascii_lowercase h = ''flextunnel.internal'' \<or>
     (\<exists>label. label \<noteq> [] \<and> to_ascii_lowercase h = label @ ''.flextunnel.internal'')"
proof -
  have "(case strip_suffix sfx l of None \<Rightarrow> False | Some label \<Rightarrow> label \<noteq> []) \<longleftrightarrow>
      (\<exists>label. label \<noteq> [] \<and> l = label @ sfx)" for sfx l :: string
    by (cases "strip_suffix sfx l") (auto simp: suffix_def)
  then show ?thesis
    by (simp only: is_reserved_host_def is_status_host_iff RESERVED_SUFFIX_def) auto
qed

interpretation reserved_ci: ci_matcher is_reserved_host
  by unfold_locales (simp add: is_reserved_host_iff)

interpretation status_ci: ci_matcher is_status_host
  by unfold_locales (simp add: is_status_host_iff)

interpretation localhost_ci: ci_matcher is_localhost_host
  by unfold_locales (simp add: is_localhost_host_iff)

lemma localhost_is_reserved: "is_localhost_host h \<Longrightarrow> is_reserved_host h"
  unfolding is_localhost_host_iff is_reserved_host_iff
  by (intro disjI2 exI [of _ "''localhost''"]) simp

lemma localhost_not_status: "is_localhost_host h \<Longrightarrow> \<not> is_status_host h"
  by (simp add: is_localhost_host_iff is_status_host_iff)

lemma reserved_not_ip: "is_reserved_host h \<Longrightarrow> parse_ip h = None"
proof -
  assume "is_reserved_host h"
  then have "CHR ''x'' \<in> set (to_ascii_lowercase h)"
    by (auto simp: is_reserved_host_iff)
  moreover have "\<not> ip_char CHR ''x''"
    by (simp add: ip_char_def is_radix_digit_def to_digit_def)
  ultimately have "parse_ip (to_ascii_lowercase h) = None" by (rule not_ip_literal)
  then show ?thesis by (simp add: ip_ci.matcher_lower)
qed

section \<open>Properties\<close>

text \<open>Reserved are exactly \<^verbatim>\<open>flextunnel.internal\<close> and the names that end in
  \<^verbatim>\<open>.flextunnel.internal\<close> after at least one character, in any ASCII case: not the bare
  suffix, and no name that merely contains or extends the reserved one. No reserved name
  is an IP literal, and the loopback host is reserved without being the status host.\<close>

theorem reserved_hosts_exact:
  "(is_reserved_host h \<longleftrightarrow> to_ascii_lowercase h = ''flextunnel.internal'' \<or>
      (\<exists>label. label \<noteq> [] \<and> to_ascii_lowercase h = label @ ''.flextunnel.internal''))
   \<and> (is_reserved_host h \<longrightarrow> parse_ip h = None)
   \<and> (is_localhost_host h \<longrightarrow> is_reserved_host h \<and> \<not> is_status_host h)"
  using is_reserved_host_iff reserved_not_ip localhost_is_reserved localhost_not_status by blast

theorem reserved_hosts_exact_witness:
  "is_reserved_host ''Api.FlexTunnel.internal'' \<and> parse_ip ''Api.FlexTunnel.internal'' = None
   \<and> \<not> is_reserved_host ''.flextunnel.internal'' \<and> \<not> is_reserved_host ''flextunnel.internal.evil.com''
   \<and> is_localhost_host ''LOCALHOST.flextunnel.internal'' \<and> \<not> is_status_host ''LOCALHOST.flextunnel.internal''"
proof -
  have "is_reserved_host ''Api.FlexTunnel.internal''" "is_localhost_host ''LOCALHOST.flextunnel.internal''"
    "\<not> is_reserved_host ''.flextunnel.internal''" "\<not> is_reserved_host ''flextunnel.internal.evil.com''"
    by code_simp+
  with reserved_hosts_exact [of "''Api.FlexTunnel.internal''"]
    reserved_hosts_exact [of "''LOCALHOST.flextunnel.internal''"]
  show ?thesis by blast
qed

end
