(* ===== verification/Routed_Set.thy ===== *)
theory Routed_Set
  imports Signaling Reserved
begin

text \<open>
  The routed set, \<^verbatim>\<open>src/crates/flextunnel-core/src/proxy/routed_set.rs\<close>: which targets
  go through the tunnel. Networks are values of the library \<^verbatim>\<open>ipnetwork\<close>; the
  functions of it that the code calls are the fields of a record of parameters, and what
  the code relies on is stated by \<open>cidr_laws\<close>. The lemmas relate the compiled set to the
  meaning of the configured rules, show the invariant of a compiled set, and characterise
  the coverage checks.
\<close>

section \<open>Networks\<close>

record 'n net_ops =
  net_from_str :: "string \<Rightarrow> 'n option"
  net_from_ip :: "ip_addr \<Rightarrow> 'n"
  net_contains :: "'n \<Rightarrow> ip_addr \<Rightarrow> bool"
  net_network :: "'n \<Rightarrow> ip_addr"

section \<open>The set and its operations\<close>

record 'n routed_set =
  domains_exact :: "string set"
  domains_suffix :: "string list"
  rs_cidrs :: "'n list"
  domains_all :: bool

text \<open>The loop over the domain entries, with the three variables it fills.\<close>

primrec new_domains ::
  "string list \<Rightarrow> string set \<Rightarrow> string list \<Rightarrow> bool \<Rightarrow> msg + string set \<times> string list \<times> bool" where
  "new_domains [] exact sfx all_flag = Inr (exact, sfx, all_flag)"
| "new_domains (raw # rest) exact sfx all_flag =
     (let entry = trim raw in
      if entry = ''*'' then new_domains rest exact sfx True
      else case strip_prefix ''*.'' entry of
        Some suffix' \<Rightarrow>
          if CHR ''*'' \<in> set suffix' \<or> [] \<in> set (split_on CHR ''.'' suffix')
          then Inl (''invalid routed-domain wildcard pattern: {raw:?}'', [FStr raw])
          else new_domains rest exact (sfx @ [CHR ''.'' # to_ascii_lowercase suffix']) all_flag
      | None \<Rightarrow>
          if entry = [] \<or> CHR ''*'' \<in> set entry
          then Inl (''invalid routed-domain pattern: {raw:?}'', [FStr raw])
          else new_domains rest (insert (to_ascii_lowercase entry) exact) sfx all_flag)"

text \<open>\<^verbatim>\<open>IpNetwork::from_str(entry).or_else(IpAddr::from_str(entry).map(from))\<close>.\<close>

definition parse_net :: "'n net_ops \<Rightarrow> string \<Rightarrow> 'n option" where
  "parse_net ops entry =
     (case net_from_str ops entry of
        Some net \<Rightarrow> Some net
      | None \<Rightarrow> map_option (net_from_ip ops) (parse_ip entry))"

primrec new_cidrs :: "'n net_ops \<Rightarrow> string list \<Rightarrow> 'n list \<Rightarrow> msg + 'n list" where
  "new_cidrs ops [] nets = Inr nets"
| "new_cidrs ops (raw # rest) nets =
     (case parse_net ops (trim raw) of
        None \<Rightarrow> Inl (''invalid routed CIDR: {raw:?}'', [FStr raw])
      | Some net \<Rightarrow> new_cidrs ops rest (nets @ [net]))"

definition routed_set_new :: "'n net_ops \<Rightarrow> string list \<Rightarrow> string list \<Rightarrow> msg + 'n routed_set" where
  "routed_set_new ops domains cidrs =
     result_bind (new_domains domains {} [] False) (\<lambda>(exact, sfx, all_flag).
     result_bind (new_cidrs ops cidrs []) (\<lambda>nets.
       Inr \<lparr>domains_exact = exact, domains_suffix = sfx, rs_cidrs = nets, domains_all = all_flag\<rparr>))"

definition routed_set_default :: "'n routed_set" where
  "routed_set_default = \<lparr>domains_exact = {}, domains_suffix = [], rs_cidrs = [], domains_all = False\<rparr>"

definition parse_ip_literal :: "string \<Rightarrow> ip_addr option" where
  "parse_ip_literal host =
     (let unbracketed =
        (case Option.bind (strip_prefix ''['' host) (strip_suffix '']'') of
           Some h \<Rightarrow> h | None \<Rightarrow> host)
      in parse_ip unbracketed)"

definition allows_ip :: "'n net_ops \<Rightarrow> 'n routed_set \<Rightarrow> ip_addr \<Rightarrow> bool" where
  "allows_ip ops rs ip = list_ex (\<lambda>net. net_contains ops net ip) (rs_cidrs rs)"

definition allows_host :: "'n net_ops \<Rightarrow> 'n routed_set \<Rightarrow> string \<Rightarrow> bool" where
  "allows_host ops rs host =
     (case parse_ip_literal host of
        Some ip \<Rightarrow> allows_ip ops rs ip
      | None \<Rightarrow>
          if domains_all rs then True
          else let h = to_ascii_lowercase host in
            h \<in> domains_exact rs \<or> list_ex (\<lambda>sfx. suffix sfx h) (domains_suffix rs))"

definition allows :: "'n net_ops \<Rightarrow> 'n routed_set \<Rightarrow> target \<Rightarrow> bool" where
  "allows ops rs t =
     (case t of TDomain host _ \<Rightarrow> allows_host ops rs host | TIp sa \<Rightarrow> allows_ip ops rs (sock_ip sa))"

definition covers_suffix :: "'n routed_set \<Rightarrow> string \<Rightarrow> bool" where
  "covers_suffix rs sfx =
     (if domains_all rs then True
      else let dot_suffix = CHR ''.'' # sfx in
        if sfx \<in> domains_exact rs \<or> (\<exists>e \<in> domains_exact rs. suffix dot_suffix e) then True
        else list_ex (\<lambda>dot_t. let t = drop 1 dot_t in
               t = sfx \<or> suffix dot_t sfx \<or> suffix dot_suffix t) (domains_suffix rs))"

definition domain_rule_reachable :: "'n net_ops \<Rightarrow> 'n routed_set \<Rightarrow> string \<Rightarrow> bool" where
  "domain_rule_reachable ops rs entry =
     (if entry = ''*'' then domains_all rs \<or> domains_exact rs \<noteq> {} \<or> domains_suffix rs \<noteq> []
      else case strip_prefix ''*.'' entry of
        Some sfx \<Rightarrow> covers_suffix rs (to_ascii_lowercase sfx)
      | None \<Rightarrow> allows_host ops rs entry)"

primrec domain_rules_reachable :: "'n net_ops \<Rightarrow> 'n routed_set \<Rightarrow> string list \<Rightarrow> msg + unit" where
  "domain_rules_reachable ops rs [] = Inr ()"
| "domain_rules_reachable ops rs (raw # rest) =
     (if \<not> domain_rule_reachable ops rs (trim raw)
      then Inl (''domain rule {raw:?} is not covered by the routed set'', [FStr raw])
      else domain_rules_reachable ops rs rest)"

primrec cidr_rules_reachable :: "'n net_ops \<Rightarrow> 'n routed_set \<Rightarrow> string list \<Rightarrow> msg + unit" where
  "cidr_rules_reachable ops rs [] = Inr ()"
| "cidr_rules_reachable ops rs (raw # rest) =
     (case parse_net ops (trim raw) of
        None \<Rightarrow> Inl (''invalid CIDR rule: {raw:?}'', [FStr raw])
      | Some net \<Rightarrow>
          if \<not> list_ex (\<lambda>routed. net_contains ops routed (net_network ops net)
                 \<or> net_contains ops net (net_network ops routed)) (rs_cidrs rs)
          then Inl (''CIDR rule {raw:?} does not overlap any routed CIDR'', [FStr raw])
          else cidr_rules_reachable ops rs rest)"

definition validate_rules_reachable ::
  "'n net_ops \<Rightarrow> 'n routed_set \<Rightarrow> string list \<Rightarrow> string list \<Rightarrow> msg + unit" where
  "validate_rules_reachable ops rs domains cidrs =
     result_bind (domain_rules_reachable ops rs domains) (\<lambda>_. cidr_rules_reachable ops rs cidrs)"

section \<open>The meaning of the configured rules\<close>

text \<open>A domain rule, as the documentation of the module states it: the catch-all, a wildcard
  for the names below a domain, or one name; all in any ASCII case.\<close>

definition domain_rule_ok :: "string \<Rightarrow> bool" where
  "domain_rule_ok raw =
     (let e = trim raw in
      e = ''*'' \<or>
      (case strip_prefix ''*.'' e of
         Some s \<Rightarrow> CHR ''*'' \<notin> set s \<and> [] \<notin> set (split_on CHR ''.'' s)
       | None \<Rightarrow> e \<noteq> [] \<and> CHR ''*'' \<notin> set e))"

definition rule_matches :: "string \<Rightarrow> string \<Rightarrow> bool" where
  "rule_matches raw host =
     (let e = trim raw; h = to_ascii_lowercase host in
      e = ''*'' \<or>
      (case strip_prefix ''*.'' e of
         Some s \<Rightarrow> suffix (CHR ''.'' # to_ascii_lowercase s) h
       | None \<Rightarrow> h = to_ascii_lowercase e))"

definition hosts_of :: "string set \<Rightarrow> string list \<Rightarrow> bool \<Rightarrow> string \<Rightarrow> bool" where
  "hosts_of exact sfx all_flag h \<longleftrightarrow> all_flag \<or> to_ascii_lowercase h \<in> exact \<or>
     (\<exists>x \<in> set sfx. suffix x (to_ascii_lowercase h))"

lemma new_domains_hosts:
  "new_domains ds exact sfx all_flag = Inr (exact', sfx', all') \<Longrightarrow>
   hosts_of exact' sfx' all' h \<longleftrightarrow>
     hosts_of exact sfx all_flag h \<or> (\<exists>d \<in> set ds. rule_matches d h)"
proof (induction ds arbitrary: exact sfx all_flag)
  case (Cons d ds)
  show ?case
  proof (cases "trim d = ''*''")
    case True
    with Cons show ?thesis by (auto simp: hosts_of_def rule_matches_def Let_def)
  next
    case False
    then show ?thesis
    proof (cases "strip_prefix ''*.'' (trim d)")
      case None
      with False Cons.prems have "new_domains ds (insert (to_ascii_lowercase (trim d)) exact) sfx all_flag
          = Inr (exact', sfx', all')"
        by (auto simp: Let_def split: if_splits)
      from Cons.IH [OF this] show ?thesis
        using None False by (auto simp: hosts_of_def rule_matches_def Let_def)
    next
      case (Some s)
      with False Cons.prems have "new_domains ds exact (sfx @ [CHR ''.'' # to_ascii_lowercase s]) all_flag
          = Inr (exact', sfx', all')"
        by (auto simp: Let_def split: if_splits)
      from Cons.IH [OF this] show ?thesis
        using Some False by (auto simp: hosts_of_def rule_matches_def Let_def)
    qed
  qed
qed simp

lemma new_domains_ok_iff:
  "(\<exists>r. new_domains ds exact sfx all_flag = Inr r) \<longleftrightarrow> list_all domain_rule_ok ds"
  by (induction ds arbitrary: exact sfx all_flag)
    (simp_all add: domain_rule_ok_def Let_def split: option.split)

lemma new_cidrs_Inr_iff:
  "new_cidrs ops cs nets = Inr nets' \<longleftrightarrow>
     (\<exists>ms. map (\<lambda>c. parse_net ops (trim c)) cs = map Some ms \<and> nets' = nets @ ms)"
proof (induction cs arbitrary: nets)
  case (Cons c cs)
  show ?case
  proof (cases "parse_net ops (trim c)")
    case None
    then show ?thesis by auto
  next
    case (Some m)
    have "(\<exists>ms. map Some ms = Some m # map (\<lambda>c. parse_net ops (trim c)) cs \<and> P ms) \<longleftrightarrow>
        (\<exists>ms. map (\<lambda>c. parse_net ops (trim c)) cs = map Some ms \<and> P (m # ms))" for P
      by (auto simp: Cons_eq_map_conv map_eq_Cons_conv) metis
    with Some Cons.IH show ?thesis by (simp add: eq_commute [of _ "map Some _"])
  qed
qed auto

lemma new_cidrs_ok_iff:
  "(\<exists>r. new_cidrs ops cs nets = Inr r) \<longleftrightarrow> (\<forall>c \<in> set cs. parse_net ops (trim c) \<noteq> None)"
  by (induction cs arbitrary: nets) (auto split: option.split)

lemma routed_set_new_Inr_iff:
  "routed_set_new ops ds cs = Inr rs \<longleftrightarrow>
     (\<exists>r nets. new_domains ds {} [] False = Inr r \<and> new_cidrs ops cs [] = Inr nets \<and>
        rs = \<lparr>domains_exact = fst r, domains_suffix = fst (snd r), rs_cidrs = nets,
              domains_all = snd (snd r)\<rparr>)"
  by (auto simp: routed_set_new_def result_bind_Inr_iff split_def)

section \<open>A compiled set is well formed\<close>

fun dot_name :: "string \<Rightarrow> bool" where
  "dot_name [] = False"
| "dot_name (c # t) = (c = CHR ''.'' \<and> t \<noteq> [] \<and> to_ascii_lowercase t = t)"

lemma dot_name_iff: "dot_name x \<longleftrightarrow> (\<exists>t. x = CHR ''.'' # t \<and> t \<noteq> [] \<and> to_ascii_lowercase t = t)"
  by (cases x) auto

definition wf_routed :: "'n routed_set \<Rightarrow> bool" where
  "wf_routed rs \<longleftrightarrow>
     (\<forall>e \<in> domains_exact rs. e \<noteq> [] \<and> to_ascii_lowercase e = e) \<and>
     list_all dot_name (domains_suffix rs)"

lemma new_domains_wf:
  "new_domains ds exact sfx all_flag = Inr (exact', sfx', all') \<Longrightarrow>
   \<forall>e \<in> exact. e \<noteq> [] \<and> to_ascii_lowercase e = e \<Longrightarrow>
   list_all dot_name sfx \<Longrightarrow>
   (\<forall>e \<in> exact'. e \<noteq> [] \<and> to_ascii_lowercase e = e) \<and>
   list_all dot_name sfx'"
proof (induction ds arbitrary: exact sfx all_flag)
  case (Cons d ds)
  let ?e = "trim d"
  consider (all) "new_domains ds exact sfx True = Inr (exact', sfx', all')"
    | (exact) "?e \<noteq> []" "new_domains ds (insert (to_ascii_lowercase ?e) exact) sfx all_flag
        = Inr (exact', sfx', all')"
    | (wild) s where "s \<noteq> []" "new_domains ds exact (sfx @ [CHR ''.'' # to_ascii_lowercase s]) all_flag
        = Inr (exact', sfx', all')"
  proof (cases "strip_prefix ''*.'' ?e")
    case None
    with Cons.prems(1) that(1,2) show thesis by (auto simp: Let_def split: if_splits)
  next
    case (Some s)
    with Cons.prems(1) that(1) that(3) [of s] show thesis
      by (cases s) (auto simp: Let_def split: if_splits)
  qed
  then show ?case
  proof cases
    case all
    show ?thesis by (rule Cons.IH [OF all]) (use Cons.prems(2,3) in auto)
  next
    case exact
    show ?thesis by (rule Cons.IH [OF exact(2)]) (use Cons.prems(2,3) exact(1) in auto)
  next
    case (wild s)
    show ?thesis by (rule Cons.IH [OF wild(2)]) (use Cons.prems(2,3) wild(1) in auto)
  qed
qed simp

lemma wf_routed_set_new: "routed_set_new ops ds cs = Inr rs \<Longrightarrow> wf_routed rs"
  using new_domains_wf [of ds "{}" "[]" False]
  by (auto simp: routed_set_new_def wf_routed_def result_bind_Inr_iff)

section \<open>Matching\<close>

lemma allows_host_name:
  "parse_ip_literal h = None \<Longrightarrow>
   allows_host ops rs h \<longleftrightarrow> hosts_of (domains_exact rs) (domains_suffix rs) (domains_all rs) h"
  by (auto simp: allows_host_def hosts_of_def list_ex_iff Let_def)

lemma allows_host_ip:
  "parse_ip_literal h = Some ip \<Longrightarrow> allows_host ops rs h \<longleftrightarrow> allows_ip ops rs ip"
  by (simp add: allows_host_def)

lemma parse_ip_literal_lower [simp]:
  "parse_ip_literal (to_ascii_lowercase h) = parse_ip_literal h"
proof -
  have br: "Option.bind (strip_prefix ''['' (to_ascii_lowercase h)) (strip_suffix '']'') =
      map_option to_ascii_lowercase (Option.bind (strip_prefix ''['' h) (strip_suffix '']''))"
  proof (cases "\<exists>m. h = ''['' @ m @ '']''")
    case True
    then show ?thesis by (auto simp: to_ascii_lowercase_def lower_char_def Let_def)
  next
    case False
    have "Option.bind (strip_prefix ''['' k) (strip_suffix '']'') = None" if "\<nexists>m. k = ''['' @ m @ '']''" for k
      using that by (cases "Option.bind (strip_prefix ''['' k) (strip_suffix '']'')")
        (auto simp: bind_eq_Some_conv)
    moreover have "\<nexists>m. to_ascii_lowercase h = ''['' @ m @ '']''"
      using False by (auto simp: to_ascii_lowercase_def map_eq_Cons_conv map_eq_append_conv
          lower_char_keeps lower_char_keeps(5) [THEN eq_commute [THEN trans]])
    ultimately show ?thesis using False by simp
  qed
  show ?thesis
    unfolding parse_ip_literal_def br
    by (auto simp: Let_def ip_ci.matcher_lower split: option.split)
qed

interpretation routed_ci: ci_matcher "allows_host ops rs" for ops rs
  by unfold_locales (simp add: allows_host_def Let_def split: option.split)

lemma parse_ip_literal_chars: "c \<in> set h \<Longrightarrow> \<not> ip_char c \<Longrightarrow> c \<noteq> CHR ''['' \<Longrightarrow> c \<noteq> CHR '']'' \<Longrightarrow>
  parse_ip_literal h = None"
proof -
  assume c: "c \<in> set h" "\<not> ip_char c" "c \<noteq> CHR ''[''" "c \<noteq> CHR '']''"
  have "c \<in> set (case Option.bind (strip_prefix ''['' h) (strip_suffix '']'') of Some h \<Rightarrow> h | None \<Rightarrow> h)"
    using c by (auto simp: bind_eq_Some_conv split: option.split)
  from not_ip_literal [OF this c(2)] show ?thesis unfolding parse_ip_literal_def Let_def .
qed

lemma reserved_not_ip_literal: "is_reserved_host h \<Longrightarrow> parse_ip_literal h = None"
proof -
  assume "is_reserved_host h"
  then have "CHR ''x'' \<in> set (to_ascii_lowercase h)" by (auto simp: is_reserved_host_iff)
  then have "parse_ip_literal (to_ascii_lowercase h) = None"
    by (rule parse_ip_literal_chars) (simp_all add: ip_char_def is_radix_digit_def to_digit_def)
  then show ?thesis by simp
qed

section \<open>Coverage of a suffix\<close>

definition at_or_under :: "string \<Rightarrow> string \<Rightarrow> bool" where
  "at_or_under h sfx \<longleftrightarrow> h = sfx \<or> suffix (CHR ''.'' # sfx) h"

lemma covers_suffix_complete:
  assumes wf: "wf_routed rs" and h: "parse_ip_literal h = None" "allows_host ops rs h"
    and u: "at_or_under (to_ascii_lowercase h) sfx"
  shows "covers_suffix rs sfx"
proof -
  let ?h = "to_ascii_lowercase h"
  from h consider "domains_all rs" | "?h \<in> domains_exact rs"
    | x where "x \<in> set (domains_suffix rs)" "suffix x ?h"
    by (auto simp: allows_host_name hosts_of_def)
  then show ?thesis
  proof cases
    case (3 x)
    with wf obtain t where x: "x = CHR ''.'' # t" by (auto simp: wf_routed_def list_all_iff dot_name_iff)
    have "t = sfx \<or> suffix x sfx \<or> suffix (CHR ''.'' # sfx) t"
      using u suffix_dot_linear [OF 3(2), of "CHR ''.'' # sfx"] 3(2)
      by (auto simp: at_or_under_def x suffix_Cons)
    then have "drop 1 x = sfx \<or> suffix x sfx \<or> suffix (CHR ''.'' # sfx) (drop 1 x)" by (simp add: x)
    with 3(1) show ?thesis by (auto simp: covers_suffix_def list_ex_iff Let_def)
  qed (use u in \<open>auto simp: covers_suffix_def at_or_under_def Let_def\<close>)
qed

lemma covers_suffix_sound:
  assumes wf: "wf_routed rs" and sfx: "to_ascii_lowercase sfx = sfx"
    and names: "\<forall>e \<in> domains_exact rs. parse_ip_literal e = None"
    and c: "covers_suffix rs sfx"
  shows "\<exists>h. parse_ip_literal h = None \<and> allows_host ops rs h \<and> at_or_under (to_ascii_lowercase h) sfx"
proof -
  have x: "parse_ip_literal (''x.'' @ u) = None" for u
    by (rule parse_ip_literal_chars [of "CHR ''x''"])
      (simp_all add: ip_char_def is_radix_digit_def to_digit_def)
  have low: "to_ascii_lowercase (''x.'' @ u) = ''x.'' @ to_ascii_lowercase u" for u
    by (simp add: to_ascii_lowercase_def lower_char_def Let_def)
  have goal: ?thesis if "to_ascii_lowercase u = u" "at_or_under (''x.'' @ u) sfx"
      "hosts_of (domains_exact rs) (domains_suffix rs) (domains_all rs) (''x.'' @ u)" for u
    using that x [of u] low [of u] allows_host_name [of "''x.'' @ u" ops rs] by metis
  have wild: "suffix (CHR ''.'' # u) (''x.'' @ v)" if "u = v \<or> suffix (CHR ''.'' # u) v" for u v
    using that by (auto simp: suffix_Cons)
  from c consider (all) "domains_all rs"
    | (exact) e where "e \<in> domains_exact rs" "at_or_under e sfx"
    | (suffix) t where "CHR ''.'' # t \<in> set (domains_suffix rs)" "to_ascii_lowercase t = t"
        "t = sfx \<or> suffix (CHR ''.'' # t) sfx \<or> suffix (CHR ''.'' # sfx) t"
    using wf by (fastforce simp: covers_suffix_def at_or_under_def list_ex_iff wf_routed_def
        list_all_iff dot_name_iff Let_def split: if_splits)
  then show ?thesis
  proof cases
    case all
    then show ?thesis using sfx wild by (intro goal [of sfx]) (auto simp: at_or_under_def hosts_of_def)
  next
    case exact
    then show ?thesis using wf names
      by (intro exI [of _ e]) (auto simp: allows_host_name hosts_of_def wf_routed_def)
  next
    case suffix
    let ?u = "if suffix (CHR ''.'' # sfx) t then t else sfx"
    from suffix(3) have "at_or_under (''x.'' @ ?u) sfx" "suffix (CHR ''.'' # t) (''x.'' @ ?u)"
      using wild by (auto simp: at_or_under_def)
    moreover have "to_ascii_lowercase ?u = ?u" using sfx suffix(2) by simp
    ultimately show ?thesis using suffix(1) low [of ?u]
      by (intro goal [of ?u]) (auto simp: hosts_of_def simp del: append.simps)
  qed
qed

section \<open>Networks as address prefixes\<close>

text \<open>What the code relies on of \<^verbatim>\<open>ipnetwork\<close>: a network contains the addresses of its
  family that agree with its network address on the prefix, and the network made of one
  address contains that address only. \<open>plen\<close> is the prefix length of a network.\<close>

fun same_prefix :: "nat \<Rightarrow> ip_addr \<Rightarrow> ip_addr \<Rightarrow> bool" where
  "same_prefix l (IpV4 a) (IpV4 b) \<longleftrightarrow> unat a div 2 ^ (32 - l) = unat b div 2 ^ (32 - l)"
| "same_prefix l (IpV6 a) (IpV6 b) \<longleftrightarrow> unat a div 2 ^ (128 - l) = unat b div 2 ^ (128 - l)"
| "same_prefix l _ _ \<longleftrightarrow> False"

definition cidr_laws :: "'n net_ops \<Rightarrow> ('n \<Rightarrow> nat) \<Rightarrow> bool" where
  "cidr_laws ops plen \<longleftrightarrow>
     (\<forall>n ip. net_contains ops n ip \<longleftrightarrow> same_prefix (plen n) (net_network ops n) ip) \<and>
     (\<forall>ip ip'. net_contains ops (net_from_ip ops ip) ip' \<longleftrightarrow> ip' = ip)"

lemma same_prefix_sym: "same_prefix l a b \<longleftrightarrow> same_prefix l b a"
  by (cases a; cases b) auto

lemma same_prefix_trans: "same_prefix l a b \<Longrightarrow> same_prefix l b c \<Longrightarrow> same_prefix l a c"
  by (cases a; cases b; cases c) auto

lemma same_prefix_refl [simp]: "same_prefix l a a"
  by (cases a) auto

lemma div_pow_le: "(a :: nat) div 2 ^ m = b div 2 ^ m \<Longrightarrow> m \<le> k \<Longrightarrow> a div 2 ^ k = b div 2 ^ k"
  by (metis div_mult2_eq le_add_diff_inverse power_add)

lemma same_prefix_shorter: "same_prefix l a b \<Longrightarrow> l' \<le> l \<Longrightarrow> same_prefix l' a b"
  by (cases a; cases b) (auto elim!: div_pow_le)

text \<open>Two networks overlap exactly when one contains the other's network address.\<close>

lemma cidr_overlap_iff:
  assumes "cidr_laws ops plen"
  shows "net_contains ops a (net_network ops b) \<or> net_contains ops b (net_network ops a) \<longleftrightarrow>
    (\<exists>ip. net_contains ops a ip \<and> net_contains ops b ip)"
proof -
  have in_net: "net_contains ops n ip \<longleftrightarrow> same_prefix (plen n) (net_network ops n) ip" for n ip
    using assms by (simp add: cidr_laws_def)
  have nested: "net_contains ops n (net_network ops m)"
    if "net_contains ops n ip" "net_contains ops m ip" "plen n \<le> plen m" for n m ip
    using that in_net same_prefix_shorter same_prefix_sym same_prefix_trans by meson
  have own: "net_contains ops n (net_network ops n)" for n by (simp add: in_net)
  show ?thesis using nested own by (meson nat_le_linear)
qed

text \<open>An instance: a network is an address and a prefix length.\<close>

fun ip_width :: "ip_addr \<Rightarrow> nat" where
  "ip_width (IpV4 _) = 32"
| "ip_width (IpV6 _) = 128"

definition clear_low :: "nat \<Rightarrow> nat \<Rightarrow> nat" where
  "clear_low k n = n div 2 ^ k * 2 ^ k"

fun mask_ip :: "nat \<Rightarrow> ip_addr \<Rightarrow> ip_addr" where
  "mask_ip l (IpV4 a) = IpV4 (of_nat (clear_low (32 - l) (unat a)))"
| "mask_ip l (IpV6 a) = IpV6 (of_nat (clear_low (128 - l) (unat a)))"

definition cidr_from_str :: "string \<Rightarrow> (ip_addr \<times> nat) option" where
  "cidr_from_str s =
     (case split_once CHR ''/'' s of
        None \<Rightarrow> map_option (\<lambda>ip. (ip, ip_width ip)) (parse_ip s)
      | Some (a, l) \<Rightarrow> Option.bind (parse_ip a) (\<lambda>ip. Option.bind (parse_u16 l) (\<lambda>l.
          if unat l \<le> ip_width ip then Some (ip, unat l) else None)))"

definition cidr_ops :: "(ip_addr \<times> nat) net_ops" where
  "cidr_ops = \<lparr>net_from_str = cidr_from_str, net_from_ip = (\<lambda>ip. (ip, ip_width ip)),
     net_contains = (\<lambda>(a, l). same_prefix l a), net_network = (\<lambda>(a, l). mask_ip l a)\<rparr>"

lemma clear_low_div: "clear_low k n div 2 ^ k = n div 2 ^ k"
  by (simp add: clear_low_def)

lemma unat_masked:
  "unat (of_nat (clear_low k (unat (a :: u32))) :: u32) = clear_low k (unat a)"
  "unat (of_nat (clear_low k (unat (b :: u128))) :: u128) = clear_low k (unat b)"
proof -
  have "clear_low k n \<le> n" for n by (simp add: clear_low_def)
  then have "clear_low k (unat a) < 2 ^ 32" "clear_low k (unat b) < 2 ^ 128"
    using unat_less(3) [of a] unat_less(5) [of b] by (auto intro: le_less_trans simp del: unat_less)
  then show "unat (of_nat (clear_low k (unat a)) :: u32) = clear_low k (unat a)"
    "unat (of_nat (clear_low k (unat b)) :: u128) = clear_low k (unat b)"
    by (simp_all add: unat_of_nat)
qed

lemma cidr_ops_laws: "cidr_laws cidr_ops snd"
proof -
  have "same_prefix l (mask_ip l a) ip = same_prefix l a ip" for l a ip
    by (cases a; cases ip) (simp_all add: unat_masked clear_low_div)
  moreover have "same_prefix (ip_width ip) ip ip' \<longleftrightarrow> ip' = ip" for ip ip'
    by (cases ip; cases ip') (auto simp: word_unat_eq_iff)
  ultimately show ?thesis by (auto simp: cidr_laws_def cidr_ops_def)
qed

section \<open>Validation of bridge rules\<close>

lemma unreachable_domain_rule_dead:
  assumes wf: "wf_routed rs" and dead: "\<not> domain_rule_reachable ops rs (trim raw)"
    and h: "parse_ip_literal h = None" "allows_host ops rs h"
  shows "\<not> rule_matches raw h"
proof
  assume m: "rule_matches raw h"
  let ?e = "trim raw"
  show False
  proof (cases "?e = ''*''")
    case True
    with dead h show False
      by (auto simp: domain_rule_reachable_def allows_host_name hosts_of_def)
  next
    case star: False
    show False
    proof (cases "strip_prefix ''*.'' ?e")
      case None
      with star m have "eq_ignore_ascii_case h ?e"
        by (simp add: rule_matches_def eq_ignore_ascii_case_def Let_def)
      then have "allows_host ops rs ?e" using h(2) routed_ci.matcher_ignores_case by metis
      with None star dead show False by (simp add: domain_rule_reachable_def)
    next
      case (Some s)
      with star m have "at_or_under (to_ascii_lowercase h) (to_ascii_lowercase s)"
        by (auto simp: rule_matches_def at_or_under_def Let_def)
      with covers_suffix_complete [OF wf h] Some star dead show False
        by (auto simp: domain_rule_reachable_def)
    qed
  qed
qed

lemma domain_rules_reachable_Inr_iff:
  "domain_rules_reachable ops rs ds = Inr () \<longleftrightarrow> (\<forall>d \<in> set ds. domain_rule_reachable ops rs (trim d))"
  by (induction ds) auto

lemma domain_rules_reachable_Inl:
  "domain_rules_reachable ops rs ds = Inl m \<Longrightarrow>
   \<exists>d \<in> set ds. snd m = [FStr d] \<and> \<not> domain_rule_reachable ops rs (trim d)"
  by (induction ds) (auto split: if_splits)

lemma cidr_rules_reachable_Inr_iff:
  assumes "cidr_laws ops plen"
  shows "cidr_rules_reachable ops rs cs = Inr () \<longleftrightarrow>
    (\<forall>c \<in> set cs. \<exists>n. parse_net ops (trim c) = Some n \<and> (\<exists>ip. allows_ip ops rs ip \<and> net_contains ops n ip))"
proof (induction cs)
  case (Cons c cs)
  have "list_ex (\<lambda>r. net_contains ops r (net_network ops n) \<or> net_contains ops n (net_network ops r))
      (rs_cidrs rs) \<longleftrightarrow> (\<exists>ip. allows_ip ops rs ip \<and> net_contains ops n ip)" for n
    using cidr_overlap_iff [OF assms] by (auto simp: allows_ip_def list_ex_iff)
  with Cons show ?case by (auto split: option.split)
qed simp

lemma cidr_rules_reachable_Inl:
  "cidr_rules_reachable ops rs cs = Inl m \<Longrightarrow>
   \<exists>c \<in> set cs. snd m = [FStr c] \<and> cidr_rules_reachable ops rs [c] = Inl m"
  by (induction cs) (auto split: if_splits option.splits)

section \<open>Properties\<close>

text \<open>C3: A routed set compiled from the configuration decides every target as the configured
  rules say. An address is routed when some configured network contains it; a name when
  some domain rule matches it (the catch-all, the wildcard strictly below its domain, or
  the name itself, in any case); and an IP literal in domain form, bracketed or not, is
  treated as the address, so no domain rule, not even the catch-all, lets it through.\<close>

theorem routed_set_decides:
  assumes "routed_set_new ops ds cs = Inr rs"
  shows "allows ops rs t \<longleftrightarrow>
    (let by_cidr = (\<lambda>ip. \<exists>c \<in> set cs. \<exists>n. parse_net ops (trim c) = Some n \<and> net_contains ops n ip) in
     case t of
       TIp sa \<Rightarrow> by_cidr (sock_ip sa)
     | TDomain h p \<Rightarrow> (case parse_ip_literal h of
           Some ip \<Rightarrow> by_cidr ip
         | None \<Rightarrow> (\<exists>d \<in> set ds. rule_matches d h)))"
proof -
  from assms obtain exact sfx all_flag nets where
    d: "new_domains ds {} [] False = Inr (exact, sfx, all_flag)" and n: "new_cidrs ops cs [] = Inr nets"
    and rs: "rs = \<lparr>domains_exact = exact, domains_suffix = sfx, rs_cidrs = nets, domains_all = all_flag\<rparr>"
    by (auto simp: routed_set_new_def result_bind_Inr_iff)
  from n have nets: "map (\<lambda>c. parse_net ops (trim c)) cs = map Some nets" by (simp add: new_cidrs_Inr_iff)
  have ip: "allows_ip ops rs ip \<longleftrightarrow>
      (\<exists>c \<in> set cs. \<exists>n. parse_net ops (trim c) = Some n \<and> net_contains ops n ip)" for ip
  proof -
    have "allows_ip ops rs ip \<longleftrightarrow> (\<exists>x \<in> Some ` set nets. \<exists>n. x = Some n \<and> net_contains ops n ip)"
      by (auto simp: allows_ip_def rs list_ex_iff)
    also have "Some ` set nets = (\<lambda>c. parse_net ops (trim c)) ` set cs"
      using arg_cong [OF nets, of set] by simp
    finally show ?thesis by auto
  qed
  have "parse_ip_literal h = None \<Longrightarrow> allows_host ops rs h \<longleftrightarrow> (\<exists>d \<in> set ds. rule_matches d h)" for h
    using new_domains_hosts [OF d, of h] by (simp add: allows_host_name rs) (simp add: hosts_of_def)
  with ip show ?thesis
    by (simp add: allows_def Let_def allows_host_ip split: target.split option.split)
qed

theorem routed_set_decides_witness:
  "\<exists>rs. routed_set_new cidr_ops [''*''] [''10.0.0.0/8''] = Inr rs \<and>
     allows cidr_ops rs (TDomain ''example.com'' 443) \<and>
     \<not> allows cidr_ops rs (TDomain ''192.168.1.1'' 443) \<and> allows cidr_ops rs (TDomain ''10.1.2.3'' 443)"
proof -
  have new: "routed_set_new cidr_ops [''*''] [''10.0.0.0/8''] =
      Inr \<lparr>domains_exact = {}, domains_suffix = [], rs_cidrs = [(IpV4 0x0A000000, 8)], domains_all = True\<rparr>"
    by code_simp
  have n: "parse_net cidr_ops (trim ''10.0.0.0/8'') = Some (IpV4 0x0A000000, 8)"
    and l: "parse_ip_literal ''192.168.1.1'' = Some (IpV4 0xC0A80101)"
      "parse_ip_literal ''10.1.2.3'' = Some (IpV4 0x0A010203)" "parse_ip_literal ''example.com'' = None"
    and c: "\<not> net_contains cidr_ops (IpV4 0x0A000000, 8) (IpV4 0xC0A80101)"
      "net_contains cidr_ops (IpV4 0x0A000000, 8) (IpV4 0x0A010203)"
    and m: "rule_matches ''*'' ''example.com''"
    by code_simp+
  show ?thesis
    using routed_set_decides [OF new, of "TDomain ''example.com'' 443"]
      routed_set_decides [OF new, of "TDomain ''192.168.1.1'' 443"]
      routed_set_decides [OF new, of "TDomain ''10.1.2.3'' 443"]
    by (simp add: new n l c m)
qed

text \<open>Compiling succeeds exactly when every domain entry is a lone star, a wildcard over a
  domain with nonempty star-free labels, or a nonempty star-free name, and every network
  entry parses; the compiled set is well formed. The error of a failed compilation names an
  entry of the configuration.\<close>

theorem routed_set_new_total:
  "((\<exists>rs. routed_set_new ops ds cs = Inr rs \<and> wf_routed rs) \<longleftrightarrow>
      list_all domain_rule_ok ds \<and> (\<forall>c \<in> set cs. parse_net ops (trim c) \<noteq> None))
   \<and> (\<forall>m. routed_set_new ops ds cs = Inl m \<longrightarrow> (\<exists>raw \<in> set ds \<union> set cs. snd m = [FStr raw]))"
proof (intro conjI allI impI)
  show "(\<exists>rs. routed_set_new ops ds cs = Inr rs \<and> wf_routed rs) \<longleftrightarrow>
      list_all domain_rule_ok ds \<and> (\<forall>c \<in> set cs. parse_net ops (trim c) \<noteq> None)"
    using new_domains_ok_iff [of ds "{}" "[]" False] new_cidrs_ok_iff [of ops cs "[]"]
      wf_routed_set_new [of ops ds cs] unfolding routed_set_new_Inr_iff by blast
next
  fix m
  have d: "new_domains ds ex sfx al = Inl m \<Longrightarrow> \<exists>raw \<in> set ds. snd m = [FStr raw]" for ex sfx al
    by (induction ds arbitrary: ex sfx al) (auto simp: Let_def split: if_splits option.splits)
  have c: "new_cidrs ops cs nets = Inl m \<Longrightarrow> \<exists>raw \<in> set cs. snd m = [FStr raw]" for nets
    by (induction cs arbitrary: nets) (auto split: option.splits)
  assume "routed_set_new ops ds cs = Inl m"
  then have "new_domains ds {} [] False = Inl m \<or> new_cidrs ops cs [] = Inl m"
    by (cases "new_domains ds {} [] False"; cases "new_cidrs ops cs []")
      (auto simp: routed_set_new_def)
  then show "\<exists>raw \<in> set ds \<union> set cs. snd m = [FStr raw]" using d c by blast
qed

theorem routed_set_new_total_witness:
  "\<exists>m. routed_set_new cidr_ops [''ok.com'', ''*.*.com''] [] = Inl m \<and>
     (\<exists>raw \<in> {''ok.com'', ''*.*.com''}. snd m = [FStr raw])"
proof -
  have "\<not> list_all domain_rule_ok [''ok.com'', ''*.*.com'']" by code_simp
  then show ?thesis
    using routed_set_new_total [of cidr_ops "[''ok.com'', ''*.*.com'']" "[]"]
      wf_routed_set_new [of cidr_ops "[''ok.com'', ''*.*.com'']" "[]"]
    by (cases "routed_set_new cidr_ops [''ok.com'', ''*.*.com''] []") auto
qed

text \<open>The coverage test for a DNS-forwarding suffix is exact: it accepts a lowercase suffix
  if and only if the set routes some host name that is the suffix or lies below it. (The
  hypothesis excludes sets with an IP literal among the exact names, a rule that no name
  matches.)\<close>

theorem covers_suffix_exact:
  assumes "wf_routed rs" and "to_ascii_lowercase sfx = sfx"
    and "\<forall>e \<in> domains_exact rs. parse_ip_literal e = None"
  shows "covers_suffix rs sfx \<longleftrightarrow>
    (\<exists>h. parse_ip_literal h = None \<and> allows ops rs (TDomain h p) \<and>
         at_or_under (to_ascii_lowercase h) sfx)"
  using covers_suffix_complete [OF assms(1)] covers_suffix_sound [OF assms, of ops]
  by (auto simp: allows_def)

theorem covers_suffix_exact_witness:
  "let rs = \<lparr>domains_exact = {''db.corp.x''}, domains_suffix = [''.lab.x''],
       rs_cidrs = [] :: (ip_addr \<times> nat) list, domains_all = False\<rparr> in
   covers_suffix rs ''eu.lab.x'' \<and>
   (\<exists>h. parse_ip_literal h = None \<and> allows cidr_ops rs (TDomain h 53) \<and>
      at_or_under (to_ascii_lowercase h) ''eu.lab.x'')"
proof -
  let ?rs = "\<lparr>domains_exact = {''db.corp.x''}, domains_suffix = [''.lab.x''],
    rs_cidrs = [] :: (ip_addr \<times> nat) list, domains_all = False\<rparr>"
  have "wf_routed ?rs" "to_ascii_lowercase ''eu.lab.x'' = ''eu.lab.x''"
    "\<forall>e \<in> domains_exact ?rs. parse_ip_literal e = None" "covers_suffix ?rs ''eu.lab.x''"
    by code_simp+
  with covers_suffix_exact [of ?rs "''eu.lab.x''" cidr_ops 53] show ?thesis by (simp only: Let_def simp_thms)
qed

text \<open>Validating the rules of a bridge never refuses a configuration for a live rule. When
  it fails, it names a rule of the configuration that is dead: a domain rule that matches
  no host name the set routes, a network entry that does not parse, or a network none of
  whose addresses is routed. And it accepts a list of networks exactly when every one of
  them shares an address with the set, so the test on network addresses alone is exact.\<close>

theorem validate_refuses_only_dead_rules:
  assumes "cidr_laws ops plen" and "wf_routed rs"
  shows "(validate_rules_reachable ops rs ds cs = Inl m \<longrightarrow>
      (\<exists>d \<in> set ds. snd m = [FStr d] \<and>
         (\<forall>h. parse_ip_literal h = None \<and> allows_host ops rs h \<longrightarrow> \<not> rule_matches d h)) \<or>
      (\<exists>c \<in> set cs. snd m = [FStr c] \<and>
         (case parse_net ops (trim c) of None \<Rightarrow> True
          | Some n \<Rightarrow> (\<forall>ip. net_contains ops n ip \<longrightarrow> \<not> allows_ip ops rs ip))))
    \<and> (validate_rules_reachable ops rs [] cs = Inr () \<longleftrightarrow>
      (\<forall>c \<in> set cs. \<exists>n. parse_net ops (trim c) = Some n \<and>
         (\<exists>ip. allows_ip ops rs ip \<and> net_contains ops n ip)))"
proof (intro conjI)
  show "validate_rules_reachable ops rs ds cs = Inl m \<longrightarrow>
      (\<exists>d \<in> set ds. snd m = [FStr d] \<and>
         (\<forall>h. parse_ip_literal h = None \<and> allows_host ops rs h \<longrightarrow> \<not> rule_matches d h)) \<or>
      (\<exists>c \<in> set cs. snd m = [FStr c] \<and>
         (case parse_net ops (trim c) of None \<Rightarrow> True
          | Some n \<Rightarrow> (\<forall>ip. net_contains ops n ip \<longrightarrow> \<not> allows_ip ops rs ip)))" (is "_ \<longrightarrow> ?D \<or> ?C")
  proof
    assume v: "validate_rules_reachable ops rs ds cs = Inl m"
    then consider "domain_rules_reachable ops rs ds = Inl m" | "cidr_rules_reachable ops rs cs = Inl m"
      by (cases "domain_rules_reachable ops rs ds") (auto simp: validate_rules_reachable_def)
    then show "?D \<or> ?C"
    proof cases
      case 1
      from domain_rules_reachable_Inl [OF this] unreachable_domain_rule_dead [OF assms(2), of ops]
      have ?D by metis
      then show ?thesis ..
    next
      case 2
      from cidr_rules_reachable_Inl [OF this] obtain c where c: "c \<in> set cs" "snd m = [FStr c]"
        "cidr_rules_reachable ops rs [c] = Inl m" by blast
      then have "cidr_rules_reachable ops rs [c] \<noteq> Inr ()" by simp
      with c(1,2) cidr_rules_reachable_Inr_iff [OF assms(1), of rs "[c]"] have ?C
        by (intro bexI [of _ c]) (auto split: option.split)
      then show ?thesis ..
    qed
  qed
  show "validate_rules_reachable ops rs [] cs = Inr () \<longleftrightarrow>
      (\<forall>c \<in> set cs. \<exists>n. parse_net ops (trim c) = Some n \<and>
         (\<exists>ip. allows_ip ops rs ip \<and> net_contains ops n ip))"
    using cidr_rules_reachable_Inr_iff [OF assms(1)] by (simp add: validate_rules_reachable_def)
qed

theorem validate_refuses_only_dead_rules_witness:
  "let rs = \<lparr>domains_exact = {''corp.com''}, domains_suffix = [], rs_cidrs = [(IpV4 0x0A000000, 8 :: nat)],
       domains_all = False\<rparr> in
   wf_routed rs \<and> cidr_laws cidr_ops snd \<and>
   validate_rules_reachable cidr_ops rs [''lab.com''] [] =
     Inl (''domain rule {raw:?} is not covered by the routed set'', [FStr ''lab.com'']) \<and>
   allows_host cidr_ops rs ''corp.com'' \<and> \<not> rule_matches ''lab.com'' ''corp.com''"
proof -
  let ?rs = "\<lparr>domains_exact = {''corp.com''}, domains_suffix = [], rs_cidrs = [(IpV4 0x0A000000, 8 :: nat)],
     domains_all = False\<rparr>"
  have "wf_routed ?rs" "validate_rules_reachable cidr_ops ?rs [''lab.com''] [] =
     Inl (''domain rule {raw:?} is not covered by the routed set'', [FStr ''lab.com''])"
    "allows_host cidr_ops ?rs ''corp.com''" "parse_ip_literal ''corp.com'' = None"
    by code_simp+
  with validate_refuses_only_dead_rules [OF cidr_ops_laws, of ?rs "[''lab.com'']" "[]"
      "(''domain rule {raw:?} is not covered by the routed set'', [FStr ''lab.com''])"] cidr_ops_laws
  show ?thesis by (simp add: Let_def)
qed

section \<open>A dead rule that passes validation\<close>

text \<open>C38: The converse fails for wildcard rules: the set that routes just \<^verbatim>\<open>corp.com\<close> accepts
  the bridge rule \<^verbatim>\<open>*.corp.com\<close>, because the coverage test counts the apex, although no
  routed target ever matches that rule.\<close>

theorem dead_wildcard_rule_accepted:
  "\<exists>rs. routed_set_new cidr_ops [''corp.com''] [] = Inr rs \<and>
     validate_rules_reachable cidr_ops rs [''*.corp.com''] [] = Inr () \<and>
     \<not> (\<exists>h. allows_host cidr_ops rs h \<and> rule_matches ''*.corp.com'' h)"
proof -
  let ?rs = "\<lparr>domains_exact = {''corp.com''}, domains_suffix = [], rs_cidrs = [], domains_all = False\<rparr>"
  have "routed_set_new cidr_ops [''corp.com''] [] = Inr ?rs"
    "validate_rules_reachable cidr_ops ?rs [''*.corp.com''] [] = Inr ()"
    by code_simp+
  moreover have "\<not> rule_matches ''*.corp.com'' h" if "allows_host cidr_ops ?rs h" for h
  proof -
    from that have h: "to_ascii_lowercase h = ''corp.com''"
      by (auto simp: allows_host_def allows_ip_def Let_def split: option.splits)
    have "trim ''*.corp.com'' = ''*.corp.com''" "to_ascii_lowercase ''corp.com'' = ''corp.com''" by code_simp+
    with h show ?thesis by (simp add: rule_matches_def Let_def suffix_def)
  qed
  ultimately show ?thesis by blast
qed

end
