(* ===== verification/Registry.thy ===== *)
theory Registry
  imports Transport "HOL-Library.AList"
begin

text \<open>
  The server's registries of live connections and their clean-up guards,
  \<^verbatim>\<open>src/crates/flextunnel-core/src/proxy/server.rs\<close>: the client registry with its
  duplicate check, and the registry of inbound bridges. A \<^verbatim>\<open>HashMap\<close> is an association
  list with distinct keys; its order stands for the iteration order.

  Both registries provide the same interface: a connection is inserted under its endpoint id
  and its sequence number, a guard removes it, and an id is present exactly while it has a
  connection. The interface is a locale, interpreted on both.
\<close>

section \<open>The interface of a registry with guards\<close>

datatype ('i, 'v) reg_event = Reg 'i u64 'v | Unreg 'i u64

locale guarded_registry =
  fixes emp :: 'r
    and ins :: "'i \<Rightarrow> u64 \<Rightarrow> 'v \<Rightarrow> 'r \<Rightarrow> 'r"
    and del :: "'i \<Rightarrow> u64 \<Rightarrow> 'r \<Rightarrow> 'r"
    and get :: "'r \<Rightarrow> 'i \<Rightarrow> u64 \<Rightarrow> 'v option"
    and present :: "'r \<Rightarrow> 'i \<Rightarrow> bool"
    and inv :: "'r \<Rightarrow> bool"
  assumes inv_emp: "inv emp" and get_emp: "get emp i q = None"
    and inv_ins: "inv r \<Longrightarrow> inv (ins i q v r)"
    and inv_del: "inv r \<Longrightarrow> inv (del i q r)"
    and get_ins: "inv r \<Longrightarrow> get (ins i q v r) j p = (if j = i \<and> p = q then Some v else get r j p)"
    and get_del: "inv r \<Longrightarrow> get (del i q r) j p = (if j = i \<and> p = q then None else get r j p)"
    and present_iff: "inv r \<Longrightarrow> present r i \<longleftrightarrow> (\<exists>q. get r i q \<noteq> None)"
begin

text \<open>A guard undoes exactly its own registration.\<close>

lemma get_del_ins:
  "inv r \<Longrightarrow> get r i q = None \<Longrightarrow> get (del i q (ins i q v r)) j p = get r j p"
  by (simp add: get_del inv_ins get_ins)

lemma present_del:
  "inv r \<Longrightarrow> present (del i q r) j \<longleftrightarrow> (\<exists>p. \<not> (j = i \<and> p = q) \<and> get r j p \<noteq> None)"
  by (auto simp: present_iff inv_del get_del)

lemma present_ins: "inv r \<Longrightarrow> present (ins i q v r) j \<longleftrightarrow> j = i \<or> present r j"
  by (auto simp: present_iff inv_ins get_ins)

text \<open>The registry after a sequence of registrations and guard drops, and what it holds: the
  registrations that no later drop removed.\<close>

fun apply_event :: "('i, 'v) reg_event \<Rightarrow> 'r \<Rightarrow> 'r" where
  "apply_event (Reg i q v) r = ins i q v r"
| "apply_event (Unreg i q) r = del i q r"

definition replay :: "('i, 'v) reg_event list \<Rightarrow> 'r" where
  "replay evs = fold apply_event evs emp"

lemma replay_snoc [simp]: "replay (evs @ [e]) = apply_event e (replay evs)"
  by (simp add: replay_def)

lemma inv_apply_event: "inv r \<Longrightarrow> inv (apply_event e r)"
  by (cases e) (simp_all add: inv_ins inv_del)

lemma inv_replay: "inv (replay evs)"
  by (induction evs rule: rev_induct) (simp_all add: inv_apply_event, simp add: replay_def inv_emp)

text \<open>The registrations that no later event of the same connection supersedes.\<close>

fun live_after :: "('i, 'v) reg_event list \<Rightarrow> 'i \<Rightarrow> u64 \<Rightarrow> 'v option" where
  "live_after [] i q = None"
| "live_after (Reg j p v # evs) i q =
     (case live_after evs i q of
        Some w \<Rightarrow> Some w
      | None \<Rightarrow> if j = i \<and> p = q \<and> Unreg i q \<notin> set evs then Some v else None)"
| "live_after (Unreg j p # evs) i q = live_after evs i q"

lemma live_after_snoc:
  "live_after (evs @ [e]) i q = (case e of
     Reg j p v \<Rightarrow> if j = i \<and> p = q then Some v else live_after evs i q
   | Unreg j p \<Rightarrow> if j = i \<and> p = q then None else live_after evs i q)"
proof (induction evs)
  case Nil
  show ?case by (cases e) auto
next
  case (Cons e' evs)
  then show ?case by (cases e; cases e') (auto split: option.splits if_splits)
qed

lemma get_replay: "get (replay evs) i q = live_after evs i q"
proof (induction evs rule: rev_induct)
  case Nil
  show ?case by (simp add: replay_def get_emp)
next
  case (snoc e evs)
  then show ?case
    by (cases e) (auto simp: live_after_snoc get_ins get_del inv_replay)
qed

lemma present_replay: "present (replay evs) i \<longleftrightarrow> (\<exists>q. live_after evs i q \<noteq> None)"
  by (simp add: present_iff inv_replay get_replay)

end

section \<open>The client registry\<close>

text \<open>A connection is a handle the library hands out; a number stands for it.\<close>

type_synonym connection = nat

record conn_entry =
  ce_nonce :: u128
  last_seen :: instant
  ce_connection :: connection
  client_key :: "string option"

type_synonym registry = "(endpoint_id \<times> (u64 \<times> conn_entry) list) list"

definition entry_or_default :: "'k \<Rightarrow> ('k \<times> 'v list) list \<Rightarrow> 'v list" where
  "entry_or_default k m = (case map_of m k of Some v \<Rightarrow> v | None \<Rightarrow> [])"

definition registry_insert :: "endpoint_id \<Rightarrow> u64 \<Rightarrow> conn_entry \<Rightarrow> registry \<Rightarrow> registry" where
  "registry_insert i q e reg =
     AList.update i (AList.update q e (entry_or_default i reg)) reg"

definition conn_guard_drop :: "endpoint_id \<Rightarrow> u64 \<Rightarrow> registry \<Rightarrow> registry" where
  "conn_guard_drop remote_id conn_seq reg =
     (case map_of reg remote_id of
        None \<Rightarrow> reg
      | Some per \<Rightarrow>
          let per' = AList.delete conn_seq per in
          if per' = [] then AList.delete remote_id reg else AList.update remote_id per' reg)"

definition registry_get :: "registry \<Rightarrow> endpoint_id \<Rightarrow> u64 \<Rightarrow> conn_entry option" where
  "registry_get reg i q = map_of (entry_or_default i reg) q"

definition registry_present :: "registry \<Rightarrow> endpoint_id \<Rightarrow> bool" where
  "registry_present reg i \<longleftrightarrow> map_of reg i \<noteq> None"

text \<open>The keys are distinct on both levels, and no id is kept without a connection.\<close>

definition wf_registry :: "registry \<Rightarrow> bool" where
  "wf_registry reg \<longleftrightarrow> distinct (map fst reg) \<and>
     list_all (\<lambda>(i, per). per \<noteq> [] \<and> distinct (map fst per)) reg"

text \<open>\<^verbatim>\<open>try_register\<close>: the entries of the same id with another nonce that are still
  alive, or the registry with the new entry. \<^verbatim>\<open>or_default\<close> on an id that is not there
  adds an empty map first, which the insertion then fills.\<close>

definition live_duplicates :: "instant \<Rightarrow> u128 \<Rightarrow> (u64 \<times> conn_entry) list \<Rightarrow> connection list" where
  "live_duplicates now nonce per =
     map (\<lambda>(q, e). ce_connection e)
       (filter (\<lambda>(q, e). ce_nonce e \<noteq> nonce \<and> now - last_seen e < LIVENESS_WINDOW) per)"

definition try_register ::
  "instant \<Rightarrow> registry \<Rightarrow> endpoint_id \<Rightarrow> u64 \<Rightarrow> u128 \<Rightarrow> connection \<Rightarrow> string option \<Rightarrow>
   (connection list + unit) \<times> registry" where
  "try_register now reg remote_id conn_seq nonce conn key =
     (let per = entry_or_default remote_id reg;
          reg = (if map_of reg remote_id = None then AList.update remote_id [] reg else reg);
          dups = live_duplicates now nonce per in
      if dups \<noteq> [] then (Inl dups, reg)
      else (Inr (), registry_insert remote_id conn_seq
             \<lparr>ce_nonce = nonce, last_seen = now, ce_connection = conn, client_key = key\<rparr> reg))"

text \<open>The liveness refresh of a heartbeat.\<close>

definition refresh :: "instant \<Rightarrow> endpoint_id \<Rightarrow> u64 \<Rightarrow> registry \<Rightarrow> registry" where
  "refresh now remote_id conn_seq reg =
     (case map_of reg remote_id of
        None \<Rightarrow> reg
      | Some per \<Rightarrow>
          (case map_of per conn_seq of
             None \<Rightarrow> reg
           | Some e \<Rightarrow> AList.update remote_id (AList.update conn_seq (e\<lparr>last_seen := now\<rparr>) per) reg))"

section \<open>The registry of inbound bridges\<close>

type_synonym bridge_registry = "(endpoint_id \<times> u64 list) list"

definition bridge_insert :: "endpoint_id \<Rightarrow> u64 \<Rightarrow> bridge_registry \<Rightarrow> bridge_registry" where
  "bridge_insert i q reg = AList.update i (List.insert q (entry_or_default i reg)) reg"

definition bridge_guard_drop :: "endpoint_id \<Rightarrow> u64 \<Rightarrow> bridge_registry \<Rightarrow> bridge_registry" where
  "bridge_guard_drop remote_id conn_seq reg =
     (case map_of reg remote_id of
        None \<Rightarrow> reg
      | Some seqs \<Rightarrow>
          let seqs' = removeAll conn_seq seqs in
          if seqs' = [] then AList.delete remote_id reg else AList.update remote_id seqs' reg)"

definition bridge_get :: "bridge_registry \<Rightarrow> endpoint_id \<Rightarrow> u64 \<Rightarrow> unit option" where
  "bridge_get reg i q = (if q \<in> set (entry_or_default i reg) then Some () else None)"

definition bridge_present :: "bridge_registry \<Rightarrow> endpoint_id \<Rightarrow> bool" where
  "bridge_present reg i \<longleftrightarrow> map_of reg i \<noteq> None"

definition wf_bridge_registry :: "bridge_registry \<Rightarrow> bool" where
  "wf_bridge_registry reg \<longleftrightarrow> distinct (map fst reg) \<and> list_all (\<lambda>(i, seqs). seqs \<noteq> []) reg"

section \<open>Both provide the interface\<close>

lemma map_of_list_all: "list_all P m \<Longrightarrow> map_of m k = Some v \<Longrightarrow> P (k, v)"
  by (auto simp: list_all_iff dest: map_of_SomeD)

lemma list_all_update:
  "distinct (map fst m) \<Longrightarrow> list_all P m \<Longrightarrow> P (k, v) \<Longrightarrow> list_all P (AList.update k v m)"
  by (induction m) auto

lemma list_all_delete: "list_all P m \<Longrightarrow> list_all P (AList.delete k m)"
  by (simp add: AList.delete_eq list_all_iff)

lemma list_all_per: "list_all (\<lambda>(i, per). Q per) m \<Longrightarrow> map_of m k = Some per \<Longrightarrow> Q per"
  by (auto simp: list_all_iff dest: map_of_SomeD)

lemma update_not_Nil [simp]: "AList.update k v m \<noteq> []"
  by (cases m) auto

lemma entry_or_default_update [simp]:
  "entry_or_default j (AList.update i v m) = (if j = i then v else entry_or_default j m)"
  by (simp add: entry_or_default_def AList.update_conv')

lemma entry_or_default_delete [simp]:
  "entry_or_default j (AList.delete i m) = (if j = i then [] else entry_or_default j m)"
  by (simp add: entry_or_default_def AList.delete_conv')

lemma entry_or_default_Some: "map_of m i = Some per \<Longrightarrow> entry_or_default i m = per"
  by (simp add: entry_or_default_def)

lemma distinct_entry: "wf_registry reg \<Longrightarrow> distinct (map fst (entry_or_default i reg))"
  by (auto simp: wf_registry_def entry_or_default_def split: option.split dest: list_all_per)

lemma wf_registry_insert: "wf_registry reg \<Longrightarrow> wf_registry (registry_insert i q e reg)"
  using distinct_entry [of reg i] unfolding wf_registry_def registry_insert_def
  by (auto intro!: AList.distinct_update list_all_update)

lemma wf_conn_guard_drop: "wf_registry reg \<Longrightarrow> wf_registry (conn_guard_drop i q reg)"
  using distinct_entry [of reg i] unfolding wf_registry_def conn_guard_drop_def
  by (auto simp: Let_def entry_or_default_Some split: option.split
      intro!: AList.distinct_update AList.distinct_delete list_all_update list_all_delete)

lemma registry_get_insert:
  "registry_get (registry_insert i q e reg) j p = (if j = i \<and> p = q then Some e else registry_get reg j p)"
  by (simp add: registry_get_def registry_insert_def AList.update_conv')

lemma registry_get_drop:
  "registry_get (conn_guard_drop i q reg) j p = (if j = i \<and> p = q then None else registry_get reg j p)"
proof (cases "map_of reg i")
  case (Some per)
  then have "map_of (AList.delete q per) p = (if p = q then None else map_of per p)"
    by (simp add: AList.delete_conv')
  then show ?thesis
    using Some by (auto simp: registry_get_def conn_guard_drop_def Let_def entry_or_default_Some)
qed (simp add: registry_get_def conn_guard_drop_def entry_or_default_def)

lemma registry_present_iff: "wf_registry reg \<Longrightarrow> registry_present reg i \<longleftrightarrow> (\<exists>q. registry_get reg i q \<noteq> None)"
proof (cases "map_of reg i")
  case (Some per)
  assume "wf_registry reg"
  then have "list_all (\<lambda>(i, per). per \<noteq> [] \<and> distinct (map fst per)) reg"
    by (simp only: wf_registry_def)
  then have "per \<noteq> [] \<and> distinct (map fst per)" using Some by (rule list_all_per)
  then obtain q e rest where "per = (q, e) # rest" by (cases per) auto
  with Some have "registry_get reg i q = Some e" "registry_present reg i"
    by (simp_all add: registry_get_def entry_or_default_Some registry_present_def)
  then show ?thesis by blast
qed (simp add: registry_present_def registry_get_def entry_or_default_def)

interpretation conns: guarded_registry "[]" registry_insert conn_guard_drop registry_get registry_present wf_registry
proof unfold_locales
  show "wf_registry []" "registry_get [] i q = None" for i q
    by (simp_all add: wf_registry_def registry_get_def entry_or_default_def)
qed (rule wf_registry_insert wf_conn_guard_drop registry_get_insert registry_get_drop registry_present_iff,
  assumption?)+

lemma insert_not_Nil [simp]: "List.insert q qs \<noteq> []"
  by (metis List.set_insert insert_not_empty set_empty)

lemma wf_bridge_insert: "wf_bridge_registry r \<Longrightarrow> wf_bridge_registry (bridge_insert i q r)"
  unfolding wf_bridge_registry_def bridge_insert_def
  by (intro conjI AList.distinct_update list_all_update) simp_all

lemma wf_bridge_guard_drop: "wf_bridge_registry r \<Longrightarrow> wf_bridge_registry (bridge_guard_drop i q r)"
  unfolding wf_bridge_registry_def bridge_guard_drop_def Let_def
  by (auto split: option.split intro!: AList.distinct_update AList.distinct_delete list_all_update list_all_delete)

lemma bridge_get_insert:
  "bridge_get (bridge_insert i q r) j p = (if j = i \<and> p = q then Some () else bridge_get r j p)"
  by (simp add: bridge_get_def bridge_insert_def)

lemma bridge_get_drop:
  "bridge_get (bridge_guard_drop i q r) j p = (if j = i \<and> p = q then None else bridge_get r j p)"
proof (cases "map_of r i")
  case (Some seqs)
  have "p \<in> set (removeAll q seqs) \<longleftrightarrow> p \<noteq> q \<and> p \<in> set seqs" by auto
  moreover have "p \<in> set seqs \<Longrightarrow> p = q" if "removeAll q seqs = []"
    using that set_removeAll [of q seqs] by auto
  ultimately show ?thesis
    using Some by (simp add: bridge_get_def bridge_guard_drop_def Let_def entry_or_default_Some)
qed (simp add: bridge_get_def bridge_guard_drop_def entry_or_default_def)

lemma bridge_present_iff: "wf_bridge_registry r \<Longrightarrow> bridge_present r i \<longleftrightarrow> (\<exists>q. bridge_get r i q \<noteq> None)"
proof (cases "map_of r i")
  case (Some seqs)
  assume "wf_bridge_registry r"
  then have "list_all (\<lambda>(i, seqs). seqs \<noteq> []) r" by (simp only: wf_bridge_registry_def)
  then have "seqs \<noteq> []" using Some by (rule list_all_per)
  then have "bridge_get r i (hd seqs) \<noteq> None" "bridge_present r i"
    using Some by (simp_all add: bridge_get_def entry_or_default_Some bridge_present_def)
  then show ?thesis by blast
qed (simp add: bridge_present_def bridge_get_def entry_or_default_def)

interpretation bridge_conns: guarded_registry "[]" "\<lambda>i q (_ :: unit). bridge_insert i q" bridge_guard_drop
    bridge_get bridge_present wf_bridge_registry
proof unfold_locales
  show "wf_bridge_registry []" "bridge_get [] i q = None" for i q
    by (simp_all add: wf_bridge_registry_def bridge_get_def entry_or_default_def)
  show "bridge_get (bridge_insert i q r) j p = (if j = i \<and> p = q then Some v else bridge_get r j p)"
    for i q r j p and v :: unit
    by (simp add: bridge_get_insert)
qed (rule wf_bridge_insert wf_bridge_guard_drop bridge_get_drop bridge_present_iff, assumption?)+

section \<open>Registration\<close>

lemma update_twice: "AList.update i v (AList.update i w m) = AList.update i v m"
  by (induction m) auto

lemma registry_insert_default:
  "registry_insert i q e (if map_of reg i = None then AList.update i [] reg else reg) = registry_insert i q e reg"
  by (simp add: registry_insert_def entry_or_default_def update_twice AList.update_conv')

lemma live_duplicates_Nil_iff:
  "live_duplicates now nonce per = [] \<longleftrightarrow>
     \<not> (\<exists>(q, e) \<in> set per. ce_nonce e \<noteq> nonce \<and> now - last_seen e < LIVENESS_WINDOW)"
  by (auto simp: live_duplicates_def filter_empty_conv)

lemma registry_get_entry:
  "wf_registry reg \<Longrightarrow> registry_get reg i q = Some e \<longleftrightarrow> (q, e) \<in> set (entry_or_default i reg)"
  unfolding registry_get_def by (rule map_of_eq_Some_iff [OF distinct_entry])

lemma try_register_cases:
  assumes "wf_registry reg"
  shows "try_register now reg i q nonce conn key =
    (let dups = live_duplicates now nonce (entry_or_default i reg) in
     if dups \<noteq> [] then (Inl dups, reg)
     else (Inr (), registry_insert i q
       \<lparr>ce_nonce = nonce, last_seen = now, ce_connection = conn, client_key = key\<rparr> reg))"
proof (cases "map_of reg i")
  case None
  then have "live_duplicates now nonce (entry_or_default i reg) = []"
    by (simp add: entry_or_default_def live_duplicates_def)
  then show ?thesis by (simp add: try_register_def Let_def registry_insert_default)
qed (simp add: try_register_def Let_def)

text \<open>A registration either adds its entry or reports the connections of the live entries of
  the same id with another nonce, and then leaves the registry as it was.\<close>

lemma set_live_duplicates:
  "wf_registry reg \<Longrightarrow> set (live_duplicates now nonce (entry_or_default i reg)) =
     {ce_connection e |e q. registry_get reg i q = Some e \<and> ce_nonce e \<noteq> nonce \<and>
        now - last_seen e < LIVENESS_WINDOW}"
  by (auto simp: live_duplicates_def registry_get_entry image_iff)

lemma refresh_get:
  "registry_get (refresh now i q reg) j p =
     (if j = i \<and> p = q then map_option (\<lambda>e. e\<lparr>last_seen := now\<rparr>) (registry_get reg i q)
      else registry_get reg j p)"
proof (cases "map_of reg i")
  case (Some per)
  show ?thesis
  proof (cases "map_of per q")
    case None
    with Some show ?thesis by (simp add: refresh_def registry_get_def entry_or_default_Some)
  next
    case (Some e)
    with \<open>map_of reg i = Some per\<close> show ?thesis
      by (simp add: refresh_def registry_get_def entry_or_default_Some AList.update_conv')
  qed
qed (simp add: refresh_def registry_get_def entry_or_default_def)

lemma wf_refresh: "wf_registry reg \<Longrightarrow> wf_registry (refresh now i q reg)"
proof (cases "map_of reg i")
  case (Some per)
  assume wf: "wf_registry reg"
  have "distinct (map fst per)" using distinct_entry [OF wf, of i] Some by (simp add: entry_or_default_Some)
  then show ?thesis
    using wf Some unfolding wf_registry_def refresh_def
    by (auto split: option.split intro!: AList.distinct_update list_all_update)
qed (simp add: refresh_def)

lemma wf_try_register:
  "wf_registry reg \<Longrightarrow> wf_registry (snd (try_register now reg i q nonce conn key))"
  by (simp add: try_register_cases Let_def wf_registry_insert)

section \<open>Properties\<close>

text \<open>C9: Registering a connection is a check and an insertion in one. If some live entry of the
  same id carries another instance nonce, the connections of exactly those entries are
  reported and nothing is registered. Otherwise the connection is registered next to those
  already there, and every entry of the id with another nonce is stale.\<close>

theorem try_register_detects_duplicates:
  assumes "wf_registry reg"
  shows "case try_register now reg i q nonce conn key of
      (Inl dups, reg') \<Rightarrow> dups \<noteq> [] \<and> reg' = reg \<and>
        set dups = {ce_connection e |e p. registry_get reg i p = Some e \<and> ce_nonce e \<noteq> nonce \<and>
          now - last_seen e < LIVENESS_WINDOW}
    | (Inr _, reg') \<Rightarrow> wf_registry reg' \<and>
        (\<forall>j p. registry_get reg' j p = (if j = i \<and> p = q
           then Some \<lparr>ce_nonce = nonce, last_seen = now, ce_connection = conn, client_key = key\<rparr>
           else registry_get reg j p)) \<and>
        \<not> (\<exists>p e. registry_get reg i p = Some e \<and> ce_nonce e \<noteq> nonce \<and>
             now - last_seen e < LIVENESS_WINDOW)"
proof -
  have "live_duplicates now nonce (entry_or_default i reg) = [] \<longleftrightarrow>
      \<not> (\<exists>p e. registry_get reg i p = Some e \<and> ce_nonce e \<noteq> nonce \<and> now - last_seen e < LIVENESS_WINDOW)"
    using set_live_duplicates [OF assms, of now nonce i] by (auto simp flip: set_empty)
  then show ?thesis
    using assms set_live_duplicates [OF assms, of now nonce i]
    by (simp add: try_register_cases Let_def wf_registry_insert registry_get_insert)
qed

theorem try_register_detects_duplicates_witness:
  "let e = \<lparr>ce_nonce = 7, last_seen = from_secs 10, ce_connection = 3, client_key = None\<rparr>;
       reg = [(''id'', [(0, e)])] in
   try_register (from_secs 12) reg ''id'' 1 7 4 None =
     (Inr (), [(''id'', [(0, e), (1, \<lparr>ce_nonce = 7, last_seen = from_secs 12, ce_connection = 4,
        client_key = None\<rparr>)])]) \<and>
   fst (try_register (from_secs 12) reg ''id'' 1 8 4 None) = Inl [3] \<and>
   fst (try_register (from_secs 300) reg ''id'' 1 8 4 None) = Inr ()"
proof -
  let ?e = "\<lparr>ce_nonce = 7, last_seen = from_secs 10, ce_connection = 3, client_key = None\<rparr>"
  let ?reg = "[(''id'', [(0 :: u64, ?e)])]"
  have wf: "wf_registry ?reg" by (simp add: wf_registry_def)
  note d = try_register_def Let_def live_duplicates_def entry_or_default_def registry_insert_def time_defs
  have "fst (try_register (from_secs 12) ?reg ''id'' 1 8 4 None) = Inl [3]" by (simp add: d)
  with try_register_detects_duplicates [OF wf, where now = "from_secs 12" and i = "''id''"
      and q = 1 and nonce = 8 and conn = 4 and key = None] show ?thesis
    by (simp add: d)
qed

end
