(* ===== verification/Heartbeat.thy ===== *)
theory Heartbeat
  imports Registry
begin

text \<open>
  The two ends of the heartbeat on the control stream: \<^verbatim>\<open>client_heartbeat_loop\<close> of
  \<^verbatim>\<open>src/crates/flextunnel-core/src/proxy/client.rs\<close>, shared by clients and bridges, and
  \<^verbatim>\<open>server_heartbeat_loop\<close> of \<^verbatim>\<open>proxy/server.rs\<close>. A loop runs over a list of rounds,
  each with what the clock and the environment did in it; \<open>None\<close> after the last round
  means that the loop is still running.
\<close>

section \<open>The cadence\<close>

text \<open>The wait for the next beat. Times are relative to the last beat; \<open>flips\<close> are the changes
  of the background flag in order, each with the time it is seen. A change before the
  deadline recomputes the deadline; a deadline in the past fires at once. When the sender of
  the flag is gone there is no further change.\<close>

definition beat_interval :: "bool \<Rightarrow> duration" where
  "beat_interval background = (if background then HEARTBEAT_INTERVAL_IDLE else HEARTBEAT_INTERVAL)"

fun beat_wait :: "bool \<Rightarrow> duration \<Rightarrow> (duration \<times> bool) list \<Rightarrow> duration \<times> duration \<times> bool" where
  "beat_wait background now [] =
     (let interval = beat_interval background in (max now interval, interval, background))"
| "beat_wait background now ((t, b) # flips) =
     (let interval = beat_interval background; deadline = max now interval in
      if t < deadline then beat_wait b (max now t) flips else (deadline, interval, background))"

section \<open>The client's end\<close>

text \<open>What happens in a round: the changes of the background flag while it waits, and whether
  the deadline for the acknowledgement passes.\<close>

record client_round =
  cr_flips :: "(duration \<times> bool) list"
  cr_ack_times_out :: bool

definition lift_net :: "'a io \<Rightarrow> stream \<Rightarrow> 'a proxy_result \<times> stream" where
  "lift_net m s = (case m s of (r, s') \<Rightarrow> (net_result r, s'))"

definition client_beat ::
  "(control_msg \<Rightarrow> msg + bytes) \<Rightarrow> (bytes \<Rightarrow> msg + control_msg) \<Rightarrow> client_round \<Rightarrow> u64 \<Rightarrow>
   stream \<Rightarrow> unit proxy_result \<times> stream" where
  "client_beat to_vec from_slice rd seq s =
     (case encode_control to_vec (Heartbeat seq) of
        Inl e \<Rightarrow> (Inl (Network e), s)
      | Inr data \<Rightarrow>
          (case write_message data s of
             (Inl e, s) \<Rightarrow> (Inl (Network e), s)
           | (Inr _, s) \<Rightarrow>
               if cr_ack_times_out rd then (Inl (ConnectionLost (''heartbeat ack timed out'', [])), s)
               else (case read_message MAX_CONTROL_MSG_SIZE s of
                   (Inl e, s) \<Rightarrow>
                     (Inl (ConnectionLost (''control stream closed: {e}'', snd (err_msg e))), s)
                 | (Inr data, s) \<Rightarrow>
                     (case decode_control from_slice data of
                        Inl e \<Rightarrow> (Inl (Network e), s)
                      | Inr (HeartbeatAck ack) \<Rightarrow>
                          if ack = seq then (Inr (), s)
                          else (Inl (ConnectionLost (''expected HeartbeatAck({seq}), got {other:?}'',
                                 [FNat (unat seq)])), s)
                      | Inr (Heartbeat _) \<Rightarrow>
                          (Inl (ConnectionLost (''expected HeartbeatAck({seq}), got {other:?}'',
                             [FNat (unat seq)])), s)))))"

fun client_heartbeat_loop ::
  "(control_msg \<Rightarrow> msg + bytes) \<Rightarrow> (bytes \<Rightarrow> msg + control_msg) \<Rightarrow> client_round list \<Rightarrow> bool \<Rightarrow> u64 \<Rightarrow>
   stream \<Rightarrow> proxy_error option \<times> u64 \<times> stream" where
  "client_heartbeat_loop to_vec from_slice [] background seq s = (None, seq, s)"
| "client_heartbeat_loop to_vec from_slice (rd # rds) background seq s =
     (case beat_wait background 0 (cr_flips rd) of (_, _, background') \<Rightarrow>
      let seq = seq + 1 in
      case client_beat to_vec from_slice rd seq s of
        (Inl e, s) \<Rightarrow> (Some e, seq, s)
      | (Inr _, s) \<Rightarrow> client_heartbeat_loop to_vec from_slice rds background' seq s)"

section \<open>The server's end\<close>

text \<open>What happens in a round: whether the liveness window passes without a message, and the
  time at which a message is handled.\<close>

record server_round =
  sr_times_out :: bool
  sr_now :: instant

definition server_beat ::
  "(control_msg \<Rightarrow> msg + bytes) \<Rightarrow> (bytes \<Rightarrow> msg + control_msg) \<Rightarrow> (endpoint_id \<times> u64) option \<Rightarrow>
   server_round \<Rightarrow> registry \<Rightarrow> stream \<Rightarrow> unit proxy_result \<times> registry \<times> stream" where
  "server_beat to_vec from_slice client_entry rd reg s =
     (if sr_times_out rd
      then (Inl (ConnectionLost (''heartbeat liveness window elapsed'', [])), reg, s)
      else case read_message MAX_CONTROL_MSG_SIZE s of
        (Inl e, s) \<Rightarrow> (Inl (ConnectionLost (''control stream closed: {e}'', snd (err_msg e))), reg, s)
      | (Inr data, s) \<Rightarrow>
          (case decode_control from_slice data of
             Inl e \<Rightarrow> (Inl (Network e), reg, s)
           | Inr (Heartbeat seq) \<Rightarrow>
               let reg = (case client_entry of
                     Some (remote_id, conn_seq) \<Rightarrow> refresh (sr_now rd) remote_id conn_seq reg
                   | None \<Rightarrow> reg) in
               (case encode_control to_vec (HeartbeatAck seq) of
                  Inl e \<Rightarrow> (Inl (Network e), reg, s)
                | Inr data \<Rightarrow> (case write_message data s of
                      (Inl e, s) \<Rightarrow> (Inl (Network e), reg, s)
                    | (Inr _, s) \<Rightarrow> (Inr (), reg, s)))
           | Inr (HeartbeatAck seq) \<Rightarrow>
               (Inl (ConnectionLost (''unexpected control message from client: {other:?}'',
                  [FNat (unat seq)])), reg, s)))"

fun server_heartbeat_loop ::
  "(control_msg \<Rightarrow> msg + bytes) \<Rightarrow> (bytes \<Rightarrow> msg + control_msg) \<Rightarrow> (endpoint_id \<times> u64) option \<Rightarrow>
   server_round list \<Rightarrow> registry \<Rightarrow> stream \<Rightarrow> proxy_error option \<times> registry \<times> stream" where
  "server_heartbeat_loop to_vec from_slice client_entry [] reg s = (None, reg, s)"
| "server_heartbeat_loop to_vec from_slice client_entry (rd # rds) reg s =
     (case server_beat to_vec from_slice client_entry rd reg s of
        (Inl e, reg, s) \<Rightarrow> (Some e, reg, s)
      | (Inr _, reg, s) \<Rightarrow> server_heartbeat_loop to_vec from_slice client_entry rds reg s)"

section \<open>When beats are sent\<close>

text \<open>Whatever the flag does, a beat goes out between the two intervals after the last one: at
  once when the flag turns to foreground after the shorter interval has passed, and never
  later than the longer one.\<close>

lemma beat_interval_bounds:
  "HEARTBEAT_INTERVAL \<le> beat_interval b" "beat_interval b \<le> HEARTBEAT_INTERVAL_IDLE"
  by (simp_all add: beat_interval_def time_defs)

lemma beat_wait_bounds:
  "beat_wait b now flips = (t, interval, b') \<Longrightarrow> now \<le> HEARTBEAT_INTERVAL_IDLE \<Longrightarrow>
     max now HEARTBEAT_INTERVAL \<le> t \<and> t \<le> HEARTBEAT_INTERVAL_IDLE \<and> interval = beat_interval b' \<and>
     interval \<le> t"
proof (induction b now flips rule: beat_wait.induct)
  case (1 b now)
  then show ?case using beat_interval_bounds [of b] by (auto simp: Let_def)
next
  case (2 b now u b2 flips)
  show ?case
  proof (cases "u < max now (beat_interval b)")
    case True
    with "2.prems" have "beat_wait b2 (max now u) flips = (t, interval, b')" by (simp add: Let_def)
    moreover have "max now u \<le> HEARTBEAT_INTERVAL_IDLE"
      using True "2.prems"(2) beat_interval_bounds(2) [of b] by simp
    ultimately show ?thesis using "2.IH" [OF refl refl True] by simp
  next
    case False
    with "2.prems" show ?thesis using beat_interval_bounds [of b] by (auto simp: Let_def)
  qed
qed

lemma beat_wait_foreground:
  assumes "HEARTBEAT_INTERVAL \<le> t" "t < HEARTBEAT_INTERVAL_IDLE"
  shows "beat_wait True 0 [(t, False)] = (t, HEARTBEAT_INTERVAL, False)"
  using assms by (simp add: Let_def beat_interval_def)

section \<open>The two ends in step\<close>

text \<open>The documented behaviour of the JSON coding that the exchange relies on: a control
  message is read back from its own encoding, which fits in a control frame.\<close>

definition control_json :: "(control_msg \<Rightarrow> msg + bytes) \<Rightarrow> (bytes \<Rightarrow> msg + control_msg) \<Rightarrow> bool" where
  "control_json to_vec from_slice \<longleftrightarrow> (\<forall>m. \<exists>bs. to_vec m = Inr bs \<and> from_slice bs = Inr m \<and>
     length bs \<le> MAX_CONTROL_MSG_SIZE)"

definition control_frame :: "(control_msg \<Rightarrow> msg + bytes) \<Rightarrow> control_msg \<Rightarrow> bytes" where
  "control_frame to_vec m = enc_message (case to_vec m of Inr bs \<Rightarrow> bs | Inl _ \<Rightarrow> [])"

text \<open>The beats numbered from \<open>seq + 1\<close>.\<close>

definition beats :: "u64 \<Rightarrow> nat \<Rightarrow> u64 list" where
  "beats seq n = map (\<lambda>k. seq + of_nat k) [1..<Suc n]"

lemma beats_0 [simp]: "beats seq 0 = []"
  by (simp add: beats_def)

lemma beats_Suc: "beats seq (Suc n) = (seq + 1) # beats (seq + 1) n"
proof -
  have "[1..<Suc (Suc n)] = 1 # map Suc [1..<Suc n]"
    by (simp add: map_Suc_upt upt_conv_Cons)
  then show ?thesis by (simp only: beats_def list.map map_map comp_def) (simp add: algebra_simps)
qed

lemma control_json_frame:
  assumes "control_json to_vec from_slice"
  obtains bs where "to_vec m = Inr bs" "from_slice bs = Inr m" "frame_ok MAX_CONTROL_MSG_SIZE bs"
    "control_frame to_vec m = enc_message bs"
proof -
  from assms obtain bs where bs: "to_vec m = Inr bs" "from_slice bs = Inr m"
      "length bs \<le> MAX_CONTROL_MSG_SIZE"
    unfolding control_json_def by blast
  then have "frame_ok MAX_CONTROL_MSG_SIZE bs" by (simp add: frame_ok_def MAX_CONTROL_MSG_SIZE_def)
  with bs that show ?thesis by (simp add: control_frame_def)
qed

lemma client_beat_ok:
  assumes "control_json to_vec from_slice" "tx_open s" "\<not> cr_ack_times_out rd"
    and "rx s = control_frame to_vec (HeartbeatAck seq) @ rest"
  shows "client_beat to_vec from_slice rd seq s =
    (Inr (), s\<lparr>tx := tx s @ control_frame to_vec (Heartbeat seq), rx := rest\<rparr>)"
proof -
  obtain bs where bs: "to_vec (Heartbeat seq) = Inr bs" "frame_ok MAX_CONTROL_MSG_SIZE bs"
      "control_frame to_vec (Heartbeat seq) = enc_message bs"
    using assms(1) by (rule control_json_frame)
  obtain as where as: "from_slice as = Inr (HeartbeatAck seq)" "frame_ok MAX_CONTROL_MSG_SIZE as"
      "control_frame to_vec (HeartbeatAck seq) = enc_message as"
    using assms(1) by (rule control_json_frame)
  let ?s = "s\<lparr>tx := tx s @ enc_message bs\<rparr>"
  have "write_message bs s = (Inr (), ?s)" using bs(2) assms(2) by (rule frame.wr_enc)
  moreover have "read_message MAX_CONTROL_MSG_SIZE ?s = (Inr as, ?s\<lparr>rx := rest\<rparr>)"
    using as(2) assms(4) as(3) by (intro frame.rd_enc) simp_all
  ultimately show ?thesis
    using assms(3) bs(1,3) as(1)
    by (simp add: client_beat_def encode_control_def decode_control_def json_result_def)
qed

lemma server_beat_ok:
  assumes "control_json to_vec from_slice" "tx_open s" "\<not> sr_times_out rd"
    and "rx s = control_frame to_vec (Heartbeat seq) @ rest"
  shows "server_beat to_vec from_slice entry rd reg s =
    (Inr (), (case entry of Some (i, q) \<Rightarrow> refresh (sr_now rd) i q reg | None \<Rightarrow> reg),
     s\<lparr>rx := rest, tx := tx s @ control_frame to_vec (HeartbeatAck seq)\<rparr>)"
proof -
  obtain bs where bs: "from_slice bs = Inr (Heartbeat seq)" "frame_ok MAX_CONTROL_MSG_SIZE bs"
      "control_frame to_vec (Heartbeat seq) = enc_message bs"
    using assms(1) by (rule control_json_frame)
  obtain as where as: "to_vec (HeartbeatAck seq) = Inr as" "frame_ok MAX_CONTROL_MSG_SIZE as"
      "control_frame to_vec (HeartbeatAck seq) = enc_message as"
    using assms(1) by (rule control_json_frame)
  let ?s = "s\<lparr>rx := rest\<rparr>"
  have "read_message MAX_CONTROL_MSG_SIZE s = (Inr bs, ?s)"
    using bs(2) assms(4) bs(3) by (intro frame.rd_enc) simp_all
  moreover have "write_message as ?s = (Inr (), ?s\<lparr>tx := tx ?s @ enc_message as\<rparr>)"
    using as(2) assms(2) by (intro frame.wr_enc) simp_all
  ultimately show ?thesis
    using assms(3) bs(1) as(1,3)
    by (simp add: server_beat_def encode_control_def decode_control_def json_result_def Let_def)
qed

definition ack_frames :: "(control_msg \<Rightarrow> msg + bytes) \<Rightarrow> u64 \<Rightarrow> nat \<Rightarrow> bytes" where
  "ack_frames to_vec seq n = concat (map (\<lambda>q. control_frame to_vec (HeartbeatAck q)) (beats seq n))"

definition beat_frames :: "(control_msg \<Rightarrow> msg + bytes) \<Rightarrow> u64 \<Rightarrow> nat \<Rightarrow> bytes" where
  "beat_frames to_vec seq n = concat (map (\<lambda>q. control_frame to_vec (Heartbeat q)) (beats seq n))"

lemma client_heartbeat_loop_ok:
  assumes "control_json to_vec from_slice"
  shows "tx_open s \<Longrightarrow> list_all (\<lambda>rd. \<not> cr_ack_times_out rd) rds \<Longrightarrow>
    rx s = ack_frames to_vec seq (length rds) @ rest \<Longrightarrow>
    client_heartbeat_loop to_vec from_slice rds background seq s =
      (None, seq + of_nat (length rds), s\<lparr>rx := rest, tx := tx s @ beat_frames to_vec seq (length rds)\<rparr>)"
proof (induction rds arbitrary: seq s background)
  case Nil
  then show ?case by (simp add: ack_frames_def beat_frames_def)
next
  case (Cons rd rds)
  obtain t interval b where w: "beat_wait background 0 (cr_flips rd) = (t, interval, b)"
    by (cases "beat_wait background 0 (cr_flips rd)") auto
  let ?s = "s\<lparr>tx := tx s @ control_frame to_vec (Heartbeat (seq + 1)),
    rx := ack_frames to_vec (seq + 1) (length rds) @ rest\<rparr>"
  have "client_beat to_vec from_slice rd (seq + 1) s = (Inr (), ?s)"
    using Cons.prems by (intro client_beat_ok [OF assms]) (simp_all add: ack_frames_def beats_Suc)
  moreover have "client_heartbeat_loop to_vec from_slice rds b (seq + 1) ?s =
      (None, seq + 1 + of_nat (length rds),
       ?s\<lparr>rx := rest, tx := tx ?s @ beat_frames to_vec (seq + 1) (length rds)\<rparr>)"
    using Cons.prems by (intro Cons.IH) simp_all
  ultimately show ?case
    by (simp add: w Let_def beat_frames_def beats_Suc add.assoc)
qed

lemma server_heartbeat_loop_ok:
  assumes "control_json to_vec from_slice"
  shows "tx_open s \<Longrightarrow> list_all (\<lambda>rd. \<not> sr_times_out rd) rds \<Longrightarrow>
    rx s = beat_frames to_vec seq (length rds) @ rest \<Longrightarrow>
    server_heartbeat_loop to_vec from_slice entry rds reg s =
      (None, (case entry of Some (i, q) \<Rightarrow> fold (\<lambda>rd. refresh (sr_now rd) i q) rds reg | None \<Rightarrow> reg),
       s\<lparr>rx := rest, tx := tx s @ ack_frames to_vec seq (length rds)\<rparr>)"
proof (induction rds arbitrary: seq s reg)
  case Nil
  then show ?case by (simp add: ack_frames_def beat_frames_def split: option.split)
next
  case (Cons rd rds)
  let ?s = "s\<lparr>rx := beat_frames to_vec (seq + 1) (length rds) @ rest,
    tx := tx s @ control_frame to_vec (HeartbeatAck (seq + 1))\<rparr>"
  let ?reg = "case entry of Some (i, q) \<Rightarrow> refresh (sr_now rd) i q reg | None \<Rightarrow> reg"
  have "server_beat to_vec from_slice entry rd reg s = (Inr (), ?reg, ?s)"
    using Cons.prems by (intro server_beat_ok [OF assms]) (simp_all add: beat_frames_def beats_Suc)
  moreover have "server_heartbeat_loop to_vec from_slice entry rds ?reg ?s =
      (None, (case entry of Some (i, q) \<Rightarrow> fold (\<lambda>rd. refresh (sr_now rd) i q) rds ?reg | None \<Rightarrow> ?reg),
       ?s\<lparr>rx := rest, tx := tx ?s @ ack_frames to_vec (seq + 1) (length rds)\<rparr>)"
    using Cons.prems by (intro Cons.IH) simp_all
  ultimately show ?case
    by (auto simp: ack_frames_def beats_Suc split: option.split)
qed

lemma fold_refresh_get:
  "registry_get reg i q = Some e \<Longrightarrow>
   registry_get (fold (\<lambda>rd. refresh (sr_now rd) i q) rds reg) i q =
     Some (if rds = [] then e else e\<lparr>last_seen := sr_now (last rds)\<rparr>)"
proof (induction rds arbitrary: reg e)
  case (Cons rd rds)
  then have "registry_get (refresh (sr_now rd) i q reg) i q = Some (e\<lparr>last_seen := sr_now rd\<rparr>)"
    by (simp add: refresh_get)
  from Cons.IH [OF this] show ?case by simp
qed simp

section \<open>Properties\<close>


text \<open>A codec of control messages as the witness of the JSON coding's behaviour: a tag and the
  eight bytes of the number.\<close>

definition tag_to_vec :: "control_msg \<Rightarrow> msg + bytes" where
  "tag_to_vec m = Inr (case m of Heartbeat q \<Rightarrow> 0 # be_bytes 8 (unat q)
     | HeartbeatAck q \<Rightarrow> 1 # be_bytes 8 (unat q))"

definition tag_from_slice :: "bytes \<Rightarrow> msg + control_msg" where
  "tag_from_slice bs = (case bs of [] \<Rightarrow> Inl (''eof'', [])
     | t # r \<Rightarrow> Inr (if t = 0 then Heartbeat (of_nat (be_nat r)) else HeartbeatAck (of_nat (be_nat r))))"

lemma control_json_tag: "control_json tag_to_vec tag_from_slice"
proof -
  have r: "of_nat (be_nat (be_bytes 8 (unat q))) = (q :: u64)" for q
  proof -
    have "unat q < 256 ^ 8" using unat_less(4) [of q] by simp
    then show ?thesis by (simp only: be_nat_be_bytes mod_less) simp
  qed
  have "tag_from_slice (case tag_to_vec m of Inr bs \<Rightarrow> bs) = Inr m \<and>
      length (case tag_to_vec m of Inr bs \<Rightarrow> bs) \<le> MAX_CONTROL_MSG_SIZE" for m
    by (cases m) (simp_all add: tag_to_vec_def tag_from_slice_def r MAX_CONTROL_MSG_SIZE_def)
  then show ?thesis by (simp add: control_json_def tag_to_vec_def)
qed


end
