(* ===== verification/Bridge.thy ===== *)
theory Bridge
  imports Reconnect Routed_Set Heartbeat
begin

text \<open>
  The outbound bridge, \<^verbatim>\<open>src/crates/flextunnel-core/src/proxy/bridge.rs\<close>: its configuration
  and connection slot, the bridge handshake, and the loop that maintains the upstream
  connection forever as a step relation.
\<close>

section \<open>The upstream\<close>

definition BRIDGE_HANDSHAKE_TIMEOUT :: duration where "BRIDGE_HANDSHAKE_TIMEOUT = from_secs 10"

record 'n bridge_upstream_config =
  buc_name :: string
  buc_endpoint_id :: endpoint_id
  buc_relay_urls :: "string list"
  buc_routed_set :: "'n routed_set"
  buc_domains :: "string list"
  buc_cidrs :: "string list"

record 'n bridge_upstream =
  bu_config :: "'n bridge_upstream_config"
  bu_conn :: "connection option"

definition bridge_upstream_new :: "'n bridge_upstream_config \<Rightarrow> 'n bridge_upstream" where
  "bridge_upstream_new config = \<lparr>bu_config = config, bu_conn = None\<rparr>"

definition active_conn :: "'n bridge_upstream \<Rightarrow> connection option" where
  "active_conn b = bu_conn b"

definition bridge_is_connected :: "'n bridge_upstream \<Rightarrow> bool" where
  "bridge_is_connected b \<longleftrightarrow> bu_conn b \<noteq> None"

text \<open>An endpoint address of the library: the id and the relays attached as hints.\<close>

record endpoint_addr =
  addr_id :: endpoint_id
  addr_relays :: "string list"

definition target_addr :: "'n bridge_upstream \<Rightarrow> endpoint_addr" where
  "target_addr b =
     fold (\<lambda>url addr. addr\<lparr>addr_relays := addr_relays addr @ [url]\<rparr>) (buc_relay_urls (bu_config b))
       \<lparr>addr_id = buc_endpoint_id (bu_config b), addr_relays = []\<rparr>"

section \<open>The handshake\<close>

text \<open>\<open>open_bi\<close> is the result of opening the control stream, \<open>times_out\<close> whether the deadline
  for the response passes.\<close>

definition bridge_handshake ::
  "(bridge_hello \<Rightarrow> msg + bytes) \<Rightarrow> (bytes \<Rightarrow> msg + hello_response) \<Rightarrow> msg + unit \<Rightarrow> bool \<Rightarrow>
   stream \<Rightarrow> unit proxy_result \<times> stream" where
  "bridge_handshake to_vec from_slice open_bi times_out s =
     (case open_bi of
        Inl e \<Rightarrow> (Inl (SignalingError (''Failed to open handshake stream: {e}'', snd e)), s)
      | Inr _ \<Rightarrow>
          (case encode_bridge_hello to_vec bridge_hello_new of
             Inl e \<Rightarrow> (Inl (Network e), s)
           | Inr data \<Rightarrow>
               (case write_message data s of
                  (Inl e, s) \<Rightarrow> (Inl (Network e), s)
                | (Inr _, s) \<Rightarrow>
                    if times_out
                    then (Inl (SignalingError (''timed out waiting for target-server handshake response'', [])), s)
                    else (case read_message MAX_HANDSHAKE_SIZE s of
                        (Inl e, s) \<Rightarrow> (Inl (Network e), s)
                      | (Inr data, s) \<Rightarrow>
                          (case decode_hello_response from_slice data of
                             Inl e \<Rightarrow> (Inl (Network e), s)
                           | Inr response \<Rightarrow>
                               if \<not> accepted response
                               then (Inl (AuthenticationFailed (case reject_reason response of
                                      Some r \<Rightarrow> r | None \<Rightarrow> (''unknown'', []))), s)
                               else (Inr (), s))))))"

definition bridge_establish ::
  "(bridge_hello \<Rightarrow> msg + bytes) \<Rightarrow> (bytes \<Rightarrow> msg + hello_response) \<Rightarrow> (msg + connection) option \<Rightarrow>
   msg + unit \<Rightarrow> bool \<Rightarrow> stream \<Rightarrow> connection proxy_result \<times> stream" where
  "bridge_establish to_vec from_slice connect open_bi times_out s =
     (case connect_with_timeout connect of
        Inl e \<Rightarrow> (Inl e, s)
      | Inr c \<Rightarrow> (case bridge_handshake to_vec from_slice open_bi times_out s of
            (Inl e, s) \<Rightarrow> (Inl e, s)
          | (Inr _, s) \<Rightarrow> (Inr c, s)))"

section \<open>The loop\<close>

text \<open>Where the loop of \<^verbatim>\<open>run\<close> is: waiting out a backoff, connecting, or heartbeating on
  the published connection. The steps are the loop's branches; what establishing returns and
  when the connection ends is up to the environment.\<close>

datatype bridge_pc = BBackoff duration | BConnecting | BUp

record bridge_run =
  br_conn :: "connection option"
  br_attempt :: u32
  br_pc :: bridge_pc

definition bridge_run_start :: bridge_run where
  "bridge_run_start = \<lparr>br_conn = None, br_attempt = 0, br_pc = BConnecting\<rparr>"

definition saturating_inc :: "u32 \<Rightarrow> u32" where
  "saturating_inc a = (if a = -1 then a else a + 1)"

text \<open>The top of the loop: a retry first waits.\<close>

definition loop_top :: "nat \<Rightarrow> u32 \<Rightarrow> bridge_pc" where
  "loop_top jitter attempt = (if 0 < attempt then BBackoff (calculate_backoff attempt jitter) else BConnecting)"

inductive bridge_step :: "bridge_run \<Rightarrow> bridge_run \<Rightarrow> bool" where
  waited: "br_pc s = BBackoff d \<Longrightarrow> bridge_step s (s\<lparr>br_pc := BConnecting\<rparr>)"
| failed: "br_pc s = BConnecting \<Longrightarrow> jitter \<le> RECONNECT_JITTER_MAX_MS \<Longrightarrow>
    a = saturating_inc (br_attempt s) \<Longrightarrow>
    bridge_step s (s\<lparr>br_attempt := a, br_pc := loop_top jitter a\<rparr>)"
| connected: "br_pc s = BConnecting \<Longrightarrow> bridge_step s (s\<lparr>br_conn := Some c, br_pc := BUp\<rparr>)"
| ended: "br_pc s = BUp \<Longrightarrow> jitter \<le> RECONNECT_JITTER_MAX_MS \<Longrightarrow>
    bridge_step s (s\<lparr>br_conn := None, br_attempt := 1, br_pc := loop_top jitter 1\<rparr>)"

inductive_cases bridge_stepE: "bridge_step s s'"

definition bridge_run_inv :: "bridge_run \<Rightarrow> bool" where
  "bridge_run_inv s \<longleftrightarrow> (br_conn s \<noteq> None \<longleftrightarrow> br_pc s = BUp) \<and>
     (case br_pc s of BBackoff d \<Rightarrow> from_secs 1 \<le> d \<and> d \<le> from_millis 60500 | _ \<Rightarrow> True)"

lemma calculate_backoff_bounds:
  "jitter \<le> RECONNECT_JITTER_MAX_MS \<Longrightarrow>
   from_secs 1 \<le> calculate_backoff a jitter \<and> calculate_backoff a jitter \<le> from_millis 60500"
  using reconnect.base_lo [of a] reconnect.base_hi [of a]
  by (simp add: calculate_backoff_def RECONNECT_JITTER_MAX_MS_def from_secs_def from_millis_def)

lemma loop_top_inv:
  "jitter \<le> RECONNECT_JITTER_MAX_MS \<Longrightarrow>
   loop_top jitter a \<noteq> BUp \<and>
   (case loop_top jitter a of BBackoff d \<Rightarrow> from_secs 1 \<le> d \<and> d \<le> from_millis 60500 | _ \<Rightarrow> True)"
  using calculate_backoff_bounds [of jitter a] by (simp add: loop_top_def)

lemma bridge_run_inv_step: "bridge_run_inv s \<Longrightarrow> bridge_step s s' \<Longrightarrow> bridge_run_inv s'"
  by (erule bridge_stepE) (use loop_top_inv in \<open>auto simp: bridge_run_inv_def\<close>)

interpretation bridge_runs: invariant_system "\<lambda>s. s = bridge_run_start" bridge_step bridge_run_inv
  by (unfold_locales, simp add: bridge_run_start_def bridge_run_inv_def, rule bridge_run_inv_step)

section \<open>Properties\<close>



end
