(* ===== verification/Blocklist.thy ===== *)
theory Blocklist
  imports Prelude
begin

text \<open>
  The persistent duplicate-id blocklist, \<^verbatim>\<open>src/crates/flextunnel-core/src/blocklist.rs\<close>:
  the two lists of entries, loading, adding, and the atomic rewriting of the file. The file
  system is a map from paths to contents; which of its calls fail, and what a failed write
  leaves behind, are parameters, as is the JSON coding. The writers of one file are also
  modelled as interleaved steps. The lemmas show that ids are recorded once, that a
  recorded id is still recorded after a restart, and that the file is never torn.
\<close>

section \<open>The list\<close>

record block_entry =
  be_id :: string
  be_reason :: msg
  detected_at_ms :: u64

record block_list_data =
  blocked_clients :: "block_entry list"
  conflicted_server_ids :: "block_entry list"

record block_list =
  bl_path :: string
  bl_data :: block_list_data

definition block_list_data_default :: block_list_data where
  "block_list_data_default = \<lparr>blocked_clients = [], conflicted_server_ids = []\<rparr>"

definition default_blocklist_path :: "string option \<Rightarrow> string option" where
  "default_blocklist_path home_dir =
     map_option (\<lambda>home. home @ ''/.config/flextunnel/blocklist.json'') home_dir"

definition load ::
  "(string \<Rightarrow> msg + block_list_data) \<Rightarrow> (string \<Rightarrow> io_error + string) \<Rightarrow> string \<Rightarrow> io_error + block_list" where
  "load from_str read_to_string path =
     result_bind
       (case read_to_string path of
          Inr content \<Rightarrow>
            map_err (\<lambda>e. io_other ''Failed to parse blocklist {}: {e}'' (FStr path # snd e)) (from_str content)
        | Inl e \<Rightarrow>
            if err_kind e = NotFound then Inr block_list_data_default
            else Inl (IoError (err_kind e)
              (''Failed to read blocklist {}: {e}'', FStr path # snd (err_msg e))))
       (\<lambda>data. Inr \<lparr>bl_path = path, bl_data = data\<rparr>)"

definition blocked_client_count :: "block_list \<Rightarrow> nat" where
  "blocked_client_count bl = length (blocked_clients (bl_data bl))"

definition conflicted_server_count :: "block_list \<Rightarrow> nat" where
  "conflicted_server_count bl = length (conflicted_server_ids (bl_data bl))"

definition is_client_blocked :: "block_list \<Rightarrow> string \<Rightarrow> bool" where
  "is_client_blocked bl i = list_ex (\<lambda>e. be_id e = i) (blocked_clients (bl_data bl))"

definition is_server_conflicted :: "block_list \<Rightarrow> string \<Rightarrow> bool" where
  "is_server_conflicted bl i = list_ex (\<lambda>e. be_id e = i) (conflicted_server_ids (bl_data bl))"

definition add_blocked_client ::
  "u64 \<Rightarrow> block_list \<Rightarrow> string \<Rightarrow> msg \<Rightarrow> bool \<times> block_list" where
  "add_blocked_client now_ms bl i reason =
     (if is_client_blocked bl i then (False, bl)
      else (True, bl\<lparr>bl_data := (bl_data bl)\<lparr>blocked_clients := blocked_clients (bl_data bl) @
        [\<lparr>be_id = i, be_reason = reason, detected_at_ms = now_ms\<rparr>]\<rparr>\<rparr>))"

definition add_conflicted_server ::
  "u64 \<Rightarrow> block_list \<Rightarrow> string \<Rightarrow> msg \<Rightarrow> bool \<times> block_list" where
  "add_conflicted_server now_ms bl i reason =
     (if is_server_conflicted bl i then (False, bl)
      else (True, bl\<lparr>bl_data := (bl_data bl)\<lparr>conflicted_server_ids := conflicted_server_ids (bl_data bl) @
        [\<lparr>be_id = i, be_reason = reason, detected_at_ms = now_ms\<rparr>]\<rparr>\<rparr>))"

definition to_json :: "(block_list_data \<Rightarrow> msg + string) \<Rightarrow> block_list \<Rightarrow> io_error + string" where
  "to_json to_string_pretty bl = map_err (IoError Other) (to_string_pretty (bl_data bl))"

section \<open>The atomic write\<close>

type_synonym files = "string \<Rightarrow> string option"

text \<open>What the file-system calls of one write do: \<open>None\<close> is success. A write that fails may
  leave any contents in the temporary file, and removing it may fail as well.\<close>

record fs_calls =
  create_dir_all :: "io_error option"
  fs_write :: "io_error option"
  fs_rename :: "io_error option"
  left_behind :: "string option"
  remove_fails :: bool

definition tmp_name :: "string \<Rightarrow> nat \<times> nat \<Rightarrow> string" where
  "tmp_name path = (\<lambda>(pid, seq). path @ ''.'' @ show_nat pid @ ''.'' @ show_nat seq @ ''.tmp'')"

definition has_parent :: "string \<Rightarrow> bool" where
  "has_parent path \<longleftrightarrow> path \<noteq> [] \<and> path \<noteq> ''/''"

definition remove_file :: "fs_calls \<Rightarrow> string \<Rightarrow> files \<Rightarrow> files" where
  "remove_file fs p files = (if remove_fails fs then files else files(p := None))"

definition write_atomic ::
  "fs_calls \<Rightarrow> nat \<times> nat \<Rightarrow> string \<Rightarrow> string \<Rightarrow> files \<Rightarrow> (io_error + unit) \<times> files" where
  "write_atomic fs writer path json files =
     (case (if has_parent path then create_dir_all fs else None) of
        Some e \<Rightarrow> (Inl e, files)
      | None \<Rightarrow>
          let tmp = tmp_name path writer in
          (case fs_write fs of
             Some e \<Rightarrow> (Inl e, remove_file fs tmp (files(tmp := left_behind fs)))
           | None \<Rightarrow>
               (case fs_rename fs of
                  Some e \<Rightarrow> (Inl e, remove_file fs tmp (files(tmp := Some json)))
                | None \<Rightarrow> (Inr (), files(tmp := None, path := Some json)))))"

section \<open>Interleaved writers\<close>

text \<open>
  Every writer of the file, in this process or in another, is named by its process id and
  counter. It fills its temporary file in any number of partial steps, then renames it to
  the file, or gives up and removes it. The steps of the writers interleave freely.
\<close>

datatype writer_pc = WStart | WWriting | WWritten | WDone

record writers =
  w_files :: files
  w_pc :: "nat \<times> nat \<Rightarrow> writer_pc"

inductive wstep :: "string \<Rightarrow> (nat \<times> nat \<Rightarrow> string) \<Rightarrow> writers \<Rightarrow> writers \<Rightarrow> bool" for path json where
  partial: "w_pc s w \<in> {WStart, WWriting} \<Longrightarrow>
     wstep path json s (s\<lparr>w_files := (w_files s)(tmp_name path w := Some part), w_pc := (w_pc s)(w := WWriting)\<rparr>)"
| complete: "w_pc s w \<in> {WStart, WWriting} \<Longrightarrow>
     wstep path json s (s\<lparr>w_files := (w_files s)(tmp_name path w := Some (json w)), w_pc := (w_pc s)(w := WWritten)\<rparr>)"
| rename: "w_pc s w = WWritten \<Longrightarrow>
     wstep path json s (s\<lparr>w_files := (w_files s)(path := w_files s (tmp_name path w), tmp_name path w := None),
       w_pc := (w_pc s)(w := WDone)\<rparr>)"
| give_up: "w_pc s w \<in> {WStart, WWriting, WWritten} \<Longrightarrow>
     wstep path json s (s\<lparr>w_files := (w_files s)(tmp_name path w := None), w_pc := (w_pc s)(w := WDone)\<rparr>)"
| give_up_leaving: "w_pc s w \<in> {WStart, WWriting, WWritten} \<Longrightarrow>
     wstep path json s (s\<lparr>w_pc := (w_pc s)(w := WDone)\<rparr>)"

inductive_cases wstepE: "wstep path json s s'"

text \<open>Distinct writers use distinct temporary files, none of which is the file itself.\<close>

lemma digits_before_dot:
  "list_all is_digit a \<Longrightarrow> list_all is_digit b \<Longrightarrow>
   a @ CHR ''.'' # x = b @ CHR ''.'' # y \<Longrightarrow> a = b \<and> x = y"
proof (induction a arbitrary: b)
  case Nil
  then show ?case by (cases b) (auto simp: is_digit_def)
next
  case (Cons c a)
  then show ?case by (cases b) (auto simp: is_digit_def)
qed

lemma show_nat_inj: "show_nat m = show_nat n \<longleftrightarrow> m = n"
  by (metis digits_val_show_nat)

lemma tmp_name_inj: "tmp_name path w = tmp_name path w' \<longleftrightarrow> w = w'"
proof
  assume "tmp_name path w = tmp_name path w'"
  then have "show_nat (fst w) @ CHR ''.'' # show_nat (snd w) @ CHR ''.'' # ''tmp'' =
      show_nat (fst w') @ CHR ''.'' # show_nat (snd w') @ CHR ''.'' # ''tmp''"
    by (simp add: tmp_name_def split_def)
  then show "w = w'"
    using digits_before_dot show_nat_digits show_nat_inj by (metis prod_eqI)
qed simp

lemma tmp_name_not_path [simp]: "tmp_name path w \<noteq> path"
  by (cases w) (simp add: tmp_name_def)

definition untorn :: "string \<Rightarrow> (nat \<times> nat \<Rightarrow> string) \<Rightarrow> string option \<Rightarrow> writers \<Rightarrow> bool" where
  "untorn path json init s \<longleftrightarrow>
     (w_files s path = init \<or> (\<exists>w. w_files s path = Some (json w))) \<and>
     (\<forall>w. w_pc s w = WWritten \<longrightarrow> w_files s (tmp_name path w) = Some (json w))"

lemma wstep_untorn: "wstep path json s s' \<Longrightarrow> untorn path json init s \<Longrightarrow> untorn path json init s'"
  by (erule wstepE)
    (auto simp: untorn_def tmp_name_inj eq_commute [of path "tmp_name path _"])

definition writers_init :: "string option \<Rightarrow> string \<Rightarrow> writers \<Rightarrow> bool" where
  "writers_init c path s \<longleftrightarrow> w_files s path = c \<and> (\<forall>w. w_pc s w = WStart)"

interpretation writers: invariant_system "writers_init c path" "wstep path json" "untorn path json c"
  for c path json
  by (unfold_locales, simp add: writers_init_def untorn_def, rule wstep_untorn)

section \<open>Properties\<close>

text \<open>C5: However the writers of the blocklist file interleave, crash or fail, the file itself
  always holds either what it held at the start or the complete snapshot of one writer:
  never a partial one.\<close>

theorem blocklist_file_never_torn:
  assumes "(wstep path json)\<^sup>*\<^sup>* s s'" and "\<forall>w. w_pc s w = WStart"
  shows "w_files s' path = w_files s path \<or> (\<exists>w. w_files s' path = Some (json w))"
  using writers.reachable_inv [OF _ assms(1), of "w_files s path"] assms(2)
  by (simp add: writers_init_def untorn_def)

theorem blocklist_file_never_torn_witness:
  "\<exists>s'. (wstep ''b'' (\<lambda>w. ''new''))\<^sup>*\<^sup>* \<lparr>w_files = [''b'' \<mapsto> ''old''], w_pc = (\<lambda>_. WStart)\<rparr> s' \<and>
     w_files s' (tmp_name ''b'' (1, 0)) = Some ''ne'' \<and>
     (w_files s' ''b'' = Some ''old'' \<or> (\<exists>w. w_files s' ''b'' = Some ((\<lambda>w. ''new'') w)))"
proof -
  let ?s = "\<lparr>w_files = [''b'' \<mapsto> ''old''], w_pc = (\<lambda>_ :: nat \<times> nat. WStart)\<rparr>"
  let ?s1 = "?s\<lparr>w_files := (w_files ?s)(tmp_name ''b'' (1, 0) := Some ''ne''), w_pc := (w_pc ?s)((1, 0) := WWriting)\<rparr>"
  have "(wstep ''b'' (\<lambda>w. ''new''))\<^sup>*\<^sup>* ?s ?s1"
    by (rule r_into_rtranclp, rule wstep.partial) simp
  with blocklist_file_never_torn [OF this] show ?thesis by (intro exI [of _ ?s1]) simp
qed

text \<open>A sequential write either replaces the whole file by the new snapshot and reports
  success, or reports the error of the call that failed and leaves the file as it was. In
  both cases no other file is touched except the writer's own temporary one.\<close>

theorem write_atomic_all_or_nothing:
  assumes "write_atomic fs w path json files = (r, files')"
  shows "((r = Inr () \<and> files' path = Some json \<and> files' (tmp_name path w) = None) \<or>
     ((\<exists>e. r = Inl e \<and> Some e \<in> {create_dir_all fs, fs_write fs, fs_rename fs}) \<and> files' path = files path)) \<and>
    (\<forall>p. p \<notin> {path, tmp_name path w} \<longrightarrow> files' p = files p)"
  using assms tmp_name_not_path [of path w] tmp_name_not_path [of path w, symmetric]
  by (auto simp: write_atomic_def remove_file_def Let_def split: option.splits if_splits)

theorem write_atomic_all_or_nothing_witness:
  "fst (write_atomic \<lparr>create_dir_all = None, fs_write = None, fs_rename = Some (IoError BrokenPipe ([], [])), left_behind = None,
      remove_fails = False\<rparr> (7, 0) ''b'' ''new'' [''b'' \<mapsto> ''old'']) = Inl (IoError BrokenPipe ([], [])) \<and>
   snd (write_atomic \<lparr>create_dir_all = None, fs_write = None, fs_rename = Some (IoError BrokenPipe ([], [])), left_behind = None,
      remove_fails = False\<rparr> (7, 0) ''b'' ''new'' [''b'' \<mapsto> ''old'']) ''b'' = Some ''old''"
proof -
  let ?fs = "\<lparr>create_dir_all = None, fs_write = None, fs_rename = Some (IoError BrokenPipe ([], [])), left_behind = None,
      remove_fails = False\<rparr>"
  have "fst (write_atomic ?fs (7, 0) ''b'' ''new'' [''b'' \<mapsto> ''old'']) = Inl (IoError BrokenPipe ([], []))"
    by (simp add: write_atomic_def Let_def)
  with write_atomic_all_or_nothing [OF prod.collapse [symmetric], of ?fs "(7, 0)" "''b''" "''new''" "[''b'' \<mapsto> ''old'']"]
  show ?thesis by auto
qed

text \<open>A server id recorded as conflicted stays recorded over a restart: when the list with
  the new entry is serialised and written, loading the file again gives a list that has
  that id and exactly the ids recorded before. The return value says whether the id is new.
  (The hypothesis on the JSON library is that it reads back what it wrote.)\<close>

theorem conflicted_id_survives_restart:
  assumes "\<forall>d t. to_string d = Inr t \<longrightarrow> from_str t = Inr d"
    and "add_conflicted_server now bl i reason = (new, bl')"
    and "to_json to_string bl' = Inr json"
    and "write_atomic fs w (bl_path bl') json files = (Inr (), files')"
    and "\<forall>p. read_file p = (case files' p of Some c \<Rightarrow> Inr c | None \<Rightarrow> Inl (IoError NotFound ([], [])))"
  shows "\<exists>bl''. load from_str read_file (bl_path bl) = Inr bl'' \<and>
    (\<forall>j. is_server_conflicted bl'' j \<longleftrightarrow> j = i \<or> is_server_conflicted bl j) \<and>
    (\<forall>j. is_client_blocked bl'' j \<longleftrightarrow> is_client_blocked bl j) \<and>
    (new \<longleftrightarrow> \<not> is_server_conflicted bl i) \<and> bl_path bl'' = bl_path bl"
proof -
  from assms(2) have path: "bl_path bl' = bl_path bl" and new: "new \<longleftrightarrow> \<not> is_server_conflicted bl i"
    and c: "is_server_conflicted bl' j \<longleftrightarrow> j = i \<or> is_server_conflicted bl j"
    and b: "is_client_blocked bl' j \<longleftrightarrow> is_client_blocked bl j" for j
    by (auto simp: add_conflicted_server_def is_server_conflicted_def is_client_blocked_def split: if_splits)
  from assms(3) have "to_string (bl_data bl') = Inr json" by (simp add: to_json_def)
  with assms(1) have "from_str json = Inr (bl_data bl')" by blast
  moreover have "files' (bl_path bl) = Some json"
    using assms(4) path by (auto simp: write_atomic_def Let_def split: option.splits if_splits)
  ultimately have "load from_str read_file (bl_path bl) = Inr \<lparr>bl_path = bl_path bl, bl_data = bl_data bl'\<rparr>"
    using assms(5) by (simp add: load_def)
  then show ?thesis
    using c b new by (intro exI) (auto simp: is_server_conflicted_def is_client_blocked_def)
qed

theorem conflicted_id_survives_restart_witness:
  "let d = \<lparr>blocked_clients = [], conflicted_server_ids = [\<lparr>be_id = ''srv'', be_reason = (''dup'', []), detected_at_ms = 5\<rparr>]\<rparr>;
       from_str = (\<lambda>t. if t = ''J'' then Inr d else Inl ([], []));
       read_file = (\<lambda>p. if p = ''b'' then Inr ''J'' else Inl (IoError NotFound ([], []))) in
   \<exists>bl''. load from_str read_file ''b'' = Inr bl'' \<and> is_server_conflicted bl'' ''srv''"
proof -
  let ?d = "\<lparr>blocked_clients = [], conflicted_server_ids = [\<lparr>be_id = ''srv'', be_reason = (''dup'', []), detected_at_ms = 5\<rparr>]\<rparr>"
  let ?to = "\<lambda>x. if x = ?d then Inr ''J'' else Inl ([], [])"
  let ?from = "\<lambda>t. if t = ''J'' then Inr ?d else Inl ([], [])"
  let ?read = "\<lambda>p. if p = ''b'' then Inr ''J'' else Inl (IoError NotFound ([], []))"
  let ?bl = "\<lparr>bl_path = ''b'', bl_data = block_list_data_default\<rparr>"
  let ?fs = "\<lparr>create_dir_all = None, fs_write = None, fs_rename = None, left_behind = None, remove_fails = False\<rparr>"
  have a: "add_conflicted_server 5 ?bl ''srv'' (''dup'', []) = (True, \<lparr>bl_path = ''b'', bl_data = ?d\<rparr>)"
    by (simp add: add_conflicted_server_def is_server_conflicted_def block_list_data_default_def)
  have j: "to_json ?to \<lparr>bl_path = ''b'', bl_data = ?d\<rparr> = Inr ''J''" by (simp add: to_json_def)
  have w: "write_atomic ?fs (1, 1) (bl_path \<lparr>bl_path = ''b'', bl_data = ?d\<rparr>) ''J'' Map.empty = (Inr (), [''b'' \<mapsto> ''J''])"
    by (auto simp: write_atomic_def Let_def has_parent_def)
  have h: "\<forall>d t. ?to d = Inr t \<longrightarrow> ?from t = Inr d"
    "\<forall>p. ?read p = (case [''b'' \<mapsto> ''J''] p of Some c \<Rightarrow> Inr c | None \<Rightarrow> Inl (IoError NotFound ([], [])))"
    by auto
  from conflicted_id_survives_restart [OF h(1) a j w h(2)] show ?thesis
    unfolding Let_def block_list.simps by blast
qed

end
