(* ===== verification/Dns_Forward.thy ===== *)
theory Dns_Forward
  imports Routed_Set
begin

text \<open>
  Conditional DNS forwarding, \<^verbatim>\<open>src/crates/flextunnel-core/src/proxy/dns_forward.rs\<close>.
  The resolver is the library \<^verbatim>\<open>hickory_resolver\<close>: building one from its name servers
  and asking it for a name are arguments of the definitions. The configuration is a hash
  map, given here as the list of its entries in the order the iteration yields them. The
  lemmas show that the most specific configured suffix answers, and when the table does not
  depend on the iteration order.
\<close>

section \<open>The table\<close>

definition DEFAULT_DNS_PORT :: u16 where "DEFAULT_DNS_PORT = 53"

record 'r forward_entry =
  fwd_suffix :: string
  fwd_servers :: "string list"
  fwd_resolver :: 'r

type_synonym 'r dns_forwarder = "'r forward_entry list"

definition parse_server :: "string \<Rightarrow> msg + ip_addr \<times> u16" where
  "parse_server spec0 =
     (let spec = trim spec0 in
      case parse_ip spec of
        Some ip \<Rightarrow> Inr (ip, DEFAULT_DNS_PORT)
      | None \<Rightarrow>
          (case parse_socket_addr spec of
             None \<Rightarrow> Inl (''expected an IP or IP:port, got {spec:?}'', [FStr spec])
           | Some sa \<Rightarrow> Inr (sock_ip sa, sock_port sa)))"

text \<open>The inner loop: the addresses and the specs of one entry's servers.\<close>

primrec new_servers ::
  "string \<Rightarrow> string list \<Rightarrow> (ip_addr \<times> u16) list \<Rightarrow> string list \<Rightarrow>
   msg + (ip_addr \<times> u16) list \<times> string list" where
  "new_servers sfx [] name_servers specs = Inr (name_servers, specs)"
| "new_servers sfx (spec # rest) name_servers specs =
     result_bind
       (map_err (\<lambda>_. (''invalid [dns_forwards] server {spec:?} for suffix {suffix:?}'',
          [FStr spec, FStr sfx])) (parse_server spec))
       (\<lambda>ns. new_servers sfx rest (name_servers @ [ns]) (specs @ [trim spec]))"

definition norm_suffix :: "string \<Rightarrow> string" where
  "norm_suffix key = to_ascii_lowercase (trim_matches CHR ''.'' (trim key))"

definition new_entry ::
  "((ip_addr \<times> u16) list \<Rightarrow> msg + 'r) \<Rightarrow> string \<times> string list \<Rightarrow> msg + 'r forward_entry" where
  "new_entry build = (\<lambda>(key, servers).
     let sfx = norm_suffix key in
     if sfx = [] \<or> CHR ''*'' \<in> set sfx \<or> [] \<in> set (split_on CHR ''.'' sfx)
     then Inl (''invalid [dns_forwards] domain suffix: {suffix:?}'', [FStr sfx])
     else if servers = [] then Inl (''[dns_forwards] entry {suffix:?} lists no DNS servers'', [FStr sfx])
     else result_bind (new_servers sfx servers [] []) (\<lambda>(name_servers, specs).
       result_bind
         (map_err (\<lambda>_. (''building resolver for [dns_forwards] {suffix:?}'', [FStr sfx])) (build name_servers))
         (\<lambda>resolver. Inr \<lparr>fwd_suffix = sfx, fwd_servers = specs, fwd_resolver = resolver\<rparr>)))"

primrec new_entries ::
  "((ip_addr \<times> u16) list \<Rightarrow> msg + 'r) \<Rightarrow> (string \<times> string list) list \<Rightarrow> 'r forward_entry list \<Rightarrow>
   msg + 'r forward_entry list" where
  "new_entries build [] entries = Inr entries"
| "new_entries build (f # rest) entries =
     result_bind (new_entry build f) (\<lambda>e. new_entries build rest (entries @ [e]))"

text \<open>The order of \<^verbatim>\<open>sort_by\<close>: longest suffix first, then the suffix.\<close>

definition entry_key :: "'r forward_entry \<Rightarrow> int \<times> string" where
  "entry_key e = (- int (length (fwd_suffix e)), fwd_suffix e)"

definition dns_forwarder_new ::
  "((ip_addr \<times> u16) list \<Rightarrow> msg + 'r) \<Rightarrow> (string \<times> string list) list \<Rightarrow>
   msg + 'r dns_forwarder option" where
  "dns_forwarder_new build forwards =
     (if forwards = [] then Inr None
      else result_bind (new_entries build forwards []) (\<lambda>entries.
        Inr (Some (sort_key entry_key entries))))"

definition forwarder_suffixes :: "'r dns_forwarder \<Rightarrow> string list" where
  "forwarder_suffixes fw = map fwd_suffix fw"

definition forwarder_forwards :: "'r dns_forwarder \<Rightarrow> (string \<times> string list) list" where
  "forwarder_forwards fw = sort_key fst (map (\<lambda>f. (fwd_suffix f, fwd_servers f)) fw)"

definition suffix_matches :: "string \<Rightarrow> string \<Rightarrow> bool" where
  "suffix_matches host sfx =
     (if host = sfx then True
      else case strip_suffix sfx host of None \<Rightarrow> False | Some p \<Rightarrow> suffix ''.'' p)"

definition resolver_for :: "'r dns_forwarder \<Rightarrow> string \<Rightarrow> 'r option" where
  "resolver_for fw host =
     (let h = to_ascii_lowercase host in
      map_option fwd_resolver (find (\<lambda>f. suffix_matches h (fwd_suffix f)) fw))"

definition dns_lookup ::
  "('r \<Rightarrow> string \<Rightarrow> msg + ip_addr list) \<Rightarrow> 'r \<Rightarrow> string \<Rightarrow> u16 \<Rightarrow> io_error + socket_addr list" where
  "dns_lookup lookup_ip resolver host port =
     (case lookup_ip resolver host of
        Inl e \<Rightarrow> Inl (IoError Other e)
      | Inr ips \<Rightarrow> Inr (map (\<lambda>ip. sock_new ip port) ips))"

definition dns_resolve ::
  "('r \<Rightarrow> string \<Rightarrow> msg + ip_addr list) \<Rightarrow> 'r dns_forwarder \<Rightarrow> string \<Rightarrow> u16 \<Rightarrow>
   (io_error + socket_addr list) option" where
  "dns_resolve lookup_ip fw host port =
     map_option (\<lambda>r. dns_lookup lookup_ip r host port) (resolver_for fw host)"

section \<open>Matching\<close>

lemma suffix_matches_iff: "suffix_matches h sfx \<longleftrightarrow> at_or_under h sfx"
proof (cases "h = sfx")
  case False
  show ?thesis
  proof (cases "strip_suffix sfx h")
    case None
    then show ?thesis using False
      by (auto simp: suffix_matches_def at_or_under_def dest: suffix_ConsD)
  next
    case (Some p)
    then show ?thesis using False
      by (auto simp: suffix_matches_def at_or_under_def suffix_def)
  qed
qed (simp add: suffix_matches_def at_or_under_def)

interpretation dns_ci: ci_matcher "resolver_for fw" for fw
  by unfold_locales (simp add: resolver_for_def)

lemma matches_length: "suffix_matches h a \<Longrightarrow> length a \<le> length h"
  by (auto simp: suffix_matches_iff at_or_under_def suffix_def)

lemma matches_unique:
  "suffix_matches h a \<Longrightarrow> suffix_matches h b \<Longrightarrow> length a = length b \<Longrightarrow> a = b"
  by (auto simp: suffix_matches_iff at_or_under_def suffix_def)

lemma find_longest:
  assumes "sorted (map entry_key fw)"
  shows "find (\<lambda>f. suffix_matches h (fwd_suffix f)) fw = Some f \<Longrightarrow>
    f \<in> set fw \<and> suffix_matches h (fwd_suffix f) \<and>
    (\<forall>g \<in> set fw. suffix_matches h (fwd_suffix g) \<longrightarrow> length (fwd_suffix g) \<le> length (fwd_suffix f))"
  using assms
proof (induction fw)
  case (Cons e fw)
  show ?case
  proof (cases "suffix_matches h (fwd_suffix e)")
    case True
    with Cons.prems show ?thesis by (auto simp: entry_key_def less_eq_prod_def)
  next
    case False
    with Cons show ?thesis by auto
  qed
qed simp

lemma new_entries_Inr_iff:
  "new_entries build fs es = Inr es' \<longleftrightarrow> (\<exists>new. map (new_entry build) fs = map Inr new \<and> es' = es @ new)"
proof (induction fs arbitrary: es)
  case (Cons f fs)
  show ?case
  proof (cases "new_entry build f")
    case (Inr e)
    with Cons.IH [of "es @ [e]"] show ?thesis
      by (auto simp: Cons_eq_map_conv)
  qed auto
qed auto

lemma dns_forwarder_new_Some_iff:
  "dns_forwarder_new build fs = Inr (Some fw) \<longleftrightarrow>
     fs \<noteq> [] \<and> (\<exists>es. map (new_entry build) fs = map Inr es \<and> fw = sort_key entry_key es)"
  by (auto simp: dns_forwarder_new_def result_bind_Inr_iff new_entries_Inr_iff)

lemma new_entry_suffix: "new_entry build f = Inr e \<Longrightarrow> fwd_suffix e = norm_suffix (fst f)"
  by (auto simp: new_entry_def Let_def result_bind_Inr_iff
      split: if_split_asm prod.split_asm sum.split_asm)

lemma entries_suffixes:
  "map (new_entry build) fs = map Inr es \<Longrightarrow> map fwd_suffix es = map (norm_suffix \<circ> fst) fs"
proof (induction fs arbitrary: es)
  case (Cons f fs)
  then obtain e es' where "es = e # es'" "new_entry build f = Inr e" "map (new_entry build) fs = map Inr es'"
    by (auto simp: Cons_eq_map_conv)
  with Cons.IH show ?case by (simp add: new_entry_suffix)
qed simp

section \<open>Properties\<close>

text \<open>Names are resolved by the most specific configured suffix. For a table built from the
  configuration, a host is left to the system resolver exactly when it neither equals nor
  lies below any configured suffix (normalised: trimmed, without outer dots, in lower
  case); otherwise its resolver is that of an entry the host matches, and no configured
  suffix that the host matches is longer.\<close>

theorem dns_most_specific:
  assumes "dns_forwarder_new build fs = Inr (Some fw)"
  shows "(resolver_for fw host = None \<longleftrightarrow>
      (\<forall>(key, servers) \<in> set fs. \<not> at_or_under (to_ascii_lowercase host) (norm_suffix key))) \<and>
    (\<forall>r. resolver_for fw host = Some r \<longrightarrow>
      (\<exists>f \<in> set fs. \<exists>e. new_entry build f = Inr e \<and> r = fwd_resolver e \<and>
         at_or_under (to_ascii_lowercase host) (norm_suffix (fst f)) \<and>
         (\<forall>g \<in> set fs. at_or_under (to_ascii_lowercase host) (norm_suffix (fst g)) \<longrightarrow>
            length (norm_suffix (fst g)) \<le> length (norm_suffix (fst f)))))"
proof (intro conjI allI impI)
  let ?h = "to_ascii_lowercase host"
  from assms obtain es where es: "map (new_entry build) fs = map Inr es" "fw = sort_key entry_key es"
    by (auto simp: dns_forwarder_new_Some_iff)
  have sfx: "fwd_suffix ` set fw = (norm_suffix \<circ> fst) ` set fs"
    using entries_suffixes [OF es(1)] by (metis es(2) image_set set_sort)
  show "resolver_for fw host = None \<longleftrightarrow> (\<forall>(key, servers) \<in> set fs. \<not> at_or_under ?h (norm_suffix key))"
  proof -
    have "resolver_for fw host = None \<longleftrightarrow> (\<forall>x \<in> fwd_suffix ` set fw. \<not> at_or_under ?h x)"
      by (auto simp: resolver_for_def Let_def find_None_iff suffix_matches_iff)
    then show ?thesis unfolding sfx by force
  qed
  fix r
  assume "resolver_for fw host = Some r"
  then obtain e where e: "find (\<lambda>f. suffix_matches ?h (fwd_suffix f)) fw = Some e" "r = fwd_resolver e"
    by (auto simp: resolver_for_def Let_def)
  have "sorted (map entry_key fw)" by (simp add: es(2))
  note best = find_longest [OF this e(1)]
  then have "Inr e \<in> set (map (new_entry build) fs)" unfolding es(1) by (simp add: es(2))
  then obtain f where f: "f \<in> set fs" "new_entry build f = Inr e" by (metis imageE list.set_map)
  moreover have "length (norm_suffix (fst g)) \<le> length (norm_suffix (fst f))"
    if "g \<in> set fs" "at_or_under ?h (norm_suffix (fst g))" for g
  proof -
    from that(1) sfx obtain e' where "e' \<in> set fw" "fwd_suffix e' = norm_suffix (fst g)" by force
    with best that(2) new_entry_suffix [OF f(2)] show ?thesis by (metis suffix_matches_iff)
  qed
  moreover have "at_or_under ?h (norm_suffix (fst f))"
    using best new_entry_suffix [OF f(2)] by (simp add: suffix_matches_iff)
  ultimately show "\<exists>f \<in> set fs. \<exists>e. new_entry build f = Inr e \<and> r = fwd_resolver e \<and>
         at_or_under ?h (norm_suffix (fst f)) \<and>
         (\<forall>g \<in> set fs. at_or_under ?h (norm_suffix (fst g)) \<longrightarrow>
            length (norm_suffix (fst g)) \<le> length (norm_suffix (fst f)))"
    using e(2) by blast
qed

theorem dns_most_specific_witness:
  "\<exists>fw. dns_forwarder_new Inr [(''example.com'', [''10.0.0.1'']), (''Corp.example.com.'', [''10.0.0.2:5353''])]
      = Inr (Some fw) \<and>
    resolver_for fw ''A.corp.example.com'' = Some [(IpV4 0x0A000002, 5353 :: u16)] \<and>
    resolver_for fw ''notexample.com'' = None"
proof -
  let ?fs = "[(''example.com'', [''10.0.0.1'']), (''Corp.example.com.'', [''10.0.0.2:5353''])]"
  let ?fw = "[\<lparr>fwd_suffix = ''corp.example.com'', fwd_servers = [''10.0.0.2:5353''],
       fwd_resolver = [(IpV4 0x0A000002, 5353 :: u16)]\<rparr>,
     \<lparr>fwd_suffix = ''example.com'', fwd_servers = [''10.0.0.1''], fwd_resolver = [(IpV4 0x0A000001, 53 :: u16)]\<rparr>]"
  have new: "dns_forwarder_new Inr ?fs = Inr (Some ?fw)"
    and r: "resolver_for ?fw ''A.corp.example.com'' = Some [(IpV4 0x0A000002, 5353 :: u16)]"
    by code_simp+
  have "norm_suffix ''example.com'' = ''example.com''" "norm_suffix ''Corp.example.com.'' = ''corp.example.com''"
    "to_ascii_lowercase ''notexample.com'' = ''notexample.com''" by code_simp+
  then have "resolver_for ?fw ''notexample.com'' = None"
    using dns_most_specific [OF new, of "''notexample.com''"]
    by (simp add: at_or_under_def suffix_Cons)
  with new r show ?thesis by blast
qed

text \<open>The table does not depend on the order in which the hash map yields its entries, as
  long as no two keys have the same normalised suffix: any other order builds the same
  table, so every name has the same resolver.\<close>

theorem dns_table_order_independent:
  assumes "dns_forwarder_new build fs = Inr (Some fw)" and "mset fs' = mset fs"
    and "distinct (map (norm_suffix \<circ> fst) fs)"
  shows "dns_forwarder_new build fs' = Inr (Some fw)"
proof -
  from assms(1) obtain es where fs: "fs \<noteq> []" and es: "map (new_entry build) fs = map Inr es"
    and fw: "fw = sort_key entry_key es"
    by (auto simp: dns_forwarder_new_Some_iff)
  have "\<forall>f \<in> set fs'. \<exists>e. new_entry build f = Inr e"
  proof
    fix f assume "f \<in> set fs'"
    with assms(2) have "new_entry build f \<in> set (map (new_entry build) fs)"
      by (metis image_eqI list.set_map mset_eq_setD)
    then show "\<exists>e. new_entry build f = Inr e" unfolding es by auto
  qed
  then obtain es' where es': "map (new_entry build) fs' = map Inr es'"
    using ex_map_conv [of "map (new_entry build) fs'" Inr] by auto
  have "mset (map (new_entry build) fs') = mset (map (new_entry build) fs)"
    using assms(2) by simp
  from arg_cong [OF this, of "image_mset projr"] have m: "mset es' = mset es"
    unfolding es es' by (simp add: multiset.map_comp comp_def)
  have "distinct (map fwd_suffix es)" using entries_suffixes [OF es] assms(3) by simp
  then have "inj_on entry_key (set es)"
    by (auto simp: entry_key_def distinct_map inj_on_def)
  then have "sort_key entry_key es' = sort_key entry_key es"
    by (intro sort_key_inj_key_eq) (simp_all add: m mset_eq_setD [OF m])
  moreover have "fs' \<noteq> []" using fs assms(2) by auto
  ultimately show ?thesis using es' fw by (auto simp: dns_forwarder_new_Some_iff)
qed

theorem dns_table_order_independent_witness:
  "dns_forwarder_new Inr [(''b.x'', [''10.0.0.2'']), (''a.x'', [''10.0.0.1''])] =
   dns_forwarder_new Inr [(''a.x'', [''10.0.0.1'']), (''b.x'', [''10.0.0.2''])]"
proof -
  have new: "dns_forwarder_new Inr [(''a.x'', [''10.0.0.1'']), (''b.x'', [''10.0.0.2''])] =
    Inr (Some [\<lparr>fwd_suffix = ''a.x'', fwd_servers = [''10.0.0.1''], fwd_resolver = [(IpV4 0x0A000001, 53 :: u16)]\<rparr>,
      \<lparr>fwd_suffix = ''b.x'', fwd_servers = [''10.0.0.2''], fwd_resolver = [(IpV4 0x0A000002, 53)]\<rparr>])"
    by code_simp
  have "distinct (map (norm_suffix \<circ> fst) [(''a.x'', [''10.0.0.1'']), (''b.x'', [''10.0.0.2''])])"
    by code_simp
  from dns_table_order_independent [OF new _ this, of "[(''b.x'', [''10.0.0.2'']), (''a.x'', [''10.0.0.1''])]"]
  show ?thesis unfolding new by (simp add: add_mset_commute)
qed


end
