(* ===== verification/Dial.thy ===== *)
theory Dial
  imports Dns_Forward
begin

text \<open>
  Dialing a target, \<^verbatim>\<open>src/crates/flextunnel-core/src/proxy/dial.rs\<close>. The network is a
  parameter: what connecting to an address gives at the \<open>i\<close>-th attempt of a dial, what the
  system resolver answers, and whether the connect deadline passes. The lemmas show the
  order of the attempts, what a loopback target means, which resolver is asked, and which
  reply byte the peer gets.
\<close>

section \<open>Operations\<close>

definition CONNECT_TIMEOUT :: nat where "CONNECT_TIMEOUT = 10"

record ('c, 'r) net_env =
  tcp_connect :: "nat \<Rightarrow> socket_addr \<Rightarrow> io_error + 'c"
  lookup_host :: "string \<Rightarrow> u16 \<Rightarrow> io_error + socket_addr list"
  lookup_ip :: "'r \<Rightarrow> string \<Rightarrow> msg + ip_addr list"
  dial_times_out :: bool

definition loopback_port :: "target \<Rightarrow> u16 option" where
  "loopback_port t =
     (case t of
        TIp sa \<Rightarrow> if is_loopback (sock_ip sa) then Some (sock_port sa) else None
      | TDomain host port \<Rightarrow>
          if eq_ignore_ascii_case host ''localhost'' then Some port
          else (case parse_ip host of
                  None \<Rightarrow> None
                | Some ip \<Rightarrow> if is_loopback ip then Some port else None))"

definition loopback_addrs :: "u16 \<Rightarrow> socket_addr list" where
  "loopback_addrs port = [SockV4 ipv4_localhost port, SockV6 ipv6_localhost port 0 0]"

text \<open>The loop of \<^verbatim>\<open>connect_any\<close>; \<open>i\<close> numbers the attempts.\<close>

primrec connect_loop ::
  "('c, 'r) net_env \<Rightarrow> socket_addr list \<Rightarrow> nat \<Rightarrow> io_error option \<Rightarrow> io_error + 'c" where
  "connect_loop env [] i last_err =
     Inl (case last_err of Some e \<Rightarrow> e
          | None \<Rightarrow> IoError HostUnreachable (''no addresses to connect to'', []))"
| "connect_loop env (a # addrs) i last_err =
     (case tcp_connect env i a of
        Inr c \<Rightarrow> Inr c
      | Inl e \<Rightarrow> connect_loop env addrs (Suc i) (Some e))"

definition connect_any :: "('c, 'r) net_env \<Rightarrow> socket_addr list \<Rightarrow> io_error + 'c" where
  "connect_any env addrs = connect_loop env addrs 0 None"

definition connect_resolved ::
  "('c, 'r) net_env \<Rightarrow> string \<Rightarrow> u16 \<Rightarrow> 'r dns_forwarder option \<Rightarrow> io_error + 'c" where
  "connect_resolved env host port forwarder =
     (let forwarded = (case forwarder of
            Some f \<Rightarrow> dns_resolve (lookup_ip env) f host port
          | None \<Rightarrow> None) in
      result_bind (case forwarded of Some res \<Rightarrow> res | None \<Rightarrow> lookup_host env host port) (\<lambda>addrs.
        if addrs = []
        then Inl (IoError HostUnreachable (''no addresses resolved for {host}:{port}'',
          [FStr host, FNat (unat port)]))
        else let addrs' =
              (if list_all (\<lambda>a. is_loopback (sock_ip a)) addrs
               then sort_key (\<lambda>a. if is_ipv4_sock a then 0 else 1 :: nat) addrs else addrs)
          in connect_any env addrs'))"

definition dial_target ::
  "('c, 'r) net_env \<Rightarrow> target \<Rightarrow> 'r dns_forwarder option \<Rightarrow> io_error + 'c" where
  "dial_target env t forwarder =
     (case loopback_port t of
        Some port \<Rightarrow> connect_any env (loopback_addrs port)
      | None \<Rightarrow>
          (case t of
             TIp sa \<Rightarrow> tcp_connect env 0 sa
           | TDomain host port \<Rightarrow> connect_resolved env host port forwarder))"

text \<open>\<^verbatim>\<open>connect_and_pipe\<close>: the reply goes to the tunnel stream; the result is the
  connection that is then spliced with it, if any.\<close>

definition connect_and_pipe ::
  "('c, 'r) net_env \<Rightarrow> target \<Rightarrow> 'r dns_forwarder option \<Rightarrow> 'c option io" where
  "connect_and_pipe env t forwarder =
     (let connected = (if dial_times_out env then Inl (IoError TimedOut (''connect timed out'', []))
                       else dial_target env t forwarder) in
      case connected of
        Inr tcp \<Rightarrow> io_bind (write_reply REP_SUCCESS) (\<lambda>_. io_return (Some tcp))
      | Inl e \<Rightarrow> io_bind (write_reply (map_io_err e)) (\<lambda>_. io_return None))"

section \<open>The order of the attempts\<close>

text \<open>The outcomes of connecting to the addresses one after the other.\<close>

definition attempts :: "('c, 'r) net_env \<Rightarrow> socket_addr list \<Rightarrow> (io_error + 'c) list" where
  "attempts env addrs = map (\<lambda>(i, a). tcp_connect env i a) (enumerate 0 addrs)"

lemma connect_loop_enumerate:
  "connect_loop env addrs i last_err =
     (let rs = map (\<lambda>(i, a). tcp_connect env i a) (enumerate i addrs) in
      case find (\<lambda>r. \<not> isl r) rs of
        Some r \<Rightarrow> r
      | None \<Rightarrow> if rs = [] then Inl (case last_err of Some e \<Rightarrow> e
            | None \<Rightarrow> IoError HostUnreachable (''no addresses to connect to'', [])) else last rs)"
proof (induction addrs arbitrary: i last_err)
  case (Cons a addrs)
  then show ?case by (cases "tcp_connect env i a") (auto simp: Let_def split: option.split)
qed simp

lemma connect_any_attempts:
  "addrs \<noteq> [] \<Longrightarrow> connect_any env addrs =
     (case find (\<lambda>r. \<not> isl r) (attempts env addrs) of
        Some r \<Rightarrow> r | None \<Rightarrow> last (attempts env addrs))"
  by (simp add: connect_any_def connect_loop_enumerate attempts_def Let_def enumerate_eq_zip
      split: option.split)

text \<open>The addresses of a name in the order they are tried.\<close>

definition dial_order :: "socket_addr list \<Rightarrow> socket_addr list" where
  "dial_order addrs =
     (if list_all (\<lambda>a. is_loopback (sock_ip a)) addrs
      then filter is_ipv4_sock addrs @ filter (\<lambda>a. \<not> is_ipv4_sock a) addrs else addrs)"

lemma sort_v4_first:
  "sort_key (\<lambda>a. if is_ipv4_sock a then 0 else 1 :: nat) addrs =
     filter is_ipv4_sock addrs @ filter (\<lambda>a. \<not> is_ipv4_sock a) addrs"
  (is "sort_key ?key _ = _")
proof (rule properties_for_sort_key)
  show "mset (filter is_ipv4_sock addrs @ filter (\<lambda>a. \<not> is_ipv4_sock a) addrs) = mset addrs"
    by (simp add: mset_filter multiset_partition [symmetric])
  show "filter (\<lambda>y. ?key k = ?key y) (filter is_ipv4_sock addrs @ filter (\<lambda>a. \<not> is_ipv4_sock a) addrs) =
      filter (\<lambda>y. ?key k = ?key y) addrs" for k
    by (cases "is_ipv4_sock k") (simp_all add: filter_empty_conv cong: filter_cong)
  have "map ?key (filter is_ipv4_sock addrs) = replicate (length (filter is_ipv4_sock addrs)) 0"
    "map ?key (filter (\<lambda>a. \<not> is_ipv4_sock a) addrs) =
      replicate (length (filter (\<lambda>a. \<not> is_ipv4_sock a) addrs)) 1"
    by (simp_all add: map_replicate_const [symmetric] cong: map_cong)
  then show "sorted (map ?key (filter is_ipv4_sock addrs @ filter (\<lambda>a. \<not> is_ipv4_sock a) addrs))"
    by (simp add: sorted_append)
qed

lemma rep_general_not_success: "REP_GENERAL_FAILURE \<noteq> REP_SUCCESS"
  by (simp add: rep_defs)

lemma map_io_err_not_success: "map_io_err e \<noteq> REP_SUCCESS"
  by (simp add: map_io_err_def rep_defs split: error_kind.split)

section \<open>Properties\<close>

text \<open>A loopback target (a loopback address in either form, or \<^verbatim>\<open>localhost\<close> in any
  case) is dialed on \<^verbatim>\<open>127.0.0.1\<close> and then on \<^verbatim>\<open>::1\<close>, with no name resolution:
  the result is the V4 connection if it succeeds, otherwise whatever the V6 attempt gives.\<close>

theorem loopback_dialed_on_both_families:
  assumes "case t of TIp sa \<Rightarrow> is_loopback (sock_ip sa) \<and> sock_port sa = p
    | TDomain h q \<Rightarrow> q = p \<and> (to_ascii_lowercase h = ''localhost'' \<or>
        (\<exists>ip. parse_ip h = Some ip \<and> is_loopback ip))"
  shows "dial_target env t forwarder =
    (case tcp_connect env 0 (SockV4 0x7F000001 p) of
       Inr c \<Rightarrow> Inr c
     | Inl e \<Rightarrow> tcp_connect env 1 (SockV6 1 p 0 0))"
proof -
  have "to_ascii_lowercase ''localhost'' = ''localhost''" by code_simp
  with assms have "loopback_port t = Some p"
    by (auto simp: loopback_port_def eq_ignore_ascii_case_def split: target.splits)
  then show ?thesis
    by (simp add: dial_target_def connect_any_def loopback_addrs_def ipv4_localhost_def
        ipv6_localhost_def split: sum.split)
qed

theorem loopback_dialed_on_both_families_witness:
  "dial_target \<lparr>tcp_connect = (\<lambda>i a. if is_ipv4_sock a then Inl closed_error else Inr a),
      lookup_host = (\<lambda>_ _. Inl closed_error), lookup_ip = (\<lambda>_ _. Inl ([], [])), dial_times_out = False\<rparr>
     (TDomain ''LocalHost'' 22) (None :: unit dns_forwarder option) = Inr (SockV6 1 22 0 0)"
proof -
  have "to_ascii_lowercase ''LocalHost'' = ''localhost''" by code_simp
  then show ?thesis by (subst loopback_dialed_on_both_families [where p = 22]) simp_all
qed

text \<open>A name is resolved by exactly one resolver. If the forwarding table has a resolver for
  it, its answer is used and the system resolver is never consulted; otherwise the system
  resolver's. The connection is the first success over the resolved addresses in order,
  with the V4 addresses first when all of them are loopback; if all attempts fail, the
  error is that of the last one.\<close>

theorem name_dialed_in_order:
  assumes "loopback_port (TDomain h p) = None"
    and "(case forwarder of None \<Rightarrow> None | Some f \<Rightarrow> resolver_for f h) = r"
    and "(case r of Some res \<Rightarrow> dns_lookup (lookup_ip env) res h p | None \<Rightarrow> lookup_host env h p) = Inr addrs"
    and "addrs \<noteq> []"
  shows "dial_target env (TDomain h p) forwarder =
    (case find (\<lambda>x. \<not> isl x) (attempts env (dial_order addrs)) of
       Some x \<Rightarrow> x | None \<Rightarrow> last (attempts env (dial_order addrs)))"
proof -
  have res: "(case (case forwarder of Some f \<Rightarrow> dns_resolve (lookup_ip env) f h p | None \<Rightarrow> None) of
      Some res \<Rightarrow> res | None \<Rightarrow> lookup_host env h p) = Inr addrs"
    using assms(2,3) by (auto simp: dns_resolve_def split: option.splits)
  have "dial_target env (TDomain h p) forwarder = connect_any env (dial_order addrs)"
    by (simp add: dial_target_def assms(1,4) connect_resolved_def res Let_def dial_order_def sort_v4_first)
  moreover have "dial_order addrs \<noteq> []"
    using assms(4) by (cases addrs) (simp_all add: dial_order_def)
  ultimately show ?thesis by (simp add: connect_any_attempts)
qed

theorem name_dialed_in_order_witness:
  "let env = \<lparr>tcp_connect = (\<lambda>i a. if i = 0 then Inl (IoError ConnectionRefused ([], [])) else Inr (i, a)),
       lookup_host = (\<lambda>_ _. Inl closed_error),
       lookup_ip = (\<lambda>_ _. Inr [IpV6 1, IpV4 0x7F000001]), dial_times_out = False\<rparr>;
       fw = [\<lparr>fwd_suffix = ''corp.x'', fwd_servers = [], fwd_resolver = ()\<rparr>] in
   dial_target env (TDomain ''db.corp.x'' 80) (Some fw) = Inr (1, SockV6 1 80 0 0)"
proof -
  let ?env = "\<lparr>tcp_connect = (\<lambda>i a. if i = 0 then Inl (IoError ConnectionRefused ([], [])) else Inr (i, a)),
       lookup_host = (\<lambda>_ _. Inl closed_error),
       lookup_ip = (\<lambda>_ _. Inr [IpV6 1, IpV4 0x7F000001]), dial_times_out = False\<rparr>"
  let ?fw = "[\<lparr>fwd_suffix = ''corp.x'', fwd_servers = [], fwd_resolver = ()\<rparr>]"
  let ?addrs = "[SockV6 1 80 0 0, SockV4 0x7F000001 80]"
  have l: "loopback_port (TDomain ''db.corp.x'' 80) = None" by code_simp
  have r: "(case Some ?fw of None \<Rightarrow> None | Some f \<Rightarrow> resolver_for f ''db.corp.x'') = Some ()" by code_simp
  have a: "(case Some () of Some res \<Rightarrow> dns_lookup (lookup_ip ?env) res ''db.corp.x'' 80
      | None \<Rightarrow> lookup_host ?env ''db.corp.x'' 80) = Inr ?addrs" by (simp add: dns_lookup_def)
  have "dial_order ?addrs = [SockV4 0x7F000001 80, SockV6 1 80 0 0]" by code_simp
  then show ?thesis unfolding Let_def name_dialed_in_order [OF l r a list.distinct(2)]
    by (simp add: attempts_def)
qed

text \<open>A tunnel stream gets exactly one reply header, and bytes are spliced exactly when it
  says success: the dial succeeded before the deadline. A failed dial is answered with the
  code of its error, a missed deadline with a general failure, and never with success.\<close>

theorem exit_reply_matches_dial:
  assumes "tx_open s"
  shows "\<exists>rep spliced. connect_and_pipe env t forwarder s = (Inr spliced, s\<lparr>tx := tx s @ [1, rep]\<rparr>) \<and>
    (rep = REP_SUCCESS \<longleftrightarrow> spliced \<noteq> None) \<and>
    (if dial_times_out env then rep = REP_GENERAL_FAILURE
     else case dial_target env t forwarder of
       Inr c \<Rightarrow> spliced = Some c
     | Inl e \<Rightarrow> rep = map_io_err e)"
  using assms
  by (cases "dial_target env t forwarder")
    (auto simp: connect_and_pipe_def Let_def io_bind_ok reply.wr_enc map_io_err_not_success
      map_io_err_def [of "IoError TimedOut _"] rep_general_not_success)

theorem exit_reply_matches_dial_witness:
  "\<exists>rep spliced. connect_and_pipe \<lparr>tcp_connect = (\<lambda>i a. Inl (IoError ConnectionRefused ([], []))),
      lookup_host = (\<lambda>_ _. Inl closed_error), lookup_ip = (\<lambda>_ _. Inl ([], [])), dial_times_out = False\<rparr>
     (TIp (SockV4 0x0A000001 25)) (None :: unit dns_forwarder option) \<lparr>rx = [], tx = [], tx_open = True\<rparr> =
     (Inr spliced, \<lparr>rx = [], tx = [1, rep], tx_open = True\<rparr>) \<and> rep = REP_CONN_REFUSED \<and>
     (spliced :: nat option) = None"
proof -
  define env where "env = \<lparr>tcp_connect = (\<lambda>i a. Inl (IoError ConnectionRefused ([], [])) :: io_error + nat),
      lookup_host = (\<lambda>_ _. Inl closed_error), lookup_ip = (\<lambda>(_ :: unit) _. Inl ([], [])), dial_times_out = False\<rparr>"
  let ?s = "\<lparr>rx = [], tx = [], tx_open = True\<rparr>" and ?t = "TIp (SockV4 0x0A000001 25)"
  have d: "dial_target env ?t None = Inl (IoError ConnectionRefused ([], []))" "\<not> dial_times_out env"
    by (simp_all add: dial_target_def loopback_port_def env_def)
  have "\<exists>rep spliced. connect_and_pipe env ?t None ?s = (Inr spliced, ?s\<lparr>tx := tx ?s @ [1, rep]\<rparr>) \<and>
      (rep = REP_SUCCESS \<longleftrightarrow> spliced \<noteq> None) \<and> rep = map_io_err (IoError ConnectionRefused ([], []))"
    using exit_reply_matches_dial [of ?s env ?t None] by (simp add: d)
  then show ?thesis by (simp add: env_def map_io_err_def rep_defs)
qed

end
