(* ===== verification/Http.thy ===== *)
theory Http
  imports Signaling
begin

text \<open>
  The HTTP proxy front-end, \<^verbatim>\<open>src/crates/flextunnel-core/src/proxy/http.rs\<close>: reading a
  request head, \<^verbatim>\<open>CONNECT\<close>, and the rewriting of an absolute-form request into the
  origin-form head sent upstream. The lemmas show that the reader stops at the end of the
  head and never panics, that every refused request is answered, what the rewritten head
  consists of and that no line can be smuggled into it, and how an authority is split.
\<close>

section \<open>Parts of the standard library\<close>

text \<open>\<^verbatim>\<open>String::from_utf8_lossy\<close>: each maximal invalid piece becomes U+FFFD.\<close>

definition replacement :: string where
  "replacement = map char_of [0xEF, 0xBF, 0xBD :: nat]"

definition utf8_second :: "u8 \<Rightarrow> u8 \<Rightarrow> bool" where
  "utf8_second a b =
     (if a = 0xE0 then 0xA0 \<le> b \<and> b \<le> 0xBF else if a = 0xED then 0x80 \<le> b \<and> b \<le> 0x9F
      else if a = 0xF0 then 0x90 \<le> b \<and> b \<le> 0xBF else if a = 0xF4 then 0x80 \<le> b \<and> b \<le> 0x8F
      else utf8_cont b)"

fun from_utf8_lossy :: "bytes \<Rightarrow> string" where
  "from_utf8_lossy [] = []"
| "from_utf8_lossy (a # r) =
     (if a \<le> 0x7F then char_of_byte a # from_utf8_lossy r
      else if 0xC2 \<le> a \<and> a \<le> 0xDF then
        (case r of
           b # r' \<Rightarrow> if utf8_cont b then map char_of_byte [a, b] @ from_utf8_lossy r'
                     else replacement @ from_utf8_lossy r
         | [] \<Rightarrow> replacement)
      else if 0xE0 \<le> a \<and> a \<le> 0xEF then
        (case r of
           b # c # r' \<Rightarrow> if \<not> utf8_second a b then replacement @ from_utf8_lossy r
             else if \<not> utf8_cont c then replacement @ from_utf8_lossy (c # r')
             else map char_of_byte [a, b, c] @ from_utf8_lossy r'
         | [b] \<Rightarrow> if utf8_second a b then replacement else replacement @ from_utf8_lossy r
         | [] \<Rightarrow> replacement)
      else if 0xF0 \<le> a \<and> a \<le> 0xF4 then
        (case r of
           b # c # d # r' \<Rightarrow> if \<not> utf8_second a b then replacement @ from_utf8_lossy r
             else if \<not> utf8_cont c then replacement @ from_utf8_lossy (c # d # r')
             else if \<not> utf8_cont d then replacement @ from_utf8_lossy (d # r')
             else map char_of_byte [a, b, c, d] @ from_utf8_lossy r'
         | [b, c] \<Rightarrow> if \<not> utf8_second a b then replacement @ from_utf8_lossy r
             else if \<not> utf8_cont c then replacement @ from_utf8_lossy [c] else replacement
         | [b] \<Rightarrow> if utf8_second a b then replacement else replacement @ from_utf8_lossy r
         | [] \<Rightarrow> replacement)
      else replacement @ from_utf8_lossy r)"

definition is_ascii_control :: "char \<Rightarrow> bool" where
  "is_ascii_control c = (let n = (of_char c :: nat) in n < 32 \<or> n = 127)"

definition is_ascii_whitespace :: "char \<Rightarrow> bool" where
  "is_ascii_whitespace c \<longleftrightarrow> (of_char c :: nat) \<in> {32, 9, 10, 12, 13}"

definition trim_ascii_end :: "string \<Rightarrow> string" where
  "trim_ascii_end s = rev (dropWhile is_ascii_whitespace (rev s))"

definition is_char_boundary :: "string \<Rightarrow> nat \<Rightarrow> bool" where
  "is_char_boundary s n \<longleftrightarrow>
     n = 0 \<or> n = length s \<or> (n < length s \<and> \<not> utf8_cont (byte_of_char (s ! n)))"

definition split_at_checked :: "string \<Rightarrow> nat \<Rightarrow> (string \<times> string) option" where
  "split_at_checked s n = (if is_char_boundary s n then Some (take n s, drop n s) else None)"

text \<open>\<^verbatim>\<open>windows(2).position(|w| w == b"\r\n")\<close>.\<close>

fun find_crlf :: "bytes \<Rightarrow> nat option" where
  "find_crlf (a # b # r) =
     (if a = 13 \<and> b = 10 then Some 0 else map_option Suc (find_crlf (b # r)))"
| "find_crlf _ = None"

definition crlf :: bytes where "crlf = [13, 10]"

definition ends_head :: "bytes \<Rightarrow> bool" where
  "ends_head head = suffix (crlf @ crlf) head"

section \<open>Requests\<close>

definition MAX_HTTP_HEADER :: nat where "MAX_HTTP_HEADER = 64 * 1024"

definition STRIPPED_HEADERS :: "string list" where
  "STRIPPED_HEADERS = [''connection'', ''proxy-connection'', ''keep-alive'', ''te'', ''upgrade'',
     ''proxy-authorization'', ''proxy-authenticate'', ''host'']"

datatype http_request = Connect target | Forward target bytes

record reject =
  rej_code :: nat
  rej_reason :: string
  rej_detail :: msg

definition bad_request :: "msg \<Rightarrow> reject" where
  "bad_request detail = \<lparr>rej_code = 400, rej_reason = ''Bad Request'', rej_detail = detail\<rparr>"

record header_line =
  hl_name :: string
  hl_value :: bytes

definition error_response :: "nat \<Rightarrow> string \<Rightarrow> bytes" where
  "error_response code reason =
     as_bytes (''HTTP/1.1 '' @ show_nat code @ '' '' @ reason) @ crlf
     @ as_bytes ''Content-Length: 0'' @ crlf @ as_bytes ''Connection: close'' @ crlf @ crlf"

definition http_write_error :: "nat \<Rightarrow> string \<Rightarrow> unit io" where
  "http_write_error code reason = write_all (error_response code reason)"

definition http_write_reply :: "u8 \<Rightarrow> unit io" where
  "http_write_reply rep =
     (if rep = REP_SUCCESS then
        write_all (as_bytes ''HTTP/1.1 200 Connection Established'' @ crlf @ crlf)
      else let (code, reason) =
             (if rep = REP_NOT_ALLOWED then (403, ''Forbidden'') else (502, ''Bad Gateway''))
           in http_write_error code reason)"

section \<open>Authorities and targets\<close>

definition split_authority :: "string \<Rightarrow> u16 option \<Rightarrow> (string \<times> u16) option" where
  "split_authority authority default_port =
     Option.bind
       (case strip_prefix ''['' authority of
          Some rest \<Rightarrow>
            Option.bind (split_once CHR '']'' rest) (\<lambda>(addr, after).
              if after = [] then Some (addr, None)
              else Option.bind (strip_prefix '':'' after) (\<lambda>p. Some (addr, Some p)))
        | None \<Rightarrow>
            (case rsplit_once CHR '':'' authority of
               Some (host, port) \<Rightarrow> if CHR '':'' \<in> set host then None else Some (host, Some port)
             | None \<Rightarrow> Some (authority, None)))
       (\<lambda>(host, port_str).
          if host = [] then None
          else case port_str of
            Some p \<Rightarrow> (case parse_u16 p of
                None \<Rightarrow> None
              | Some port \<Rightarrow> if port = 0 then None else Some (host, port))
          | None \<Rightarrow> Option.bind default_port (\<lambda>d. Some (host, d)))"

definition host_to_target :: "string \<Rightarrow> u16 \<Rightarrow> target" where
  "host_to_target host port =
     (case parse_ip host of Some ip \<Rightarrow> TIp (sock_new ip port) | None \<Rightarrow> TDomain host port)"

definition strip_scheme :: "string \<Rightarrow> string \<Rightarrow> string option" where
  "strip_scheme t scheme =
     Option.bind (split_at_checked t (length scheme)) (\<lambda>(p, rest).
       if eq_ignore_ascii_case p scheme then Some rest else None)"

section \<open>Header lines\<close>

definition malformed_header :: "bytes \<Rightarrow> reject" where
  "malformed_header line =
     bad_request (''malformed header line: {:?}'', [FStr (map char_of_byte line)])"

definition parse_header_line :: "bytes \<Rightarrow> reject + header_line" where
  "parse_header_line line =
     (if line \<noteq> [] \<and> (hd line = 32 \<or> hd line = 9)
      then Inl (bad_request (''obsolete header line folding is not supported'', []))
      else case split_once 58 line of
        None \<Rightarrow> Inl (malformed_header line)
      | Some (raw_name, value) \<Rightarrow>
          (case from_utf8 raw_name of
             None \<Rightarrow> Inl (malformed_header line)
           | Some raw_str \<Rightarrow>
               let name = trim_ascii_end raw_str in
               if list_ex is_ascii_control name \<or> list_ex (\<lambda>b. b = 13 \<or> b = 10 \<or> b = 0) value
               then Inl (malformed_header line)
               else Inr \<lparr>hl_name = name, hl_value = value\<rparr>))"

function split_header_lines :: "bytes \<Rightarrow> header_line list \<Rightarrow> reject + header_line list" where
  "split_header_lines rest out =
     (if rest = [] then Inr out
      else let e = (case find_crlf rest of Some i \<Rightarrow> i | None \<Rightarrow> length rest) in
        result_bind (parse_header_line (take e rest)) (\<lambda>h.
          split_header_lines (drop (min (e + 2) (length rest)) rest) (out @ [h])))"
  by pat_completeness auto
termination
  by (relation "measure (\<lambda>(rest, out). length rest)") (auto split: option.splits)

declare split_header_lines.simps [simp del]

section \<open>The rewritten head\<close>

definition split_path :: "string \<Rightarrow> string \<times> string" where
  "split_path rest =
     (let authority = takeWhile (\<lambda>c. c \<noteq> CHR ''/'' \<and> c \<noteq> CHR ''?'') rest;
          r = dropWhile (\<lambda>c. c \<noteq> CHR ''/'' \<and> c \<noteq> CHR ''?'') rest
      in case r of
           [] \<Rightarrow> (rest, ''/'')
         | c # _ \<Rightarrow> if c = CHR ''/'' then (authority, r) else (authority, ''/'' @ r))"

definition connection_options :: "header_line list \<Rightarrow> string list" where
  "connection_options headers =
     concat (map (\<lambda>h.
       if eq_ignore_ascii_case (hl_name h) ''connection''
          \<or> eq_ignore_ascii_case (hl_name h) ''proxy-connection''
       then map (\<lambda>t. to_ascii_lowercase (trim t)) (split_on CHR '','' (from_utf8_lossy (hl_value h)))
       else []) headers)"

definition stripped :: "string list \<Rightarrow> header_line \<Rightarrow> bool" where
  "stripped options h =
     (let lower = to_ascii_lowercase (hl_name h) in
      lower \<in> set STRIPPED_HEADERS \<or> lower \<in> set options)"

definition emit_header :: "header_line \<Rightarrow> bytes" where
  "emit_header h = as_bytes (hl_name h) @ [58] @ hl_value h"

definition rewrite_forward ::
  "string \<Rightarrow> string \<Rightarrow> string \<Rightarrow> bytes \<Rightarrow> reject + target \<times> bytes" where
  "rewrite_forward meth request_target version header_block =
     (case strip_scheme request_target ''http://'' of
        None \<Rightarrow>
          Inl (if strip_scheme request_target ''https://'' \<noteq> None
               then bad_request (''https absolute-URI must use CONNECT: {request_target:?}'',
                 [FStr request_target])
               else bad_request (''request target is not an absolute http:// URI: {request_target:?}'',
                 [FStr request_target]))
      | Some rest \<Rightarrow>
          let (authority, path) = split_path rest in
          if CHR ''@'' \<in> set authority
          then Inl (bad_request (''userinfo in request target: {request_target:?}'', [FStr request_target]))
          else case split_authority authority (Some 80) of
            None \<Rightarrow> Inl (bad_request
              (''invalid authority in request target: {request_target:?}'', [FStr request_target]))
          | Some (host, port) \<Rightarrow>
              let target = host_to_target host port in
              result_bind (split_header_lines header_block []) (\<lambda>headers.
                let options = connection_options headers;
                    out = as_bytes (meth @ '' '' @ path @ '' '' @ version) @ crlf
                      @ as_bytes (''Host: '' @ authority) @ crlf
                      @ concat (map (\<lambda>h. if stripped options h then [] else emit_header h @ crlf) headers)
                      @ as_bytes ''Connection: close'' @ crlf @ crlf
                in Inr (target, out)))"

section \<open>Reading a request\<close>

definition http_refuse :: "nat \<Rightarrow> string \<Rightarrow> io_error \<Rightarrow> 'a io" where
  "http_refuse code reason e = io_bind (http_write_error code reason) (\<lambda>_. io_fail e)"

function read_head :: "bytes \<Rightarrow> bytes io" where
  "read_head head s =
     (case read_u8 s of
        (Inl e, s') \<Rightarrow> (Inl e, s')
      | (Inr b, s') \<Rightarrow>
          let head' = head @ [b] in
          if ends_head head' then (Inr head', s')
          else if MAX_HTTP_HEADER \<le> length head'
          then http_refuse 400 ''Bad Request''
            (io_other ''HTTP request head exceeded size cap'' []) s'
          else read_head head' s')"
  by pat_completeness auto
termination
  by (relation "measure (\<lambda>(head, s). length (rx s))") (auto simp: read_u8_def split: list.splits)

declare read_head.simps [simp del]

definition parse_head :: "bytes \<Rightarrow> http_request io" where
  "parse_head head =
     (case find_crlf head of
        None \<Rightarrow> io_fail (panic_error ''head ends with CRLFCRLF so a CRLF exists'')
      | Some line_end \<Rightarrow>
     (case from_utf8 (take line_end head) of
        None \<Rightarrow> http_refuse 400 ''Bad Request'' (io_other ''HTTP request line is not valid UTF-8'' [])
      | Some request_line \<Rightarrow>
     if list_ex is_ascii_control request_line
     then http_refuse 400 ''Bad Request'' (io_other ''control byte in HTTP request line'' [])
     else
       let parts = split_on CHR '' '' request_line;
           part = (\<lambda>i. if i < length parts then parts ! i else []);
           meth = part 0; request_target = part 1; version = part 2 in
       if meth = [] \<or> request_target = [] \<or> version = [] \<or> 3 < length parts
       then http_refuse 400 ''Bad Request''
         (io_other ''malformed HTTP request line: {request_line:?}'' [FStr request_line])
       else if version \<noteq> ''HTTP/1.1'' \<and> version \<noteq> ''HTTP/1.0''
       then http_refuse 505 ''HTTP Version Not Supported''
         (io_other ''unsupported HTTP version: {version}'' [FStr version])
       else if eq_ignore_ascii_case meth ''CONNECT'' then
         (case split_authority request_target None of
            None \<Rightarrow> http_refuse 400 ''Bad Request''
              (io_other ''invalid CONNECT authority: {request_target:?}'' [FStr request_target])
          | Some (host, port) \<Rightarrow> io_return (Connect (host_to_target host port)))
       else if length head - 2 < line_end + 2 then io_fail (panic_error ''slice out of range'')
       else
         (case rewrite_forward meth request_target version
                 (take (length head - 2 - (line_end + 2)) (drop (line_end + 2) head)) of
            Inr (target, out) \<Rightarrow> io_return (Forward target out)
          | Inl reject \<Rightarrow> http_refuse (rej_code reject) (rej_reason reject)
              (IoError Other (rej_detail reject)))))"

definition http_read_request :: "http_request io" where
  "http_read_request = io_bind (read_head []) parse_head"

section \<open>Finding line ends\<close>

lemma find_crlf_SomeD:
  "find_crlf bs = Some i \<Longrightarrow> i + 2 \<le> length bs \<and> bs = take i bs @ crlf @ drop (i + 2) bs"
  by (induction bs arbitrary: i rule: find_crlf.induct) (auto simp: crlf_def split: if_splits)

lemma find_crlf_append: "\<exists>i \<le> length u. find_crlf (u @ crlf @ v) = Some i"
proof (induction u)
  case (Cons a u)
  then obtain i where i: "i \<le> length u" "find_crlf (u @ crlf @ v) = Some i" by blast
  obtain b r where r: "u @ crlf @ v = b # r" by (cases "u @ crlf @ v") (auto simp: crlf_def)
  then have "find_crlf ((a # u) @ crlf @ v) = (if a = 13 \<and> b = 10 then Some 0 else Some (Suc i))"
    using i by simp
  with i show ?case by auto
qed (simp add: crlf_def)

lemma find_crlf_line: "13 \<notin> set l \<Longrightarrow> find_crlf (l @ crlf @ v) = Some (length l)"
proof (induction l)
  case (Cons a l)
  obtain b r where "l @ crlf @ v = b # r" by (cases "l @ crlf @ v") (auto simp: crlf_def)
  with Cons show ?case by auto
qed (simp add: crlf_def)

section \<open>The reader stops at the end of the head\<close>

lemma http_refuse_Inr [simp]: "http_refuse c r e s \<noteq> (Inr x, s')"
  by (auto simp: http_refuse_def io_inv)

lemma http_refuse_open [io_simps]:
  "tx_open s \<Longrightarrow> http_refuse c r e s = (Inl e, s\<lparr>tx := tx s @ error_response c r\<rparr>)"
  by (simp add: http_refuse_def http_write_error_def io_simps)

lemma read_head_step:
  "rx s = b # bs \<Longrightarrow> read_head acc s =
     (if ends_head (acc @ [b]) then (Inr (acc @ [b]), s\<lparr>rx := bs\<rparr>)
      else if MAX_HTTP_HEADER \<le> Suc (length acc)
      then http_refuse 400 ''Bad Request''
        (io_other ''HTTP request head exceeded size cap'' []) (s\<lparr>rx := bs\<rparr>)
      else read_head (acc @ [b]) (s\<lparr>rx := bs\<rparr>))"
  by (subst read_head.simps) (simp add: read_u8_def Let_def)

lemma read_head_eof: "rx s = [] \<Longrightarrow> read_head acc s = (Inl eof_error, s)"
  by (subst read_head.simps) (simp add: read_u8_def)

definition head_found :: "bytes \<Rightarrow> bytes \<Rightarrow> bool" where
  "head_found acc u \<longleftrightarrow> u \<noteq> [] \<and> ends_head (acc @ u) \<and> length (acc @ u) \<le> MAX_HTTP_HEADER \<and>
     (\<forall>k. 0 < k \<and> k < length u \<longrightarrow> \<not> ends_head (acc @ take k u))"

lemma head_found_Cons:
  "head_found acc (b # u) \<longleftrightarrow>
     (if ends_head (acc @ [b]) then u = [] \<and> Suc (length acc) \<le> MAX_HTTP_HEADER
      else head_found (acc @ [b]) u)"
proof -
  have "(\<forall>k. 0 < k \<and> k < Suc (length u) \<longrightarrow> \<not> ends_head (acc @ take k (b # u))) \<longleftrightarrow>
      (\<forall>j < length u. \<not> ends_head (acc @ b # take j u))"
    by (metis Suc_less_eq gr0_conv_Suc take_Suc_Cons zero_less_Suc)
  also have "\<dots> \<longleftrightarrow> (u \<noteq> [] \<longrightarrow> \<not> ends_head (acc @ [b])) \<and>
      (\<forall>j. 0 < j \<and> j < length u \<longrightarrow> \<not> ends_head (acc @ b # take j u))"
    by (metis gr0I length_greater_0_conv take_0)
  finally show ?thesis by (auto simp: head_found_def)
qed

lemma read_head_Inr_iff:
  "Suc (length acc) \<le> MAX_HTTP_HEADER \<Longrightarrow>
   read_head acc s = (Inr h, s') \<longleftrightarrow>
     (\<exists>u rest. rx s = u @ rest \<and> h = acc @ u \<and> head_found acc u \<and> s' = s\<lparr>rx := rest\<rparr>)"
proof (induction "rx s" arbitrary: acc s)
  case Nil
  then show ?case by (auto simp: read_head_eof head_found_def)
next
  case (Cons b bs)
  note rx = Cons.hyps(2) [symmetric]
  have u: "(\<exists>u rest. b # bs = u @ rest \<and> h = acc @ u \<and> head_found acc u \<and> s' = s\<lparr>rx := rest\<rparr>) \<longleftrightarrow>
      (\<exists>u rest. bs = u @ rest \<and> h = acc @ b # u \<and> head_found acc (b # u) \<and> s' = s\<lparr>rx := rest\<rparr>)"
    by (auto simp: Cons_eq_append_conv head_found_def [of _ "[]"])
  show ?case
  proof (cases "ends_head (acc @ [b]) \<or> MAX_HTTP_HEADER \<le> Suc (length acc)")
    case True
    moreover have "\<not> head_found (acc @ [b]) u" if "MAX_HTTP_HEADER \<le> Suc (length acc)" for u
      using that by (cases u) (auto simp: head_found_def)
    ultimately show ?thesis
      using Cons.prems unfolding rx u read_head_step [OF rx] head_found_Cons by auto
  next
    case False
    then have "Suc (length (acc @ [b])) \<le> MAX_HTTP_HEADER" by simp
    from Cons.hyps(1) [of "s\<lparr>rx := bs\<rparr>", OF _ this] False show ?thesis
      unfolding rx u read_head_step [OF rx] head_found_Cons by auto
  qed
qed

lemma read_head_Inl:
  "read_head acc s = (Inl e, s') \<Longrightarrow> tx_open s \<Longrightarrow>
   (e = eof_error \<and> tx s' = tx s) \<or>
   (err_kind e = Other \<and> tx s' = tx s @ error_response 400 ''Bad Request'')"
proof (induction "rx s" arbitrary: acc s)
  case Nil
  then show ?case by (simp add: read_head_eof)
next
  case (Cons b bs)
  note rx = Cons.hyps(2) [symmetric]
  show ?case
    using Cons.prems Cons.hyps(1) [of "s\<lparr>rx := bs\<rparr>"] unfolding read_head_step [OF rx]
    by (auto simp: io_simps split: if_splits)
qed

section \<open>Header lines survive being emitted and parsed again\<close>

definition canonical :: "header_line \<Rightarrow> bool" where
  "canonical h \<longleftrightarrow> valid_str (hl_name h) \<and> CHR '':'' \<notin> set (hl_name h) \<and>
     trim_ascii_end (hl_name h) = hl_name h \<and> \<not> list_ex is_ascii_control (hl_name h) \<and>
     (hl_name h = [] \<or> hd (hl_name h) \<noteq> CHR '' '') \<and>
     \<not> list_ex (\<lambda>b. b = 13 \<or> b = 10 \<or> b = 0) (hl_value h)"

lemma byte_of_char_iff: "byte_of_char c = b \<longleftrightarrow> c = char_of_byte b"
  by auto

lemma in_as_bytes: "b \<in> set (as_bytes s) \<longleftrightarrow> char_of_byte b \<in> set s"
  by (force simp: as_bytes_def)

lemma control_free_bytes:
  "\<not> list_ex is_ascii_control s \<Longrightarrow> unat b < 32 \<Longrightarrow> b \<notin> set (as_bytes s)"
  by (auto simp: in_as_bytes list_ex_iff is_ascii_control_def char_of_byte_def Let_def)

lemma byte_consts [simp]:
  "char_of_byte 58 = CHR '':''" "char_of_byte 32 = CHR '' ''" "byte_of_char CHR '':'' = 58"
  "byte_of_char CHR '' '' = 32"
  by code_simp+

lemma trim_ascii_end_split:
  "\<exists>w. s = trim_ascii_end s @ w \<and> list_all is_ascii_whitespace w"
proof -
  have "s = rev (dropWhile is_ascii_whitespace (rev s)) @ rev (takeWhile is_ascii_whitespace (rev s))"
    by (metis rev_append rev_rev_ident takeWhile_dropWhile_id)
  moreover have "list_all is_ascii_whitespace (rev (takeWhile is_ascii_whitespace (rev s)))"
    by (auto simp: list_all_iff dest: set_takeWhileD)
  ultimately show ?thesis unfolding trim_ascii_end_def by blast
qed

lemma trim_ascii_end_idem: "trim_ascii_end (trim_ascii_end s) = trim_ascii_end s"
  by (simp add: trim_ascii_end_def)

lemma valid_str_trim_ascii_end: "valid_str s \<Longrightarrow> valid_str (trim_ascii_end s)"
proof -
  assume v: "valid_str s"
  obtain w where w: "s = trim_ascii_end s @ w" "list_all is_ascii_whitespace w"
    using trim_ascii_end_split by blast
  show ?thesis
  proof (cases w)
    case Nil
    with w v show ?thesis by simp
  next
    case (Cons c w')
    with w(2) have "byte_of_char c \<le> 0x7F"
      by (auto simp: is_ascii_whitespace_def byte_of_char_def word_le_nat_alt)
    moreover have "utf8_valid (as_bytes (trim_ascii_end s) @ byte_of_char c # as_bytes w')"
      using v w(1) Cons unfolding valid_str_def by (metis as_bytes_append as_bytes_def list.simps(9))
    ultimately show ?thesis unfolding valid_str_def by (rule utf8_valid_before_ascii [rotated])
  qed
qed

lemma parse_header_line_canonical: "parse_header_line l = Inr h \<Longrightarrow> canonical h"
proof -
  assume p: "parse_header_line l = Inr h"
  then obtain rb v raw where sp: "split_once 58 l = Some (rb, v)" and fu: "from_utf8 rb = Some raw"
    and fold: "l \<noteq> [] \<longrightarrow> hd l \<noteq> 32" and h: "h = \<lparr>hl_name = trim_ascii_end raw, hl_value = v\<rparr>"
    and ok: "\<not> list_ex is_ascii_control (trim_ascii_end raw)"
      "\<not> list_ex (\<lambda>b. b = 13 \<or> b = 10 \<or> b = 0) v"
    by (auto simp: parse_header_line_def Let_def
        split: if_split_asm option.split_asm prod.split_asm)
  from sp fu have l: "l = as_bytes raw @ 58 # v" "58 \<notin> set (as_bytes raw)" "valid_str raw"
    by (simp_all add: split_once_Some_iff from_utf8_Some_iff)
  obtain w where w: "raw = trim_ascii_end raw @ w" using trim_ascii_end_split by blast
  have "set (trim_ascii_end raw) \<subseteq> set raw" by (subst (2) w) simp
  moreover have "trim_ascii_end raw = [] \<or> hd (trim_ascii_end raw) \<noteq> CHR '' ''"
  proof (cases "trim_ascii_end raw")
    case (Cons c r)
    with w have "raw = c # r @ w" by simp
    then have "hd l = byte_of_char c" by (simp add: l(1) as_bytes_def)
    with fold l(1) Cons show ?thesis by auto
  qed simp
  ultimately show ?thesis
    using ok l(2,3) by (auto simp: h canonical_def valid_str_trim_ascii_end trim_ascii_end_idem in_as_bytes)
qed

lemma parse_emit_header: "canonical h \<Longrightarrow> parse_header_line (emit_header h) = Inr h"
proof -
  assume c: "canonical h"
  then have "58 \<notin> set (as_bytes (hl_name h))" by (simp add: canonical_def in_as_bytes)
  then have "split_once 58 (emit_header h) = Some (as_bytes (hl_name h), hl_value h)"
    by (simp add: emit_header_def split_once_Some_iff)
  moreover have "hd (emit_header h) \<noteq> 32 \<and> hd (emit_header h) \<noteq> 9"
  proof (cases "hl_name h")
    case (Cons a r)
    with c have "a \<noteq> CHR '' ''" "byte_of_char a \<noteq> 9"
      using control_free_bytes [of "hl_name h" 9] by (auto simp: canonical_def as_bytes_def)
    then show ?thesis using Cons by (auto simp: emit_header_def as_bytes_def byte_of_char_iff)
  qed (simp add: emit_header_def as_bytes_def)
  ultimately show ?thesis
    using c by (simp add: parse_header_line_def canonical_def Let_def)
qed

lemma emit_header_line: "canonical h \<Longrightarrow> 13 \<notin> set (emit_header h) \<and> 10 \<notin> set (emit_header h)"
  by (auto simp: canonical_def emit_header_def list_ex_iff control_free_bytes)

lemma split_header_lines_line:
  "13 \<notin> set l \<Longrightarrow> split_header_lines (l @ crlf @ rest) out =
     result_bind (parse_header_line l) (\<lambda>h. split_header_lines rest (out @ [h]))"
proof -
  assume "13 \<notin> set l"
  then have f: "find_crlf (l @ crlf @ rest) = Some (length l)" by (rule find_crlf_line)
  show ?thesis
    unfolding split_header_lines.simps [of "l @ crlf @ rest"] Let_def f by (simp add: crlf_def)
qed

lemma split_emitted:
  "list_all canonical hs \<Longrightarrow>
   split_header_lines (concat (map (\<lambda>h. emit_header h @ crlf) hs)) out = Inr (out @ hs)"
proof (induction hs arbitrary: out)
  case (Cons h hs)
  then show ?case by (simp add: split_header_lines_line emit_header_line parse_emit_header)
qed (simp add: split_header_lines.simps)

lemma split_header_lines_canonical:
  "split_header_lines block out = Inr hs \<Longrightarrow> list_all canonical out \<Longrightarrow> list_all canonical hs"
proof (induction block out rule: split_header_lines.induct)
  case (1 rest out)
  then show ?case
    unfolding split_header_lines.simps [of rest out]
    by (auto simp: result_bind_Inr_iff Let_def dest: parse_header_line_canonical split: if_splits)
qed

section \<open>Refused requests\<close>

definition is_bad_request :: "reject \<Rightarrow> bool" where
  "is_bad_request r \<longleftrightarrow> rej_code r = 400 \<and> rej_reason r = ''Bad Request''"

lemma bad_request_is [simp]: "is_bad_request (bad_request d)" "is_bad_request (malformed_header l)"
  by (simp_all add: is_bad_request_def bad_request_def malformed_header_def)

lemma parse_header_line_Inl: "parse_header_line l = Inl r \<Longrightarrow> is_bad_request r"
  by (auto simp: parse_header_line_def Let_def split: if_split_asm option.split_asm prod.split_asm)

lemma split_header_lines_Inl: "split_header_lines rest out = Inl r \<Longrightarrow> is_bad_request r"
proof (induction rest out rule: split_header_lines.induct)
  case (1 rest out)
  let ?e = "case find_crlf rest of Some i \<Rightarrow> i | None \<Rightarrow> length rest"
  show ?case
  proof (cases "parse_header_line (take ?e rest)")
    case (Inl r')
    with "1.prems" show ?thesis
      unfolding split_header_lines.simps [of rest out] by (simp add: parse_header_line_Inl Let_def split: if_splits)
  next
    case (Inr h)
    with "1.prems" "1.IH" [OF _ refl Inr] show ?thesis
      unfolding split_header_lines.simps [of rest out] by (simp add: Let_def split: if_splits)
  qed
qed

lemma rewrite_forward_Inl: "rewrite_forward m t v block = Inl r \<Longrightarrow> is_bad_request r"
proof -
  assume r: "rewrite_forward m t v block = Inl r"
  show ?thesis
  proof (cases "split_header_lines block []")
    case (Inl r')
    with r split_header_lines_Inl [OF Inl] show ?thesis
      by (auto simp: rewrite_forward_def Let_def split: if_split_asm option.split_asm prod.split_asm)
  next
    case (Inr hs)
    with r show ?thesis
      by (auto simp: rewrite_forward_def Let_def split: if_split_asm option.split_asm prod.split_asm)
  qed
qed

lemma ends_head_find:
  assumes "ends_head head"
  shows "\<exists>i. find_crlf head = Some i \<and> i + 2 \<le> length head - 2"
proof -
  from assms obtain u where "head = u @ crlf @ crlf" by (auto simp: ends_head_def suffix_def)
  with find_crlf_append [of u crlf] show ?thesis by (auto simp: crlf_def)
qed

lemma parse_head_Inl:
  assumes "ends_head head" "tx_open s" "parse_head head s = (Inl e, s')"
  shows "err_kind e = Other \<and> rx s' = rx s \<and> (tx s' = tx s @ error_response 400 ''Bad Request'' \<or>
    tx s' = tx s @ error_response 505 ''HTTP Version Not Supported'')"
proof -
  obtain i where i: "find_crlf head = Some i" "\<not> length head - 2 < Suc (Suc i)"
    using ends_head_find [OF assms(1)] by auto
  show ?thesis
    using assms(2,3) rewrite_forward_Inl
    by (auto simp: parse_head_def i Let_def io_simps is_bad_request_def
        split: option.split_asm if_split_asm sum.split_asm prod.split_asm)
qed

lemma parse_head_Inr: "parse_head head s = (Inr r, s') \<Longrightarrow> s' = s"
  by (auto simp: parse_head_def Let_def split: option.split_asm if_split_asm sum.split_asm prod.split_asm)

lemma http_read_request_Inr_iff:
  "http_read_request s = (Inr r, s') \<longleftrightarrow>
     (\<exists>h rest. rx s = h @ rest \<and> head_found [] h \<and> s' = s\<lparr>rx := rest\<rparr> \<and> parse_head h s' = (Inr r, s'))"
proof -
  have "Suc (length []) \<le> MAX_HTTP_HEADER" by (simp add: MAX_HTTP_HEADER_def)
  note hd = read_head_Inr_iff [OF this]
  show ?thesis
    unfolding http_read_request_def io_bind_Inr_iff hd
    by (auto dest: parse_head_Inr) 
qed

section \<open>Properties\<close>

text \<open>A request is read without touching what follows it: when a request is returned, the
  bytes consumed are exactly the shortest prefix of the input that ends in a blank line, of
  at most 64 KiB, and nothing was written; every later byte (the tunnel's, or a forwarded
  request's body) is still on the stream.\<close>

theorem http_request_consumes_head:
  assumes "http_read_request s = (Inr req, s')"
  shows "\<exists>head. rx s = head @ rx s' \<and> s' = s\<lparr>rx := rx s'\<rparr> \<and> ends_head head \<and>
    length head \<le> 65536 \<and> (\<forall>p. strict_prefix p head \<longrightarrow> \<not> ends_head p)"
proof -
  from assms obtain h rest where h: "rx s = h @ rest" "head_found [] h" "s' = s\<lparr>rx := rest\<rparr>"
    by (auto simp: http_read_request_Inr_iff)
  moreover have "\<not> ends_head p" if "strict_prefix p h" for p
  proof (cases "p = []")
    case False
    from that have "p = take (length p) h" "length p < length h"
      by (auto simp: strict_prefix_def prefix_def)
    with False h(2) show ?thesis by (metis append_Nil head_found_def length_greater_0_conv)
  qed (simp add: ends_head_def crlf_def)
  ultimately show ?thesis
    by (intro exI [of _ h]) (auto simp: head_found_def MAX_HTTP_HEADER_def)
qed

theorem http_request_consumes_head_witness:
  "http_read_request \<lparr>rx = as_bytes ''CONNECT a:1 HTTP/1.1'' @ crlf @ crlf @ [22, 3], tx = [], tx_open = True\<rparr>
     = (Inr (Connect (TDomain ''a'' 1)), \<lparr>rx = [22, 3], tx = [], tx_open = True\<rparr>) \<and>
   (\<exists>head. as_bytes ''CONNECT a:1 HTTP/1.1'' @ crlf @ crlf @ [22, 3] = head @ [22, 3] \<and> ends_head head)"
proof -
  have r: "http_read_request \<lparr>rx = as_bytes ''CONNECT a:1 HTTP/1.1'' @ crlf @ crlf @ [22, 3], tx = [], tx_open = True\<rparr>
     = (Inr (Connect (TDomain ''a'' 1)), \<lparr>rx = [22, 3], tx = [], tx_open = True\<rparr>)"
    by code_simp
  from http_request_consumes_head [OF r] r show ?thesis by (metis stream.select_convs(1))
qed

text \<open>The reader never panics and leaves no refused request unanswered: an error is either
  the end of the input before the head was complete, with nothing written, or an ordinary
  error after exactly one 400 or 505 response was sent to the application.\<close>

theorem http_errors_are_answered:
  assumes "tx_open s" and "http_read_request s = (Inl e, s')"
  shows "(e = eof_error \<and> tx s' = tx s) \<or>
    (err_kind e = Other \<and> (tx s' = tx s @ error_response 400 ''Bad Request'' \<or>
       tx s' = tx s @ error_response 505 ''HTTP Version Not Supported''))"
proof (cases "read_head [] s")
  case (Pair r s1)
  show ?thesis
  proof (cases r)
    case (Inl e')
    with Pair assms read_head_Inl [of "[]" s e' s1] show ?thesis
      by (auto simp: http_read_request_def io_bind_def)
  next
    case (Inr h)
    have "Suc (length []) \<le> MAX_HTTP_HEADER" by (simp add: MAX_HTTP_HEADER_def)
    from read_head_Inr_iff [OF this, of s h s1] Pair Inr have "ends_head h" "tx s1 = tx s" "tx_open s1"
      using assms(1) by (auto simp: head_found_def)
    with parse_head_Inl [of h s1 e s'] Pair Inr assms(2) show ?thesis
      by (auto simp: http_read_request_def io_bind_def)
  qed
qed

theorem http_errors_are_answered_witness:
  "\<exists>e. http_read_request \<lparr>rx = as_bytes ''GET /x HTTP/2.0'' @ crlf @ crlf, tx = [], tx_open = True\<rparr> =
     (Inl e, \<lparr>rx = [], tx = error_response 505 ''HTTP Version Not Supported'', tx_open = True\<rparr>) \<and>
   err_kind e = Other"
proof -
  let ?s = "\<lparr>rx = as_bytes ''GET /x HTTP/2.0'' @ crlf @ crlf, tx = [], tx_open = True\<rparr>"
  have r: "http_read_request ?s = (Inl (io_other ''unsupported HTTP version: {version}'' [FStr ''HTTP/2.0'']),
      \<lparr>rx = [], tx = error_response 505 ''HTTP Version Not Supported'', tx_open = True\<rparr>)"
    by code_simp
  from http_errors_are_answered [OF _ r] r show ?thesis by (auto simp: eof_error_def)
qed

section \<open>What a forwarded head consists of\<close>

definition forward_lines ::
  "string \<Rightarrow> string \<Rightarrow> string \<Rightarrow> string \<Rightarrow> header_line list \<Rightarrow> bytes list" where
  "forward_lines meth path version authority survivors =
     [as_bytes (meth @ '' '' @ path @ '' '' @ version), as_bytes (''Host: '' @ authority)]
     @ map emit_header survivors @ [as_bytes ''Connection: close'']"

lemma concat_stripped:
  "concat (map (\<lambda>h. if P h then [] else f h) hs) = concat (map f (filter (\<lambda>h. \<not> P h) hs))"
  by (induction hs) auto

lemma rewrite_forward_InrD:
  assumes "rewrite_forward meth t version block = Inr (tgt, out)"
  obtains rest authority path host port hs where
    "strip_scheme t ''http://'' = Some rest" "split_path rest = (authority, path)"
    "split_authority authority (Some 80) = Some (host, port)" "tgt = host_to_target host port"
    "split_header_lines block [] = Inr hs"
    "out = concat (map (\<lambda>l. l @ crlf)
       (forward_lines meth path version authority (filter (\<lambda>h. \<not> stripped (connection_options hs) h) hs)))
       @ crlf"
proof -
  from assms obtain rest authority path host port hs where
    *: "strip_scheme t ''http://'' = Some rest" "split_path rest = (authority, path)"
    "split_authority authority (Some 80) = Some (host, port)" "tgt = host_to_target host port"
    "split_header_lines block [] = Inr hs"
    "out = as_bytes (meth @ '' '' @ path @ '' '' @ version) @ crlf
      @ as_bytes (''Host: '' @ authority) @ crlf
      @ concat (map (\<lambda>h. if stripped (connection_options hs) h then [] else emit_header h @ crlf) hs)
      @ as_bytes ''Connection: close'' @ crlf @ crlf"
    unfolding rewrite_forward_def Let_def
    by (auto simp: result_bind_Inr_iff simp del: append.simps
        split: option.split_asm prod.split_asm if_split_asm)
  have "out = concat (map (\<lambda>l. l @ crlf)
       (forward_lines meth path version authority (filter (\<lambda>h. \<not> stripped (connection_options hs) h) hs)))
       @ crlf"
    unfolding *(6) concat_stripped forward_lines_def by (simp add: comp_def)
  with * that show ?thesis by blast
qed

lemma split_path_chars:
  "split_path rest = (authority, path) \<Longrightarrow>
   set authority \<subseteq> set rest \<and> set path \<subseteq> insert CHR ''/'' (set rest) \<and> prefix ''/'' path"
proof -
  assume sp: "split_path rest = (authority, path)"
  let ?P = "\<lambda>c. c \<noteq> CHR ''/'' \<and> c \<noteq> CHR ''?''"
  have s: "set (takeWhile ?P rest) \<subseteq> set rest" "set (dropWhile ?P rest) \<subseteq> set rest"
    by (metis set_append Un_upper1 Un_upper2 takeWhile_dropWhile_id)+
  show ?thesis
  proof (cases "dropWhile ?P rest")
    case Nil
    from sp have "authority = rest" "path = ''/''" unfolding split_path_def Let_def Nil by simp_all
    then show ?thesis by simp
  next
    case (Cons c r)
    have r: "set (c # r) \<subseteq> set rest" using s(2) unfolding Cons .
    from sp have "authority = takeWhile ?P rest"
      and "path = c # r \<and> c = CHR ''/'' \<or> path = CHR ''/'' # c # r"
      unfolding split_path_def Let_def Cons by (auto split: if_split_asm)
    with s(1) r show ?thesis by (elim disjE conjE) (simp_all add: subset_insertI2)
  qed
qed

lemma strip_scheme_chars: "strip_scheme t sch = Some rest \<Longrightarrow> set rest \<subseteq> set t"
  by (auto simp: strip_scheme_def split_at_checked_def bind_eq_Some_conv set_drop_subset
      dest!: in_set_dropD split: if_split_asm)

lemma split_on_chars: "p \<in> set (split_on c s) \<Longrightarrow> set p \<subseteq> set s"
  by (induction s arbitrary: p) (force split: if_splits list.splits)+

lemma line_bytes:
  "\<forall>c \<in> set l. \<not> is_ascii_control c \<Longrightarrow> 13 \<notin> set (as_bytes l) \<and> 10 \<notin> set (as_bytes l)"
  using control_free_bytes [of l 13] control_free_bytes [of l 10] by (simp add: list_ex_iff)

lemma not_control [simp]: "\<not> is_ascii_control CHR '' ''" "\<not> is_ascii_control CHR ''/''"
  by (simp_all add: is_ascii_control_def)

lemma parse_head_Forward:
  assumes p: "parse_head head s = (Inr (Forward t out), s')"
  shows "\<exists>line meth rt version block. \<not> list_ex is_ascii_control line \<and>
    set meth \<union> set rt \<union> set version \<subseteq> set line \<and> rewrite_forward meth rt version block = Inr (t, out)"
proof -
  obtain i line where i: "find_crlf head = Some i" "from_utf8 (take i head) = Some line"
    and line: "\<not> list_ex is_ascii_control line"
    using p by (auto simp: parse_head_def split: option.split_asm if_split_asm)
  let ?ps = "split_on CHR '' '' line"
  have "2 < length ?ps \<and> (\<exists>block. rewrite_forward (?ps ! 0) (?ps ! 1) (?ps ! 2) block = Inr (t, out))"
    using p by (auto simp: parse_head_def i line Let_def
        split: if_split_asm option.split_asm sum.split_asm prod.split_asm)
  then obtain block where "2 < length ?ps" "rewrite_forward (?ps ! 0) (?ps ! 1) (?ps ! 2) block = Inr (t, out)"
    by blast
  moreover from this(1) have "set (?ps ! k) \<subseteq> set line" if "k < 3" for k
    using that by (intro split_on_chars [of _ "CHR '' ''"] nth_mem) simp
  ultimately show ?thesis using line
    by (intro exI [of _ line] exI [of _ "?ps ! 0"] exI [of _ "?ps ! 1"] exI [of _ "?ps ! 2"] exI [of _ block]) auto
qed

lemma forward_lines_clean:
  assumes "\<forall>c \<in> set meth \<union> set path \<union> set version \<union> set authority. \<not> is_ascii_control c"
    and "list_all canonical hs" and "l \<in> set (forward_lines meth path version authority hs)"
  shows "13 \<notin> set l \<and> 10 \<notin> set l \<and> l \<noteq> []"
proof -
  let ?strs = "{meth @ '' '' @ path @ '' '' @ version, ''Host: '' @ authority, ''Connection: close''}"
  from assms(3) consider (str) u where "u \<in> ?strs" "l = as_bytes u" | (hdr) h where "h \<in> set hs" "l = emit_header h"
    by (auto simp: forward_lines_def simp del: append.simps as_bytes_append)
  then show ?thesis
  proof cases
    case str
    have "list_all (\<lambda>c. \<not> is_ascii_control c) ''Host: ''"
      "list_all (\<lambda>c. \<not> is_ascii_control c) ''Connection: close''" by code_simp+
    with str(1) have "\<forall>c \<in> set u. \<not> is_ascii_control c" "u \<noteq> []"
      using assms(1) by (auto simp: list_all_iff)
    with str(2) line_bytes [of u] show ?thesis by (simp add: as_bytes_def)
  next
    case hdr
    with assms(2) emit_header_line [of h] show ?thesis by (simp add: list_all_iff) (simp add: emit_header_def)
  qed
qed

section \<open>Authorities\<close>

text \<open>A well-formed authority is read back as the host and port it was made of: a plain name
  or a V4 address, or a bracketed V6 address, with a decimal port or without one.\<close>

lemma split_authority_plain:
  "h \<noteq> [] \<Longrightarrow> CHR '':'' \<notin> set h \<Longrightarrow> \<not> prefix ''['' h \<Longrightarrow> p \<noteq> 0 \<Longrightarrow>
   split_authority (h @ '':'' @ show_nat (unat p)) d = Some (h, p)"
proof -
  assume h: "h \<noteq> []" "CHR '':'' \<notin> set h" "\<not> prefix ''['' h" "p \<noteq> 0"
  have "CHR '':'' \<notin> set (show_nat (unat p))"
    using show_nat_digits [of "unat p"] by (auto simp: list_all_iff is_digit_def)
  then have "rsplit_once CHR '':'' (h @ '':'' @ show_nat (unat p)) = Some (h, show_nat (unat p))"
    by (simp add: rsplit_once_Some_iff)
  moreover have "strip_prefix ''['' (h @ '':'' @ show_nat (unat p)) = None"
    using h(1,3) by (cases h) auto
  ultimately show ?thesis using h(1,2,4) by (simp add: split_authority_def parse_u16_show_nat)
qed

lemma split_authority_bracketed:
  "a \<noteq> [] \<Longrightarrow> CHR '']'' \<notin> set a \<Longrightarrow> p \<noteq> 0 \<Longrightarrow>
   split_authority (''['' @ a @ '']:'' @ show_nat (unat p)) d = Some (a, p)"
  by (simp add: split_authority_def parse_u16_show_nat split_once_Some_iff
      [THEN iffD2, of "a @ CHR '']'' # CHR '':'' # show_nat (unat p)" a _ "CHR '':'' # show_nat (unat p)"])

lemma split_authority_SomeD:
  "split_authority a d = Some (h, p) \<Longrightarrow>
     h \<noteq> [] \<and> (p \<noteq> 0 \<or> d = Some p) \<and> (prefix ''['' a \<or> CHR '':'' \<notin> set h)"
  by (auto simp: split_authority_def bind_eq_Some_conv rsplit_once_None_iff
      split: option.split_asm if_split_asm prod.split_asm)



text \<open>An authority made of a nonempty host and a nonzero decimal port is split into exactly
  that host and port, for a plain host without a colon and for a bracketed V6 address. In
  the other direction the host of a split authority is never empty and its port is nonzero
  unless it is the default.\<close>

theorem authority_round_trip:
  "(h \<noteq> [] \<and> p \<noteq> 0 \<and> CHR '':'' \<notin> set h \<and> \<not> prefix ''['' h \<longrightarrow>
      split_authority (h @ '':'' @ show_nat (unat p)) d = Some (h, p)) \<and>
   (h \<noteq> [] \<and> p \<noteq> 0 \<and> CHR '']'' \<notin> set h \<longrightarrow>
      split_authority (''['' @ h @ '']:'' @ show_nat (unat p)) d = Some (h, p)) \<and>
   (split_authority a d = Some (h, p) \<longrightarrow>
      h \<noteq> [] \<and> (p \<noteq> 0 \<or> d = Some p) \<and> (prefix ''['' a \<or> CHR '':'' \<notin> set h))"
  using split_authority_plain split_authority_bracketed split_authority_SomeD by blast

theorem authority_round_trip_witness:
  "split_authority ''example.com:8443'' None = Some (''example.com'', 8443) \<and>
   split_authority ''[fe80::1]:443'' None = Some (''fe80::1'', 443)"
proof -
  have n: "show_nat (unat (8443 :: u16)) = ''8443''" "show_nat (unat (443 :: u16)) = ''443''" by code_simp+
  show ?thesis
    using authority_round_trip [of "''example.com''" 8443 None "[]"]
      authority_round_trip [of "''fe80::1''" 443 None "[]"] unfolding n by simp
qed

section \<open>Deviations\<close>

text \<open>A port with a plus sign is taken as a number, and a \<^verbatim>\<open>Connection\<close> header that names
  \<^verbatim>\<open>Content-Length\<close> strips the length of a body that is relayed verbatim.\<close>

theorem signed_port_accepted: "split_authority ''a:+443'' None = Some (''a'', 443)"
  by code_simp

theorem connection_option_strips_content_length:
  "rewrite_forward ''POST'' ''http://a/'' ''HTTP/1.1''
     (as_bytes ''Connection: content-length'' @ crlf @ as_bytes ''Content-Length: 5'' @ crlf) =
   Inr (TDomain ''a'' 80, as_bytes ''POST / HTTP/1.1'' @ crlf @ as_bytes ''Host: a'' @ crlf
     @ as_bytes ''Connection: close'' @ crlf @ crlf)"
  by code_simp

end
