(* ===== verification/Status_Page.thy ===== *)
theory Status_Page
  imports Http Transport
begin

text \<open>
  The server status page, \<^verbatim>\<open>src/crates/flextunnel-core/src/proxy/status_page.rs\<close>, and the
  choice of its format from the request, in \<^verbatim>\<open>proxy/server.rs\<close>. Rendering the templates
  (\<^verbatim>\<open>askama\<close>) and the JSON text (\<^verbatim>\<open>serde_json\<close>) are parameters. The request head
  is read in chunks of the sizes the network delivers.
\<close>

section \<open>The page\<close>

definition STATUS_TEXT_PATH :: string where "STATUS_TEXT_PATH = ''/status.txt''"

definition STATUS_JSON_PATH :: string where "STATUS_JSON_PATH = ''/status.json''"

definition CONTENT_TYPE_HTML :: string where "CONTENT_TYPE_HTML = ''text/html; charset=utf-8''"

definition CONTENT_TYPE_TEXT :: string where "CONTENT_TYPE_TEXT = ''text/plain; charset=utf-8''"

definition CONTENT_TYPE_JSON :: string where "CONTENT_TYPE_JSON = ''application/json; charset=utf-8''"

datatype status_format = Html | Text | Json

record bridge_upstream_status =
  bus_name :: string
  bus_endpoint_id :: string
  bus_domains :: "string list"
  bus_cidrs :: "string list"
  bus_connected :: bool

record bridge_inbound_status =
  bis_endpoint_id :: string
  bis_connected :: bool

record server_status_template =
  st_version :: string
  st_node_id :: string
  st_routed_domains :: "string list"
  st_routed_cidrs :: "string list"
  st_host_aliases :: "(string \<times> string) list"
  st_dns_forwards :: "(string \<times> string list) list"
  st_bridges :: "bridge_upstream_status list"
  st_inbound_bridges :: "bridge_inbound_status list"
  st_blocklist_path :: string
  st_blocked_client_count :: nat
  st_conflicted_server_count :: nat

record host_alias_json =
  haj_name :: string
  haj_target :: string

record dns_forward_json =
  dfj_suffix :: string
  dfj_servers :: "string list"

record duplicate_id_blocklist_json =
  dbj_file :: string
  dbj_blocked_clients :: nat
  dbj_conflicted_servers :: nat

record server_status_json =
  sj_version :: string
  sj_server_node_id :: string
  sj_routed_domains :: "string list"
  sj_routed_cidrs :: "string list"
  sj_host_aliases :: "host_alias_json list"
  sj_dns_forwards :: "dns_forward_json list"
  sj_bridges :: "bridge_upstream_status list"
  sj_inbound_bridges :: "bridge_inbound_status list"
  sj_blocklist :: duplicate_id_blocklist_json

text \<open>The renderers of the libraries.\<close>

record renderers =
  render_html :: "server_status_template \<Rightarrow> msg + string"
  render_text :: "server_status_template \<Rightarrow> msg + string"
  to_string_pretty :: "server_status_json \<Rightarrow> msg + string"
  render_404 :: "msg + string"

definition FALLBACK_BODY :: string where
  "FALLBACK_BODY = ''<!DOCTYPE html><title>flextunnel</title><p>status page unavailable</p>''"

definition FALLBACK_TEXT_BODY :: string where
  "FALLBACK_TEXT_BODY = ''flextunnel server status unavailable'' @ [CHR 0x0A]"

definition FALLBACK_JSON_BODY :: string where
  "FALLBACK_JSON_BODY = ''{\"error\":\"flextunnel server status unavailable\"}'' @ [CHR 0x0A]"

definition render_status_text :: "renderers \<Rightarrow> server_status_template \<Rightarrow> msg + string" where
  "render_status_text rn tpl = render_text rn tpl"

definition status_payload :: "server_status_template \<Rightarrow> server_status_json" where
  "status_payload tpl =
     \<lparr>sj_version = st_version tpl, sj_server_node_id = st_node_id tpl,
      sj_routed_domains = st_routed_domains tpl, sj_routed_cidrs = st_routed_cidrs tpl,
      sj_host_aliases = map (\<lambda>(n, t). \<lparr>haj_name = n, haj_target = t\<rparr>) (st_host_aliases tpl),
      sj_dns_forwards = map (\<lambda>(x, ss). \<lparr>dfj_suffix = x, dfj_servers = ss\<rparr>) (st_dns_forwards tpl),
      sj_bridges = st_bridges tpl, sj_inbound_bridges = st_inbound_bridges tpl,
      sj_blocklist = \<lparr>dbj_file = st_blocklist_path tpl,
        dbj_blocked_clients = st_blocked_client_count tpl,
        dbj_conflicted_servers = st_conflicted_server_count tpl\<rparr>\<rparr>"

definition render_status_json :: "renderers \<Rightarrow> server_status_template \<Rightarrow> msg + string" where
  "render_status_json rn tpl =
     result_bind (to_string_pretty rn (status_payload tpl)) (\<lambda>body. Inr (body @ [CHR 0x0A]))"

definition or_fallback :: "string \<Rightarrow> string \<Rightarrow> msg + string \<Rightarrow> string \<times> string \<times> string" where
  "or_fallback content_type fallback r = (case r of
     Inr body \<Rightarrow> (''200 OK'', content_type, body)
   | Inl _ \<Rightarrow> (''500 Internal Server Error'', content_type, fallback))"

definition render_status ::
  "renderers \<Rightarrow> server_status_template \<Rightarrow> status_format \<Rightarrow> string \<times> string \<times> string" where
  "render_status rn tpl format = (case format of
     Html \<Rightarrow> or_fallback CONTENT_TYPE_HTML FALLBACK_BODY (render_html rn tpl)
   | Text \<Rightarrow> or_fallback CONTENT_TYPE_TEXT FALLBACK_TEXT_BODY (render_status_text rn tpl)
   | Json \<Rightarrow> or_fallback CONTENT_TYPE_JSON FALLBACK_JSON_BODY (render_status_json rn tpl))"

definition render_reserved_404 :: "renderers \<Rightarrow> string \<times> string \<times> string" where
  "render_reserved_404 rn =
     (''404 Not Found'', CONTENT_TYPE_HTML,
      case render_404 rn of Inr body \<Rightarrow> body | Inl _ \<Rightarrow> FALLBACK_BODY)"

definition write_tunnel_success :: "unit io" where
  "write_tunnel_success = write_reply REP_SUCCESS"

definition http_payload :: "string \<Rightarrow> string \<Rightarrow> string \<Rightarrow> bytes" where
  "http_payload status_line content_type body =
     as_bytes (''HTTP/1.1 '' @ status_line) @ crlf
     @ as_bytes (''Content-Type: '' @ content_type) @ crlf
     @ as_bytes (''Content-Length: '' @ show_nat (length body)) @ crlf
     @ as_bytes ''Connection: close'' @ crlf @ crlf @ as_bytes body"

definition write_http_payload :: "string \<Rightarrow> string \<Rightarrow> string \<Rightarrow> unit io" where
  "write_http_payload status_line content_type body =
     write_all (http_payload status_line content_type body)"

definition write_http_response :: "string \<Rightarrow> string \<Rightarrow> string \<Rightarrow> unit io" where
  "write_http_response status_line content_type body =
     io_bind write_tunnel_success (\<lambda>_. write_http_payload status_line content_type body)"

section \<open>Reading the request\<close>

definition RESERVED_REQUEST_HEAD_LIMIT :: nat where "RESERVED_REQUEST_HEAD_LIMIT = 64 * 1024"

definition RESERVED_DRAIN_TIMEOUT :: duration where "RESERVED_DRAIN_TIMEOUT = from_secs 5"

text \<open>One \<^verbatim>\<open>recv.read(&mut buf[..limit])\<close> that gets \<open>n\<close> bytes if as many are there: between
  one byte and the limit.\<close>

definition read_some :: "nat \<Rightarrow> nat \<Rightarrow> stream \<Rightarrow> bytes \<times> stream" where
  "read_some n limit s = (let k = min (max 1 n) limit in (take k (rx s), s\<lparr>rx := drop k (rx s)\<rparr>))"

definition has_blank_line :: "bytes \<Rightarrow> bool" where
  "has_blank_line head \<longleftrightarrow> list_ex (\<lambda>t. prefix (crlf @ crlf) t) (suffixes head)"

text \<open>\<open>chunks\<close> are the sizes in which the network delivers the request; the read after the
  last of them times out or fails.\<close>

fun read_reserved_request_head :: "nat list \<Rightarrow> bytes \<Rightarrow> stream \<Rightarrow> bytes \<times> stream" where
  "read_reserved_request_head [] head s = (head, s)"
| "read_reserved_request_head (n # chunks) head s =
     (if RESERVED_REQUEST_HEAD_LIMIT \<le> length head \<or> rx s = [] then (head, s)
      else case read_some n (min 1024 (RESERVED_REQUEST_HEAD_LIMIT - length head)) s of
        (bs, s) \<Rightarrow>
          if has_blank_line (head @ bs) then (head @ bs, s)
          else read_reserved_request_head chunks (head @ bs) s)"

fun drain_reserved_request :: "nat list \<Rightarrow> nat \<Rightarrow> stream \<Rightarrow> stream" where
  "drain_reserved_request [] drained s = s"
| "drain_reserved_request (n # chunks) drained s =
     (if RESERVED_REQUEST_HEAD_LIMIT \<le> drained \<or> rx s = [] then s
      else case read_some n 4096 s of
        (bs, s) \<Rightarrow> drain_reserved_request chunks (drained + length bs) s)"

section \<open>The format\<close>

definition strip_http_scheme :: "string \<Rightarrow> string option" where
  "strip_http_scheme t =
     Option.bind (split_at_checked t (length ''http://'')) (\<lambda>(p, rest).
       if eq_ignore_ascii_case p ''http://'' then Some rest else None)"

definition request_target_status_format :: "string \<Rightarrow> status_format option" where
  "request_target_status_format t =
     (let path = (case strip_http_scheme t of
            Some rest \<Rightarrow>
              (case dropWhile (\<lambda>c. c \<noteq> CHR ''/'' \<and> c \<noteq> CHR ''?'') rest of
                 [] \<Rightarrow> ''/'' | path \<Rightarrow> path)
          | None \<Rightarrow> t);
          path = (case split_once CHR ''?'' path of Some (p, _) \<Rightarrow> p | None \<Rightarrow> path) in
      if path = STATUS_TEXT_PATH then Some Text
      else if path = STATUS_JSON_PATH then Some Json
      else None)"

definition media_format :: "string \<Rightarrow> status_format option" where
  "media_format part =
     (let media_type = trim (hd (split_on CHR '';'' (trim part))) in
      if eq_ignore_ascii_case media_type ''application/json'' then Some Json
      else if eq_ignore_ascii_case media_type ''text/plain'' then Some Text
      else None)"

text \<open>The first part of a list for which \<open>f\<close> gives something: \<^verbatim>\<open>Iterator::find_map\<close>.\<close>

fun find_map :: "('a \<Rightarrow> 'b option) \<Rightarrow> 'a list \<Rightarrow> 'b option" where
  "find_map f [] = None"
| "find_map f (x # xs) = (case f x of Some y \<Rightarrow> Some y | None \<Rightarrow> find_map f xs)"

definition status_format_for_accept :: "string \<Rightarrow> status_format option" where
  "status_format_for_accept value = find_map media_format (split_on CHR '','' value)"

text \<open>\<^verbatim>\<open>split\<close> on the two characters of a line end, and \<^verbatim>\<open>split_ascii_whitespace\<close>.\<close>

fun split_crlf :: "string \<Rightarrow> string list" where
  "split_crlf (a # b # r) =
     (if a = CHR 0x0D \<and> b = CHR 0x0A then [] # split_crlf r
      else (case split_crlf (b # r) of p # ps \<Rightarrow> (a # p) # ps | [] \<Rightarrow> [[a]]))"
| "split_crlf s = [s]"

fun words_aux :: "string \<Rightarrow> string \<Rightarrow> string list" where
  "words_aux acc [] = (if acc = [] then [] else [acc])"
| "words_aux acc (c # r) =
     (if is_ascii_whitespace c
      then (if acc = [] then words_aux [] r else acc # words_aux [] r)
      else words_aux (acc @ [c]) r)"

definition split_ascii_whitespace :: "string \<Rightarrow> string list" where
  "split_ascii_whitespace s = words_aux [] s"

definition accept_line_format :: "string \<Rightarrow> status_format option" where
  "accept_line_format line = (case split_once CHR '':'' line of
     None \<Rightarrow> None
   | Some (name, value) \<Rightarrow>
       if eq_ignore_ascii_case name ''accept'' then status_format_for_accept value else None)"

definition status_format_for_reserved_request :: "bytes \<Rightarrow> status_format" where
  "status_format_for_reserved_request bs =
     (case from_utf8 bs of
        None \<Rightarrow> Html
      | Some head \<Rightarrow>
          let ls = split_crlf head in
          (case (case split_ascii_whitespace (hd ls) of
                   _ # t # _ \<Rightarrow> request_target_status_format t
                 | _ \<Rightarrow> None) of
             Some f \<Rightarrow> f
           | None \<Rightarrow> (case find_map accept_line_format (tl ls) of Some f \<Rightarrow> f | None \<Rightarrow> Html)))"

section \<open>Facts\<close>

lemma wb_status [wb]:
  "well_behaved write_tunnel_success" "well_behaved (write_http_payload a b c)"
  "well_behaved (write_http_response a b c)"
  unfolding write_tunnel_success_def write_http_payload_def write_http_response_def by (intro wb)+

text \<open>The head is what was taken off the input, and never more than the limit.\<close>

lemma read_some_take: "read_some n limit s = (bs, s') \<Longrightarrow> rx s = bs @ rx s' \<and> length bs \<le> limit \<and>
   tx s' = tx s \<and> tx_open s' = tx_open s"
  by (auto simp: read_some_def Let_def)

lemma read_reserved_request_head_take:
  "read_reserved_request_head chunks head s = (head', s') \<Longrightarrow> length head \<le> RESERVED_REQUEST_HEAD_LIMIT \<Longrightarrow>
   (\<exists>bs. head' = head @ bs \<and> rx s = bs @ rx s') \<and> length head' \<le> RESERVED_REQUEST_HEAD_LIMIT \<and>
   tx s' = tx s \<and> tx_open s' = tx_open s"
proof (induction chunks head s rule: read_reserved_request_head.induct)
  case (2 n chunks head s)
  obtain bs s1 where r: "read_some n (min 1024 (RESERVED_REQUEST_HEAD_LIMIT - length head)) s = (bs, s1)"
    by fastforce
  note t = read_some_take [OF r]
  show ?case
  proof (cases "RESERVED_REQUEST_HEAD_LIMIT \<le> length head \<or> rx s = []")
    case True
    with "2.prems" have "head' = head" "s' = s" by auto
    with "2.prems"(2) show ?thesis by simp
  next
    case False
    from t "2.prems"(2) have l: "length (head @ bs) \<le> RESERVED_REQUEST_HEAD_LIMIT" by auto
    show ?thesis
    proof (cases "has_blank_line (head @ bs)")
      case True
      with False r "2.prems"(1) have "head' = head @ bs" "s' = s1" by simp_all
      with t l show ?thesis by simp
    next
      case nb: False
      with False r "2.prems"(1) have "read_reserved_request_head chunks (head @ bs) s1 = (head', s')" by simp
      from "2.IH" [OF False r [symmetric] nb this l]
      obtain bs' where "head' = head @ bs @ bs'" "rx s1 = bs' @ rx s'" "tx s' = tx s1"
          "tx_open s' = tx_open s1" "length head' \<le> RESERVED_REQUEST_HEAD_LIMIT" by auto
      with t show ?thesis by (intro conjI exI [of _ "bs @ bs'"]) simp_all
    qed
  qed
qed simp

lemma drain_reserved_request_tx:
  "tx (drain_reserved_request chunks d s) = tx s" "tx_open (drain_reserved_request chunks d s) = tx_open s"
  by (induction chunks d s rule: drain_reserved_request.induct)
    (auto simp: read_some_def Let_def)

end
