(* ===== verification/Server.thy ===== *)
theory Server
  imports Bridge Blocklist Dial Status_Page Reserved
begin

text \<open>
  The server, \<^verbatim>\<open>src/crates/flextunnel-core/src/proxy/server.rs\<close> and
  \<^verbatim>\<open>src/crates/flextunnel-core/src/auth.rs\<close>: its state, authentication, what a new connection
  goes through until it is served, host aliases, and what happens to one tunnel stream. The
  record \<open>proxy_server\<close> has the fields of \<^verbatim>\<open>ProxyServer\<close>, the contents of its locks
  included. A connection handler runs from the handshake to the point where it serves, or to
  its end; the clean-up of its guard is a separate operation.
\<close>

section \<open>State\<close>

definition HANDSHAKE_TIMEOUT :: duration where "HANDSHAKE_TIMEOUT = from_secs 10"

definition MAX_CONCURRENT_CONNECTIONS :: nat where "MAX_CONCURRENT_CONNECTIONS = 1024"

definition CLOSE_DUPLICATE :: nat where "CLOSE_DUPLICATE = 2"

record ('n, 'r) proxy_server =
  own_id :: endpoint_id
  srv_nonce :: u128
  authorized_keys :: "string list"
  allowed_bridge_servers :: "endpoint_id list"
  srv_bridges :: "'n bridge_upstream list"
  srv_host_aliases :: "(string \<times> string) list"
  srv_routed_set :: "'n routed_set"
  srv_routed_domains :: "string list"
  srv_routed_cidrs :: "string list"
  srv_dns_forwarder :: "'r dns_forwarder option"
  srv_registry :: registry
  srv_bridge_registry :: bridge_registry
  srv_blocklist :: block_list
  shutdown_notified :: bool
  first_client :: "bool option"

record ('n, 'r) proxy_server_params =
  psp_own_id :: endpoint_id
  psp_authorized_keys :: "string list"
  psp_allowed_bridge_servers :: "endpoint_id list"
  psp_host_aliases :: "(string \<times> string) list"
  psp_routed_set :: "'n routed_set"
  psp_routed_domains :: "string list"
  psp_routed_cidrs :: "string list"
  psp_dns_forwarder :: "'r dns_forwarder option"
  psp_bridges :: "'n bridge_upstream list"
  psp_blocklist :: block_list
  psp_first_client :: "bool option"

definition bridge_name :: "'n bridge_upstream \<Rightarrow> string" where
  "bridge_name b = buc_name (bu_config b)"

text \<open>The nonce is drawn at random.\<close>

definition proxy_server_new :: "u128 \<Rightarrow> ('n, 'r) proxy_server_params \<Rightarrow> ('n, 'r) proxy_server" where
  "proxy_server_new nonce p =
     \<lparr>own_id = psp_own_id p, srv_nonce = nonce, authorized_keys = psp_authorized_keys p,
      allowed_bridge_servers = psp_allowed_bridge_servers p,
      srv_bridges = sort_key bridge_name (psp_bridges p), srv_host_aliases = psp_host_aliases p,
      srv_routed_set = psp_routed_set p, srv_routed_domains = psp_routed_domains p,
      srv_routed_cidrs = psp_routed_cidrs p, srv_dns_forwarder = psp_dns_forwarder p,
      srv_registry = [], srv_bridge_registry = [], srv_blocklist = psp_blocklist p,
      shutdown_notified = False, first_client = psp_first_client p\<rparr>"

definition sorted_host_aliases :: "('n, 'r) proxy_server \<Rightarrow> (string \<times> string) list" where
  "sorted_host_aliases srv = sort (srv_host_aliases srv)"

definition srv_dns_forwards :: "('n, 'r) proxy_server \<Rightarrow> (string \<times> string list) list" where
  "srv_dns_forwards srv = (case srv_dns_forwarder srv of Some f \<Rightarrow> forwarder_forwards f | None \<Rightarrow> [])"

definition bridge_summaries :: "('n, 'r) proxy_server \<Rightarrow> bridge_summary list" where
  "bridge_summaries srv = map (\<lambda>b.
     \<lparr>summary_name = buc_name (bu_config b), summary_endpoint_id = buc_endpoint_id (bu_config b),
      summary_domains = buc_domains (bu_config b), summary_cidrs = buc_cidrs (bu_config b)\<rparr>) (srv_bridges srv)"

definition outbound_bridge_status :: "('n, 'r) proxy_server \<Rightarrow> bridge_upstream_status list" where
  "outbound_bridge_status srv = map (\<lambda>b.
     \<lparr>bus_name = buc_name (bu_config b), bus_endpoint_id = buc_endpoint_id (bu_config b),
      bus_domains = buc_domains (bu_config b), bus_cidrs = buc_cidrs (bu_config b),
      bus_connected = bridge_is_connected b\<rparr>) (srv_bridges srv)"

definition inbound_bridge_status :: "('n, 'r) proxy_server \<Rightarrow> bridge_inbound_status list" where
  "inbound_bridge_status srv = sort_key bis_endpoint_id (map (\<lambda>i.
     \<lparr>bis_endpoint_id = i, bis_connected = bridge_present (srv_bridge_registry srv) i\<rparr>)
     (allowed_bridge_servers srv))"

definition connected_client_keys :: "('n, 'r) proxy_server \<Rightarrow> string list" where
  "connected_client_keys srv =
     sort (remdups (List.map_filter (\<lambda>(q, e). client_key e) (concat (map snd (srv_registry srv)))))"

definition build_status_template :: "string \<Rightarrow> ('n, 'r) proxy_server \<Rightarrow> server_status_template" where
  "build_status_template version srv =
     \<lparr>st_version = version, st_node_id = own_id srv, st_routed_domains = srv_routed_domains srv,
      st_routed_cidrs = srv_routed_cidrs srv, st_host_aliases = sorted_host_aliases srv,
      st_dns_forwards = srv_dns_forwards srv, st_bridges = outbound_bridge_status srv,
      st_inbound_bridges = inbound_bridge_status srv, st_blocklist_path = bl_path (srv_blocklist srv),
      st_blocked_client_count = blocked_client_count (srv_blocklist srv),
      st_conflicted_server_count = conflicted_server_count (srv_blocklist srv)\<rparr>"

section \<open>The environment of a handler\<close>

text \<open>What the libraries and the system give a handler: the JSON coding of the messages and of
  the blocklist, parsing of ids and public keys (a key is represented by its canonical
  token), signature verification, the clocks, and what the calls of one file write do.\<close>

record handler_env =
  he_hello :: "bytes \<Rightarrow> msg + hello"
  he_bridge_hello :: "bytes \<Rightarrow> msg + bridge_hello"
  he_response :: "hello_response \<Rightarrow> msg + bytes"
  he_blocklist :: "block_list_data \<Rightarrow> msg + string"
  parse_id :: "string \<Rightarrow> endpoint_id option"
  parse_key :: "string \<Rightarrow> string option"
  verify_signature :: "string \<Rightarrow> bytes \<Rightarrow> endpoint_id \<Rightarrow> string \<Rightarrow> bool"
  he_now :: instant
  he_now_ms :: u64
  he_fs :: fs_calls
  he_writer :: "nat \<times> nat"

text \<open>The server, the disk and the connections closed so far, with code and reason.\<close>

record ('n, 'r) server_world =
  w_server :: "('n, 'r) proxy_server"
  w_disk :: files
  w_closed :: "(connection \<times> nat \<times> string) list"

definition close_conn :: "connection \<Rightarrow> nat \<Rightarrow> string \<Rightarrow> ('n, 'r) server_world \<Rightarrow> ('n, 'r) server_world" where
  "close_conn c code reason w = w\<lparr>w_closed := w_closed w @ [(c, code, reason)]\<rparr>"

definition persist_blocklist ::
  "handler_env \<Rightarrow> block_list \<Rightarrow> files \<Rightarrow> (io_error + unit) \<times> files" where
  "persist_blocklist env bl disk =
     (case to_json (he_blocklist env) bl of
        Inl e \<Rightarrow> (Inl e, disk)
      | Inr json \<Rightarrow> write_atomic (he_fs env) (he_writer env) (bl_path bl) json disk)"

definition self_block :: "handler_env \<Rightarrow> msg \<Rightarrow> ('n, 'r) server_world \<Rightarrow> ('n, 'r) server_world" where
  "self_block env reason w =
     (let srv = w_server w;
          (added, bl) = add_conflicted_server (he_now_ms env) (srv_blocklist srv) (own_id srv) reason;
          disk = (if added then snd (persist_blocklist env bl (w_disk w)) else w_disk w) in
      w\<lparr>w_server := srv\<lparr>srv_blocklist := bl, shutdown_notified := True\<rparr>, w_disk := disk\<rparr>)"

definition block_client ::
  "handler_env \<Rightarrow> endpoint_id \<Rightarrow> msg \<Rightarrow> ('n, 'r) server_world \<Rightarrow> ('n, 'r) server_world" where
  "block_client env i reason w =
     (let srv = w_server w;
          (added, bl) = add_blocked_client (he_now_ms env) (srv_blocklist srv) i reason;
          disk = (if added then snd (persist_blocklist env bl (w_disk w)) else w_disk w) in
      w\<lparr>w_server := srv\<lparr>srv_blocklist := bl\<rparr>, w_disk := disk\<rparr>)"

definition srv_is_client_blocked :: "('n, 'r) proxy_server \<Rightarrow> endpoint_id \<Rightarrow> bool" where
  "srv_is_client_blocked srv i = is_client_blocked (srv_blocklist srv) i"

section \<open>Authentication\<close>

definition AUTH_CONTEXT :: bytes where "AUTH_CONTEXT = as_bytes ''flextunnel-client-auth-v1''"

definition sign_endpoint_id :: "client_auth \<Rightarrow> endpoint_id \<Rightarrow> string" where
  "sign_endpoint_id key i = sign_with key AUTH_CONTEXT i"

definition verify_endpoint_id_signature :: "handler_env \<Rightarrow> string \<Rightarrow> endpoint_id \<Rightarrow> string \<Rightarrow> bool" where
  "verify_endpoint_id_signature env public i sig = verify_signature env public AUTH_CONTEXT i sig"

definition verify_client_auth ::
  "handler_env \<Rightarrow> ('n, 'r) proxy_server \<Rightarrow> client_auth_payload \<Rightarrow> endpoint_id \<Rightarrow> bool" where
  "verify_client_auth env srv a remote_id =
     (case parse_id env (endpoint_id a) of
        None \<Rightarrow> False
      | Some claimed \<Rightarrow>
          if claimed \<noteq> remote_id then False
          else (case parse_key env (public_key a) of
              None \<Rightarrow> False
            | Some public \<Rightarrow>
                if public \<notin> set (authorized_keys srv) then False
                else if \<not> verify_endpoint_id_signature env public remote_id (signature a) then False
                else True))"

section \<open>Accepting a connection\<close>

text \<open>An incoming connection: the results of accepting it and its first stream, whether the
  handshake deadline passes, and what TLS established.\<close>

record incoming =
  inc_accept :: "msg + connection"
  inc_remote_id :: endpoint_id
  inc_alpn :: bytes
  inc_seq :: u64
  inc_accept_bi :: "msg + unit"
  inc_times_out :: bool

text \<open>How a handler goes on: it has ended, or it serves the connection (and holds the guard of
  the registry it entered).\<close>

datatype conn_outcome = Ended "unit proxy_result" | Serving bool

type_synonym ('n, 'r) handler_result = "conn_outcome \<times> ('n, 'r) server_world \<times> stream"

definition read_handshake :: "incoming \<Rightarrow> stream \<Rightarrow> bytes proxy_result \<times> stream" where
  "read_handshake inc s =
     (if inc_times_out inc then (Inl (SignalingError (''timed out waiting for client handshake'', [])), s)
      else case inc_accept_bi inc of
        Inl e \<Rightarrow> (Inl (SignalingError (''Failed to accept handshake stream: {e}'', snd e)), s)
      | Inr _ \<Rightarrow> lift_net (read_message MAX_HANDSHAKE_SIZE) s)"

definition send_response :: "handler_env \<Rightarrow> hello_response \<Rightarrow> unit io" where
  "send_response env resp s = (case encode_hello_response (he_response env) resp of
     Inl e \<Rightarrow> (Inl e, s)
   | Inr data \<Rightarrow> write_message data s)"

definition auth_ok :: "handler_env \<Rightarrow> ('n, 'r) proxy_server \<Rightarrow> incoming \<Rightarrow> hello \<Rightarrow> bool" where
  "auth_ok env srv inc h \<longleftrightarrow> inc_alpn inc = QUICK_ALPN \<or>
     (case auth h of Some a \<Rightarrow> verify_client_auth env srv a (inc_remote_id inc) | None \<Rightarrow> False)"

text \<open>The gate: \<open>None\<close> lets the client pass.\<close>

definition admit_client ::
  "handler_env \<Rightarrow> incoming \<Rightarrow> connection \<Rightarrow> hello \<Rightarrow> ('n, 'r) server_world \<Rightarrow> stream \<Rightarrow>
   conn_outcome option \<times> ('n, 'r) server_world \<times> stream" where
  "admit_client env inc c h w s =
     (let srv = w_server w; remote_id = inc_remote_id inc; blocked = srv_is_client_blocked srv remote_id in
      if \<not> auth_ok env srv inc h \<or> blocked then
        let reason = (if blocked then ''node id is blocklisted (duplicate id previously detected)''
                      else ''public-key authentication failed'') in
        (case send_response env (response_rejected (srv_nonce srv) (reason, [])) s of
           (Inl e, s) \<Rightarrow> (Some (Ended (Inl (Network e))), w, s)
         | (Inr _, s) \<Rightarrow>
             (Some (Ended (Inl (AuthenticationFailed (''client {remote_id} rejected: {reason}'',
                [FStr remote_id, FStr reason])))), close_conn c 1 ''authentication rejected'' w, s))
      else (None, w, s))"

definition client_key_of :: "handler_env \<Rightarrow> incoming \<Rightarrow> hello \<Rightarrow> string option" where
  "client_key_of env inc h =
     (case auth h of
        Some a \<Rightarrow> if inc_alpn inc \<noteq> QUICK_ALPN then parse_key env (public_key a) else None
      | None \<Rightarrow> None)"

definition accepted_routes_of :: "('n, 'r) proxy_server \<Rightarrow> accepted_routes" where
  "accepted_routes_of srv =
     \<lparr>acc_routed_domains = srv_routed_domains srv, acc_routed_cidrs = srv_routed_cidrs srv,
      acc_host_aliases = sorted_host_aliases srv, acc_dns_forwards = srv_dns_forwards srv,
      acc_bridges = bridge_summaries srv\<rparr>"

text \<open>The response of a rejection whose delivery does not matter.\<close>

definition reject_best_effort ::
  "handler_env \<Rightarrow> connection \<Rightarrow> string \<Rightarrow> string \<Rightarrow> unit proxy_result \<Rightarrow> ('n, 'r) server_world \<Rightarrow> stream \<Rightarrow>
   ('n, 'r) handler_result" where
  "reject_best_effort env c reason close_reason result w s =
     (case encode_hello_response (he_response env) (response_rejected (srv_nonce (w_server w)) (reason, [])) of
        Inl e \<Rightarrow> (Ended (Inl (Network e)), w, s)
      | Inr data \<Rightarrow>
          (Ended result, close_conn c CLOSE_DUPLICATE close_reason w, snd (write_message data s)))"

definition enter_client ::
  "handler_env \<Rightarrow> incoming \<Rightarrow> connection \<Rightarrow> hello \<Rightarrow> ('n, 'r) server_world \<Rightarrow> stream \<Rightarrow>
   ('n, 'r) handler_result" where
  "enter_client env inc c h w s =
     (let remote_id = inc_remote_id inc in
      if duplicate_server_observed h then
        let w = self_block env (''client {remote_id} reported a duplicate-server pattern'', [FStr remote_id]) w in
        reject_best_effort env c ''server is stopping: duplicate server id detected''
          ''duplicate server id'' (Inr ()) w s
      else
        (case try_register (he_now env) (srv_registry (w_server w)) remote_id (inc_seq inc)
                (client_instance_nonce h) c (client_key_of env inc h) of
           (Inl dups, reg) \<Rightarrow>
             let w = w\<lparr>w_server := (w_server w)\<lparr>srv_registry := reg\<rparr>\<rparr>;
                 w = block_client env remote_id (''duplicate client id (concurrent live connections)'', []) w;
                 w = fold (\<lambda>d. close_conn d CLOSE_DUPLICATE ''duplicate client id'') dups w in
             reject_best_effort env c ''duplicate client id detected'' ''duplicate client id''
               (Inl (AuthenticationFailed (''duplicate client id {remote_id}'', [FStr remote_id]))) w s
         | (Inr _, reg) \<Rightarrow>
             let w = w\<lparr>w_server := (w_server w)\<lparr>srv_registry := reg\<rparr>\<rparr>; srv = w_server w in
             (case send_response env (response_accepted (srv_nonce srv) (accepted_routes_of srv)) s of
                (Inl e, s) \<Rightarrow>
                  (Ended (Inl (Network e)),
                   w\<lparr>w_server := srv\<lparr>srv_registry := conn_guard_drop remote_id (inc_seq inc) reg\<rparr>\<rparr>, s)
              | (Inr _, s) \<Rightarrow>
                  (Serving False,
                   w\<lparr>w_server := srv\<lparr>first_client := map_option (\<lambda>_. True) (first_client srv)\<rparr>\<rparr>, s))))"

definition handle_bridge ::
  "handler_env \<Rightarrow> incoming \<Rightarrow> ('n, 'r) server_world \<Rightarrow> stream \<Rightarrow> ('n, 'r) handler_result" where
  "handle_bridge env inc w s =
     (let srv = w_server w; i = inc_remote_id inc; q = inc_seq inc;
          srv = srv\<lparr>srv_bridge_registry := bridge_insert i q (srv_bridge_registry srv)\<rparr> in
      case send_response env (response_accepted (srv_nonce srv) no_routes) s of
        (Inl e, s) \<Rightarrow>
          (Ended (Inl (Network e)),
           w\<lparr>w_server := srv\<lparr>srv_bridge_registry := bridge_guard_drop i q (srv_bridge_registry srv)\<rparr>\<rparr>, s)
      | (Inr _, s) \<Rightarrow> (Serving True, w\<lparr>w_server := srv\<rparr>, s))"

definition handle_connection ::
  "handler_env \<Rightarrow> incoming \<Rightarrow> ('n, 'r) server_world \<Rightarrow> stream \<Rightarrow> ('n, 'r) handler_result" where
  "handle_connection env inc w s =
     (case inc_accept inc of
        Inl e \<Rightarrow> (Ended (Inl (SignalingError (''Failed to accept connection: {e}'', snd e))), w, s)
      | Inr c \<Rightarrow>
          (case read_handshake inc s of
             (Inl e, s) \<Rightarrow> (Ended (Inl e), w, s)
           | (Inr data, s) \<Rightarrow>
               if inc_alpn inc = BRIDGE_ALPN then
                 (case decode_bridge_hello (he_bridge_hello env) data of
                    Inl e \<Rightarrow> (Ended (Inl (Network e)), w, s)
                  | Inr _ \<Rightarrow> handle_bridge env inc w s)
               else
                 (case decode_hello (he_hello env) data of
                    Inl e \<Rightarrow> (Ended (Inl (Network e)), w, s)
                  | Inr h \<Rightarrow>
                      (case admit_client env inc c h w s of
                         (Some outcome, w, s) \<Rightarrow> (outcome, w, s)
                       | (None, w, s) \<Rightarrow> enter_client env inc c h w s))))"

text \<open>The guard of a handler that stops serving.\<close>

definition finish_connection :: "incoming \<Rightarrow> bool \<Rightarrow> ('n, 'r) server_world \<Rightarrow> ('n, 'r) server_world" where
  "finish_connection inc from_bridge w =
     (let srv = w_server w in
      w\<lparr>w_server :=
        (if from_bridge
         then srv\<lparr>srv_bridge_registry := bridge_guard_drop (inc_remote_id inc) (inc_seq inc) (srv_bridge_registry srv)\<rparr>
         else srv\<lparr>srv_registry := conn_guard_drop (inc_remote_id inc) (inc_seq inc) (srv_registry srv)\<rparr>)\<rparr>)"

section \<open>Host aliases\<close>

text \<open>\<^verbatim>\<open>Iterator::max_by_key\<close> returns the last of the largest elements.\<close>

fun max_by_key :: "('a \<Rightarrow> nat) \<Rightarrow> 'a list \<Rightarrow> 'a option" where
  "max_by_key f [] = None"
| "max_by_key f (x # xs) = (case max_by_key f xs of
     None \<Rightarrow> Some x
   | Some y \<Rightarrow> if f y < f x then Some x else Some y)"

definition wildcard_match :: "string \<Rightarrow> string \<times> string \<Rightarrow> (nat \<times> string) option" where
  "wildcard_match host = (\<lambda>(key, value). case strip_prefix ''*.'' key of
     None \<Rightarrow> None
   | Some sfx \<Rightarrow> if suffix (CHR ''.'' # sfx) host then Some (length sfx, value) else None)"

definition resolve_alias :: "(string \<times> string) list \<Rightarrow> string \<Rightarrow> string option" where
  "resolve_alias m host0 =
     (let host = to_ascii_lowercase host0 in
      case map_of m host of
        Some value \<Rightarrow> Some value
      | None \<Rightarrow> map_option snd (max_by_key fst (List.map_filter (wildcard_match host) m)))"

definition apply_alias :: "target \<Rightarrow> (string \<times> string) list \<Rightarrow> target" where
  "apply_alias t aliases = (case t of
     TDomain host port \<Rightarrow> (case resolve_alias aliases host of
         Some mapped \<Rightarrow> TDomain mapped port
       | None \<Rightarrow> t)
   | TIp _ \<Rightarrow> t)"

section \<open>One tunnel stream\<close>

definition bridge_for :: "'n net_ops \<Rightarrow> ('n, 'r) proxy_server \<Rightarrow> target \<Rightarrow> 'n bridge_upstream option" where
  "bridge_for ops srv t = find (\<lambda>b. allows ops (buc_routed_set (bu_config b)) t) (srv_bridges srv)"

text \<open>What becomes of a stream: answered and done, spliced with a dialed connection, or spliced
  with a stream of a bridge, whose state after the request was written is given.\<close>

datatype 'c stream_outcome = SDone | SSpliced 'c | SBridged string stream

text \<open>What the network does with a stream: the dialing environment, the result of opening a
  stream on a bridge's connection, and the sizes of the chunks in which a request for a
  reserved name arrives and is drained.\<close>

record ('c, 'r) stream_env =
  se_net :: "('c, 'r) net_env"
  se_open_bi :: "connection \<Rightarrow> msg + stream"
  se_renderers :: renderers
  se_version :: string
  se_head_chunks :: "nat list"
  se_drain_chunks :: "nat list"

definition spliced :: "'c option io \<Rightarrow> 'c stream_outcome io" where
  "spliced m = io_bind m (\<lambda>r. io_return (case r of Some c \<Rightarrow> SSpliced c | None \<Rightarrow> SDone))"

definition serve_reserved ::
  "('c, 'r) stream_env \<Rightarrow> ('n, 'r) proxy_server \<Rightarrow> bool \<Rightarrow> 'c stream_outcome io" where
  "serve_reserved env srv is_status =
     io_bind
       (if is_status then
          io_bind write_tunnel_success (\<lambda>_ s.
            case read_reserved_request_head (se_head_chunks env) [] s of (head, s) \<Rightarrow>
              case render_status (se_renderers env) (build_status_template (se_version env) srv)
                     (status_format_for_reserved_request head) of (status_line, content_type, body) \<Rightarrow>
                write_http_payload status_line content_type body s)
        else
          (case render_reserved_404 (se_renderers env) of (status_line, content_type, body) \<Rightarrow>
             write_http_response status_line content_type body))
       (\<lambda>_ s. (Inr SDone, drain_reserved_request (se_drain_chunks env) 0 s))"

definition route_to_bridge ::
  "('c, 'r) stream_env \<Rightarrow> 'n bridge_upstream \<Rightarrow> target \<Rightarrow> 'c stream_outcome io" where
  "route_to_bridge env b t s =
     (case active_conn b of
        None \<Rightarrow> io_bind (write_reply REP_HOST_UNREACHABLE) (\<lambda>_. io_return SDone) s
      | Some c \<Rightarrow>
          (case se_open_bi env c of
             Inl e \<Rightarrow> io_bind (write_reply REP_HOST_UNREACHABLE) (\<lambda>_. io_return SDone) s
           | Inr bs \<Rightarrow>
               (case write_request t bs of
                  (Inl e, bs) \<Rightarrow> (Inl e, s)
                | (Inr _, bs) \<Rightarrow> (Inr (SBridged (bridge_name b) bs), s))))"

definition handle_socks_stream ::
  "'n net_ops \<Rightarrow> ('c, 'r) stream_env \<Rightarrow> ('n, 'r) proxy_server \<Rightarrow> bool \<Rightarrow> 'c stream_outcome io" where
  "handle_socks_stream ops env srv from_bridge =
     io_bind read_request (\<lambda>requested.
       let dial = (\<lambda>t. spliced (connect_and_pipe (se_net env) t (srv_dns_forwarder srv)));
           routed =
             (if \<not> allows ops (srv_routed_set srv) requested
              then io_bind (write_reply REP_NOT_ALLOWED) (\<lambda>_. io_return SDone)
              else case (if from_bridge then None else bridge_for ops srv requested) of
                Some b \<Rightarrow> route_to_bridge env b requested
              | None \<Rightarrow> dial (apply_alias requested (srv_host_aliases srv))) in
       case requested of
         TDomain host port \<Rightarrow>
           if is_reserved_host host then
             if is_localhost_host host then dial (TDomain ''localhost'' port)
             else serve_reserved env srv (is_status_host host)
           else routed
       | TIp _ \<Rightarrow> routed)"

section \<open>Facts about aliases\<close>

lemma max_by_key_None [simp]: "max_by_key f xs = None \<longleftrightarrow> xs = []"
  by (cases xs) (auto split: option.splits)

lemma max_by_key_Some:
  "max_by_key f xs = Some y \<Longrightarrow> y \<in> set xs \<and> (\<forall>x \<in> set xs. f x \<le> f y)"
proof (induction xs arbitrary: y)
  case (Cons x xs)
  then show ?case by (cases "max_by_key f xs") (auto split: if_splits)
qed simp

lemma wildcard_match_Some_iff:
  "wildcard_match host (key, value) = Some (l, v) \<longleftrightarrow>
     v = value \<and> (\<exists>sfx. key = ''*.'' @ sfx \<and> length sfx = l \<and> suffix (CHR ''.'' # sfx) host)"
  by (auto simp: wildcard_match_def strip_prefix_def prefix_def split: option.splits if_splits)

text \<open>Two suffixes of the same host with the same length are the same: the choice among
  wildcards is never a tie between different keys.\<close>

lemma suffix_length_unique: "suffix a h \<Longrightarrow> suffix b h \<Longrightarrow> length a = length b \<Longrightarrow> a = b"
  by (auto simp: suffix_def)

lemma map_filter_Some_iff: "y \<in> set (List.map_filter f xs) \<longleftrightarrow> (\<exists>x \<in> set xs. f x = Some y)"
  by (induction xs) (auto simp: List.map_filter_def)

lemma resolve_alias_wildcard:
  assumes "distinct (map fst m)"
  shows "map_option snd (max_by_key fst (List.map_filter (wildcard_match host) m)) = Some v \<longleftrightarrow>
    (\<exists>sfx. (''*.'' @ sfx, v) \<in> set m \<and> suffix (CHR ''.'' # sfx) host \<and>
      (\<forall>sfx' v'. (''*.'' @ sfx', v') \<in> set m \<longrightarrow> suffix (CHR ''.'' # sfx') host \<longrightarrow> length sfx' \<le> length sfx))"
    (is "?l \<longleftrightarrow> ?r")
proof
  let ?ms = "List.map_filter (wildcard_match host) m"
  have mem: "(l, v') \<in> set ?ms \<longleftrightarrow>
      (\<exists>sfx. (''*.'' @ sfx, v') \<in> set m \<and> length sfx = l \<and> suffix (CHR ''.'' # sfx) host)" for l v'
    by (auto simp: map_filter_Some_iff wildcard_match_Some_iff Bex_def simp del: append.simps)
  show ?r if l: ?l
  proof -
    from l obtain l where m: "max_by_key fst ?ms = Some (l, v)" by auto
    from max_by_key_Some [OF m] have top: "(l, v) \<in> set ?ms" "\<And>l' v'. (l', v') \<in> set ?ms \<Longrightarrow> l' \<le> l"
      by fastforce+
    from top(1) obtain sfx where "(''*.'' @ sfx, v) \<in> set m" "length sfx = l" "suffix (CHR ''.'' # sfx) host"
      unfolding mem by blast
    moreover have "length sfx' \<le> l" if "(''*.'' @ sfx', v') \<in> set m" "suffix (CHR ''.'' # sfx') host" for sfx' v'
      using top(2) [of "length sfx'" v'] that unfolding mem by blast
    ultimately show ?thesis by blast
  qed
  show ?l if r: ?r
  proof -
    from r obtain sfx where sfx: "(''*.'' @ sfx, v) \<in> set m" "suffix (CHR ''.'' # sfx) host"
      and top: "\<And>sfx' v'. (''*.'' @ sfx', v') \<in> set m \<Longrightarrow> suffix (CHR ''.'' # sfx') host \<Longrightarrow>
        length sfx' \<le> length sfx"
      by blast
    then have inms: "(length sfx, v) \<in> set ?ms" unfolding mem by blast
    then obtain l' v' where m: "max_by_key fst ?ms = Some (l', v')"
      by (metis max_by_key_None list.set(1) empty_iff not_None_eq surj_pair)
    from max_by_key_Some [OF m] inms have l': "(l', v') \<in> set ?ms" "length sfx \<le> l'" by fastforce+
    from l'(1) obtain sfx' where sfx': "(''*.'' @ sfx', v') \<in> set m" "length sfx' = l'"
        "suffix (CHR ''.'' # sfx') host"
      unfolding mem by blast
    then have "length sfx' \<le> length sfx" using top by blast
    with l'(2) sfx'(2) have "length (CHR ''.'' # sfx') = length (CHR ''.'' # sfx)" by simp
    with sfx(2) sfx'(3) have "sfx' = sfx" using suffix_length_unique by blast
    with sfx(1) sfx'(1) assms have "v' = v" by (metis eq_key_imp_eq_value)
    with m show ?thesis by simp
  qed
qed

interpretation alias_ci: ci_matcher "resolve_alias m" for m
  by unfold_locales (simp add: resolve_alias_def)

section \<open>Facts about authentication\<close>

lemma verify_client_auth_iff:
  "verify_client_auth env srv a i \<longleftrightarrow> parse_id env (endpoint_id a) = Some i \<and>
     (\<exists>k. parse_key env (public_key a) = Some k \<and> k \<in> set (authorized_keys srv) \<and>
       verify_signature env k AUTH_CONTEXT i (signature a))"
  by (auto simp: verify_client_auth_def verify_endpoint_id_signature_def split: option.splits)

lemma admit_client_None_iff:
  "admit_client env inc c h w s = (None, w', s') \<longleftrightarrow>
     auth_ok env (w_server w) inc h \<and> \<not> srv_is_client_blocked (w_server w) (inc_remote_id inc) \<and>
     w' = w \<and> s' = s"
  by (auto simp: admit_client_def Let_def split: prod.splits sum.splits)

lemma admit_client_Some:
  "admit_client env inc c h w s = (Some out, w', s') \<Longrightarrow>
     w_server w' = w_server w \<and> w_disk w' = w_disk w \<and> (\<exists>e. out = Ended (Inl e)) \<and>
     (w_closed w' = w_closed w \<or> w_closed w' = w_closed w @ [(c, 1, ''authentication rejected'')])"
  by (auto simp: admit_client_def Let_def close_conn_def split: prod.splits sum.splits if_splits)

lemma close_conn_server [simp]:
  "w_server (close_conn c code r w) = w_server w" "w_disk (close_conn c code r w) = w_disk w"
  by (simp_all add: close_conn_def)

lemma fold_close_conn_server [simp]:
  "w_server (fold (\<lambda>d. close_conn d code r) ds w) = w_server w"
  "w_disk (fold (\<lambda>d. close_conn d code r) ds w) = w_disk w"
  by (induction ds arbitrary: w) simp_all

text \<open>What blocking an id leaves alone.\<close>

lemma self_block_server:
  "w_server (self_block env r w) = (w_server w)\<lparr>
     srv_blocklist := snd (add_conflicted_server (he_now_ms env) (srv_blocklist (w_server w)) (own_id (w_server w)) r),
     shutdown_notified := True\<rparr>"
  by (simp add: self_block_def Let_def split: prod.split)

lemma block_client_server:
  "w_server (block_client env i r w) = (w_server w)\<lparr>
     srv_blocklist := snd (add_blocked_client (he_now_ms env) (srv_blocklist (w_server w)) i r)\<rparr>"
  by (simp add: block_client_def Let_def split: prod.split)

lemma reject_best_effort_server:
  "reject_best_effort env c r cr res w s = (out, w', s') \<Longrightarrow>
     w_server w' = w_server w \<and> w_disk w' = w_disk w \<and> (\<exists>x. out = Ended x)"
  by (auto simp: reject_best_effort_def split: sum.splits)

definition client_entry :: "handler_env \<Rightarrow> incoming \<Rightarrow> connection \<Rightarrow> hello \<Rightarrow> conn_entry" where
  "client_entry env inc c h = \<lparr>ce_nonce = client_instance_nonce h, last_seen = he_now env,
     ce_connection = c, client_key = client_key_of env inc h\<rparr>"

text \<open>An admitted client is served with its entry in the registry, or the registry ends up as
  it was, up to an entry that was inserted and removed again.\<close>

lemma enter_client_cases:
  assumes "wf_registry (srv_registry (w_server w))" and "enter_client env inc c h w s = (out, w', s')"
  shows "(out = Serving False \<and> \<not> duplicate_server_observed h \<and>
      srv_registry (w_server w') =
        registry_insert (inc_remote_id inc) (inc_seq inc) (client_entry env inc c h) (srv_registry (w_server w))) \<or>
    (\<exists>r. out = Ended r \<and> srv_registry (w_server w') \<in> {srv_registry (w_server w),
        conn_guard_drop (inc_remote_id inc) (inc_seq inc)
          (registry_insert (inc_remote_id inc) (inc_seq inc) (client_entry env inc c h) (srv_registry (w_server w)))})"
proof (cases "duplicate_server_observed h")
  case True
  with assms(2) show ?thesis
    by (auto simp: enter_client_def Let_def self_block_server dest!: reject_best_effort_server)
next
  case False
  define dups where "dups = live_duplicates (he_now env) (client_instance_nonce h)
    (entry_or_default (inc_remote_id inc) (srv_registry (w_server w)))"
  show ?thesis
  proof (cases "dups = []")
    case True
    with False assms show ?thesis
      by (auto simp: enter_client_def Let_def try_register_cases dups_def client_entry_def
          split: prod.splits sum.splits)
  next
    case nd: False
    with False assms show ?thesis
      by (auto simp: enter_client_def Let_def try_register_cases dups_def [symmetric] block_client_server
          dest!: reject_best_effort_server)
  qed
qed

lemma enter_client_keeps:
  assumes "enter_client env inc c h w s = (out, w', s')"
  shows "srv_bridge_registry (w_server w') = srv_bridge_registry (w_server w) \<and>
    authorized_keys (w_server w') = authorized_keys (w_server w) \<and> own_id (w_server w') = own_id (w_server w)"
  using assms
  by (auto simp: enter_client_def Let_def self_block_server block_client_server
      split: if_splits prod.splits sum.splits dest!: reject_best_effort_server)

section \<open>Interleaved handlers\<close>

text \<open>
  The handlers of the connections run interleaved; what each does between two of its waits
  is one step. A handler is named by the sequence number of its connection. It goes from the
  handshake to the gate, then enters the registry and serves, and at the end drops its
  guard. Heartbeats refresh the entry of a served client.
\<close>

datatype handler = HNew | HAdmitted incoming connection hello | HServing incoming bool "string option" | HDone

record ('n, 'r) server_system =
  sys_world :: "('n, 'r) server_world"
  sys_handlers :: "u64 \<Rightarrow> handler"

definition set_handler ::
  "u64 \<Rightarrow> handler \<Rightarrow> ('n, 'r) server_world \<Rightarrow> ('n, 'r) server_system \<Rightarrow> ('n, 'r) server_system" where
  "set_handler q hn w sys = \<lparr>sys_world = w, sys_handlers = (sys_handlers sys)(q := hn)\<rparr>"

text \<open>The environments of the steps agree on the parsers and the verification of \<open>lib\<close>; clocks
  and file-system calls differ from step to step.\<close>

definition same_lib :: "handler_env \<Rightarrow> handler_env \<Rightarrow> bool" where
  "same_lib lib env \<longleftrightarrow> parse_id env = parse_id lib \<and> parse_key env = parse_key lib \<and>
     verify_signature env = verify_signature lib"

inductive server_step ::
  "handler_env \<Rightarrow> ('n, 'r) server_system \<Rightarrow> ('n, 'r) server_system \<Rightarrow> bool" for lib where
  refused: "sys_handlers sys (inc_seq inc) = HNew \<Longrightarrow> inc_alpn inc \<noteq> BRIDGE_ALPN \<Longrightarrow>
    same_lib lib env \<Longrightarrow> admit_client env inc c h (sys_world sys) s = (Some out, w, s') \<Longrightarrow>
    server_step lib sys (set_handler (inc_seq inc) HDone w sys)"
| broken: "sys_handlers sys q = HNew \<Longrightarrow> server_step lib sys (set_handler q HDone (sys_world sys) sys)"
| admitted: "sys_handlers sys (inc_seq inc) = HNew \<Longrightarrow> inc_alpn inc \<noteq> BRIDGE_ALPN \<Longrightarrow>
    same_lib lib env \<Longrightarrow> admit_client env inc c h (sys_world sys) s = (None, w, s') \<Longrightarrow>
    server_step lib sys (set_handler (inc_seq inc) (HAdmitted inc c h) w sys)"
| entered: "sys_handlers sys q = HAdmitted inc c h \<Longrightarrow> same_lib lib env \<Longrightarrow>
    enter_client env inc c h (sys_world sys) s = (out, w, s') \<Longrightarrow>
    hn = (case out of Serving b \<Rightarrow> HServing inc b (client_key_of env inc h) | Ended _ \<Rightarrow> HDone) \<Longrightarrow>
    server_step lib sys (set_handler q hn w sys)"
| bridged: "sys_handlers sys (inc_seq inc) = HNew \<Longrightarrow> inc_alpn inc = BRIDGE_ALPN \<Longrightarrow> same_lib lib env \<Longrightarrow>
    handle_bridge env inc (sys_world sys) s = (out, w, s') \<Longrightarrow>
    hn = (case out of Serving b \<Rightarrow> HServing inc b None | Ended _ \<Rightarrow> HDone) \<Longrightarrow>
    server_step lib sys (set_handler (inc_seq inc) hn w sys)"
| beat: "sys_handlers sys q = HServing inc False k \<Longrightarrow>
    server_step lib sys (sys\<lparr>sys_world := (sys_world sys)\<lparr>w_server := (w_server (sys_world sys))\<lparr>srv_registry :=
      refresh now (inc_remote_id inc) (inc_seq inc) (srv_registry (w_server (sys_world sys)))\<rparr>\<rparr>\<rparr>)"
| finished: "sys_handlers sys q = HServing inc b k \<Longrightarrow>
    server_step lib sys (set_handler q HDone (finish_connection inc b (sys_world sys)) sys)"

inductive_cases server_stepE: "server_step lib sys sys'"

text \<open>A server as it starts.\<close>

definition server_init :: "('n, 'r) server_system \<Rightarrow> bool" where
  "server_init sys \<longleftrightarrow> srv_registry (w_server (sys_world sys)) = [] \<and>
     srv_bridge_registry (w_server (sys_world sys)) = [] \<and> (\<forall>q. sys_handlers sys q = HNew)"

text \<open>What a handler holds in the two registries.\<close>

fun client_slot :: "handler \<Rightarrow> u64 \<Rightarrow> endpoint_id \<Rightarrow> string option option" where
  "client_slot (HServing inc False k) q i = (if inc_remote_id inc = i then Some k else None)"
| "client_slot _ q i = None"

fun bridge_slot :: "handler \<Rightarrow> u64 \<Rightarrow> endpoint_id \<Rightarrow> unit option" where
  "bridge_slot (HServing inc True k) q i = (if inc_remote_id inc = i then Some () else None)"
| "bridge_slot _ q i = None"

text \<open>A handler past the gate is authenticated, and a served client of the keypair path is
  listed with an authorized key.\<close>

fun handler_ok :: "handler_env \<Rightarrow> ('n, 'r) proxy_server \<Rightarrow> u64 \<Rightarrow> handler \<Rightarrow> bool" where
  "handler_ok lib srv q (HAdmitted inc c h) \<longleftrightarrow> inc_seq inc = q \<and> auth_ok lib srv inc h"
| "handler_ok lib srv q (HServing inc b k) \<longleftrightarrow> inc_seq inc = q \<and>
     (case k of Some k \<Rightarrow> \<not> b \<and> inc_alpn inc \<noteq> QUICK_ALPN \<and> k \<in> set (authorized_keys srv)
      | None \<Rightarrow> b \<or> inc_alpn inc = QUICK_ALPN)"
| "handler_ok lib srv q _ \<longleftrightarrow> True"

lemma auth_ok_cong:
  "authorized_keys srv' = authorized_keys srv \<Longrightarrow> same_lib lib env \<Longrightarrow> auth_ok env srv' inc h = auth_ok lib srv inc h"
  by (simp add: auth_ok_def verify_client_auth_iff same_lib_def split: option.split)

lemma handler_ok_cong:
  "authorized_keys srv' = authorized_keys srv \<Longrightarrow> handler_ok lib srv' q hn = handler_ok lib srv q hn"
  by (cases hn) (auto simp: auth_ok_cong [of srv' srv lib lib] same_lib_def split: option.split)

lemma handler_ok_registry: "handler_ok lib (srv\<lparr>srv_registry := r\<rparr>) q hn = handler_ok lib srv q hn"
  by (rule handler_ok_cong) simp

lemma client_key_authorized:
  assumes "auth_ok lib srv inc h" "same_lib lib env"
  shows "case client_key_of env inc h of
    Some k \<Rightarrow> inc_alpn inc \<noteq> QUICK_ALPN \<and> k \<in> set (authorized_keys srv) | None \<Rightarrow> inc_alpn inc = QUICK_ALPN"
  using assms by (auto simp: auth_ok_def client_key_of_def verify_client_auth_iff same_lib_def split: option.splits)

text \<open>The registries hold exactly what the serving handlers hold.\<close>

definition server_inv :: "handler_env \<Rightarrow> ('n, 'r) server_system \<Rightarrow> bool" where
  "server_inv lib sys \<longleftrightarrow>
     (let srv = w_server (sys_world sys) in
      wf_registry (srv_registry srv) \<and> wf_bridge_registry (srv_bridge_registry srv) \<and>
      (\<forall>q i. map_option client_key (registry_get (srv_registry srv) i q) = client_slot (sys_handlers sys q) q i) \<and>
      (\<forall>q i. bridge_get (srv_bridge_registry srv) i q = bridge_slot (sys_handlers sys q) q i) \<and>
      (\<forall>q. handler_ok lib srv q (sys_handlers sys q)))"

text \<open>A step of handler \<open>q\<close> that changes the registries only at its own sequence number, and
  there as its new state says, keeps the invariant.\<close>

lemma server_invI:
  assumes inv: "server_inv lib sys"
    and "wf_registry (srv_registry (w_server w))" "wf_bridge_registry (srv_bridge_registry (w_server w))"
    and "\<And>i p. map_option client_key (registry_get (srv_registry (w_server w)) i p) =
      (if p = q then client_slot hn q i
       else map_option client_key (registry_get (srv_registry (w_server (sys_world sys))) i p))"
    and "\<And>i p. bridge_get (srv_bridge_registry (w_server w)) i p =
      (if p = q then bridge_slot hn q i else bridge_get (srv_bridge_registry (w_server (sys_world sys))) i p)"
    and "authorized_keys (w_server w) = authorized_keys (w_server (sys_world sys))"
    and "handler_ok lib (w_server (sys_world sys)) q hn"
  shows "server_inv lib (set_handler q hn w sys)"
  using inv assms(2-5,7) handler_ok_cong [OF assms(6), of lib]
  by (simp add: server_inv_def set_handler_def Let_def)

lemma server_inv_slots:
  assumes "server_inv lib sys"
  shows "wf_registry (srv_registry (w_server (sys_world sys)))"
    "wf_bridge_registry (srv_bridge_registry (w_server (sys_world sys)))"
    "map_option client_key (registry_get (srv_registry (w_server (sys_world sys))) i q) = client_slot (sys_handlers sys q) q i"
    "bridge_get (srv_bridge_registry (w_server (sys_world sys))) i q = bridge_slot (sys_handlers sys q) q i"
    "handler_ok lib (w_server (sys_world sys)) q (sys_handlers sys q)"
  using assms by (simp_all add: server_inv_def Let_def)

lemma server_inv_keep:
  assumes inv: "server_inv lib sys" and w: "w_server w = w_server (sys_world sys)"
    and none: "\<And>i. client_slot (sys_handlers sys q) q i = None" "\<And>i. bridge_slot (sys_handlers sys q) q i = None"
    and hn: "\<And>i. client_slot hn q i = None" "\<And>i. bridge_slot hn q i = None" "handler_ok lib (w_server (sys_world sys)) q hn"
  shows "server_inv lib (set_handler q hn w sys)"
proof (rule server_invI [OF inv])
  note slots = server_inv_slots [OF inv]
  show "wf_registry (srv_registry (w_server w))" "wf_bridge_registry (srv_bridge_registry (w_server w))"
    using slots by (simp_all add: w)
  show "map_option client_key (registry_get (srv_registry (w_server w)) i p) = (if p = q then client_slot hn q i
      else map_option client_key (registry_get (srv_registry (w_server (sys_world sys))) i p))" for i p
    using slots(3) [of i q] by (cases "p = q") (simp_all only: w none hn if_True if_False refl)
  show "bridge_get (srv_bridge_registry (w_server w)) i p =
      (if p = q then bridge_slot hn q i else bridge_get (srv_bridge_registry (w_server (sys_world sys))) i p)" for i p
    using slots(4) [of i q] by (cases "p = q") (simp_all only: w none hn if_True if_False refl)
qed (simp_all add: w hn)

lemma server_inv_entered:
  assumes inv: "server_inv lib sys" and h: "sys_handlers sys q = HAdmitted inc c h"
    and run: "enter_client env inc c h (sys_world sys) s = (out, w, s')"
    and hn: "hn = (case out of Serving b \<Rightarrow> HServing inc b (client_key_of env inc h) | Ended _ \<Rightarrow> HDone)"
    and lib: "same_lib lib env"
  shows "server_inv lib (set_handler q hn w sys)"
proof -
  note slots = server_inv_slots [OF inv]
  have q: "inc_seq inc = q" and ok: "auth_ok lib (w_server (sys_world sys)) inc h"
    using slots(5) [of q] h by simp_all
  note key = client_key_authorized [OF ok lib]
  let ?reg = "srv_registry (w_server (sys_world sys))" and ?i = "inc_remote_id inc"
  have none: "registry_get ?reg i q = None" for i using slots(3) [of i q] h by simp
  have bnone: "bridge_get (srv_bridge_registry (w_server (sys_world sys))) i q = None" for i
    using slots(4) [of i q] h by simp
  have keep: "srv_bridge_registry (w_server w) = srv_bridge_registry (w_server (sys_world sys))"
      "authorized_keys (w_server w) = authorized_keys (w_server (sys_world sys))"
    using enter_client_keeps [OF run] by simp_all
  let ?ins = "registry_insert ?i q (client_entry env inc c h) ?reg"
  consider (served) "out = Serving False" "srv_registry (w_server w) = ?ins"
    | (ended) r where "out = Ended r" "srv_registry (w_server w) \<in> {?reg, conn_guard_drop ?i q ?ins}"
    using enter_client_cases [OF slots(1) run] unfolding q by blast
  then show ?thesis
  proof cases
    case served
    show ?thesis
    proof (rule server_invI [OF inv])
      show "map_option client_key (registry_get (srv_registry (w_server w)) i p) = (if p = q then client_slot hn q i
          else map_option client_key (registry_get ?reg i p))" for i p
        unfolding served(2) registry_get_insert using none [of i]
        by (auto simp: hn served(1) client_entry_def)
    qed (use key in \<open>simp_all add: hn served keep q slots(1,2) bnone wf_registry_insert split: option.splits\<close>)
  next
    case ended
    have get: "registry_get (srv_registry (w_server w)) i p = registry_get ?reg i p" for i p
      using ended(2) none by (auto simp: registry_get_drop registry_get_insert)
    have wf: "wf_registry (srv_registry (w_server w))"
      using ended(2) slots(1) by (auto simp: wf_registry_insert wf_conn_guard_drop)
    show ?thesis
      by (rule server_invI [OF inv]) (simp_all add: hn ended(1) get wf keep slots(2) none bnone)
  qed
qed

lemma server_inv_bridged:
  assumes inv: "server_inv lib sys" and h: "sys_handlers sys (inc_seq inc) = HNew"
    and run: "handle_bridge env inc (sys_world sys) s = (out, w, s')"
    and hn: "hn = (case out of Serving b \<Rightarrow> HServing inc b None | Ended _ \<Rightarrow> HDone)"
  shows "server_inv lib (set_handler (inc_seq inc) hn w sys)"
proof -
  note slots = server_inv_slots [OF inv]
  let ?q = "inc_seq inc" and ?i = "inc_remote_id inc"
  let ?reg = "srv_bridge_registry (w_server (sys_world sys))"
  have none: "registry_get (srv_registry (w_server (sys_world sys))) i ?q = None"
    "bridge_get ?reg i ?q = None" for i
    using slots(3,4) [of i ?q] h by simp_all
  note wf = bridge_conns.inv_ins [OF slots(2)]
  have keys: "authorized_keys (w_server w) = authorized_keys (w_server (sys_world sys))"
    using run by (auto simp: handle_bridge_def Let_def split: prod.splits sum.splits)
  show ?thesis
  proof (cases "fst (send_response env (response_accepted (srv_nonce (w_server (sys_world sys))) no_routes) s)")
    case (Inl e)
    with run have w: "out = Ended (Inl (Network e))" "srv_registry (w_server w) = srv_registry (w_server (sys_world sys))"
      "srv_bridge_registry (w_server w) = bridge_guard_drop ?i ?q (bridge_insert ?i ?q ?reg)"
      by (auto simp: handle_bridge_def Let_def split: prod.splits)
    show ?thesis
      by (rule server_invI [OF inv])
        (auto simp: hn w slots(1) keys bridge_conns.inv_del wf bridge_get_drop bridge_get_insert none)
  next
    case (Inr u)
    with run have w: "out = Serving True" "srv_registry (w_server w) = srv_registry (w_server (sys_world sys))"
      "srv_bridge_registry (w_server w) = bridge_insert ?i ?q ?reg"
      by (auto simp: handle_bridge_def Let_def split: prod.splits)
    show ?thesis
      by (rule server_invI [OF inv]) (auto simp: hn w slots(1) keys wf bridge_get_insert none)
  qed
qed

lemma server_inv_finished:
  assumes inv: "server_inv lib sys" and h: "sys_handlers sys q = HServing inc b k"
  shows "server_inv lib (set_handler q HDone (finish_connection inc b (sys_world sys)) sys)"
proof -
  note slots = server_inv_slots [OF inv]
  have q: "inc_seq inc = q" using slots(5) [of q] h by simp
  have c: "registry_get (srv_registry (w_server (sys_world sys))) i q = None" if "b \<or> i \<noteq> inc_remote_id inc" for i
    using slots(3) [of i q] h that by (cases b) (auto split: if_splits)
  have bn: "bridge_get (srv_bridge_registry (w_server (sys_world sys))) i q = None"
      if "\<not> b \<or> i \<noteq> inc_remote_id inc" for i
    using slots(4) [of i q] h that by (cases b) (auto split: if_splits)
  show ?thesis
  proof (cases b)
    case True
    then show ?thesis
      by (intro server_invI [OF inv])
        (auto simp: finish_connection_def Let_def q slots(1,2) bridge_conns.inv_del bridge_get_drop c bn)
  next
    case False
    then show ?thesis
      by (intro server_invI [OF inv])
        (auto simp: finish_connection_def Let_def q slots(1,2) conns.inv_del registry_get_drop c bn)
  qed
qed

lemma server_inv_beat:
  assumes inv: "server_inv lib sys"
  shows "server_inv lib (sys\<lparr>sys_world := (sys_world sys)\<lparr>w_server := (w_server (sys_world sys))\<lparr>srv_registry :=
    refresh now i q (srv_registry (w_server (sys_world sys)))\<rparr>\<rparr>\<rparr>)"
proof -
  have "map_option client_key (registry_get (refresh now i q reg) j p) = map_option client_key (registry_get reg j p)"
    for reg j p by (simp add: refresh_get option.map_comp comp_def)
  with inv show ?thesis by (simp add: server_inv_def Let_def wf_refresh handler_ok_registry)
qed

lemma server_inv_step: "server_inv lib sys \<Longrightarrow> server_step lib sys sys' \<Longrightarrow> server_inv lib sys'"
proof (erule server_stepE, goal_cases)
  case (1 inc env c h s out w s')
  then have "w_server w = w_server (sys_world sys)" using admit_client_Some by blast
  with 1 show ?case by (simp add: server_inv_keep)
next
  case (2 q)
  then show ?case by (simp add: server_inv_keep)
next
  case (3 inc env c h s w s')
  then have "w = sys_world sys" "auth_ok lib (w_server (sys_world sys)) inc h"
    by (simp_all add: admit_client_None_iff auth_ok_cong [OF refl])
  with 3 show ?case by (simp add: server_inv_keep)
next
  case (4 q inc c h env s out w s')
  then show ?case using server_inv_entered [OF _ _ _ refl] by blast
next
  case (5 inc env s out w s')
  then show ?case using server_inv_bridged [OF _ _ _ refl] by blast
next
  case (6 q inc k now)
  then show ?case using server_inv_beat by blast
next
  case (7 q inc b k)
  then show ?case using server_inv_finished by blast
qed

interpretation servers: invariant_system server_init "server_step lib" "server_inv lib" for lib
proof unfold_locales
  fix sys :: "('n, 'r) server_system"
  assume "server_init sys"
  then show "server_inv lib sys"
    by (simp add: server_init_def server_inv_def Let_def wf_registry_def wf_bridge_registry_def
        registry_get_def bridge_get_def entry_or_default_def)
qed (rule server_inv_step)

end
