(* ===== verification/Server_Safety.thy ===== *)
theory Server_Safety
  imports Server
begin

text \<open>
  What the server guarantees, over the definitions of theory \<^verbatim>\<open>Server\<close>: who gets served, what
  a peer that fails authentication can change, that the registries show exactly the
  connections being served, how aliases resolve, and where a tunnel stream may go.
\<close>

section \<open>Sample values\<close>

text \<open>A server with one authorized key, and a client that presents it.\<close>

definition sample_hello :: hello where
  "sample_hello = hello_new (Some \<lparr>public_key = ''K'', endpoint_id = ''peer'', signature = ''sig''\<rparr>) 7"

definition sample_env :: handler_env where
  "sample_env = \<lparr>he_hello = (\<lambda>_. Inr sample_hello), he_bridge_hello = (\<lambda>_. Inr bridge_hello_new),
     he_response = (\<lambda>r. Inr (if accepted r then [1] else [0])), he_blocklist = (\<lambda>_. Inr ''{}''),
     parse_id = Some, parse_key = Some, verify_signature = (\<lambda>k ctx i sg. sg = ''sig''),
     he_now = 50, he_now_ms = 60,
     he_fs = \<lparr>create_dir_all = None, fs_write = None, fs_rename = None, left_behind = None, remove_fails = False\<rparr>,
     he_writer = (1, 1)\<rparr>"

definition sample_server :: "(nat, nat) proxy_server" where
  "sample_server = proxy_server_new 99 \<lparr>psp_own_id = ''me'', psp_authorized_keys = [''K''],
     psp_allowed_bridge_servers = [''b''], psp_host_aliases = [], psp_routed_set = routed_set_default,
     psp_routed_domains = [], psp_routed_cidrs = [], psp_dns_forwarder = None, psp_bridges = [],
     psp_blocklist = \<lparr>bl_path = ''p'', bl_data = block_list_data_default\<rparr>, psp_first_client = None\<rparr>"

definition sample_world :: "(nat, nat) server_world" where
  "sample_world = \<lparr>w_server = sample_server, w_disk = (\<lambda>_. None), w_closed = []\<rparr>"

definition sample_incoming :: "endpoint_id \<Rightarrow> incoming" where
  "sample_incoming i = \<lparr>inc_accept = Inr 5, inc_remote_id = i, inc_alpn = ALPN, inc_seq = 0,
     inc_accept_bi = Inr (), inc_times_out = False\<rparr>"

definition sample_stream :: stream where
  "sample_stream = \<lparr>rx = enc_message [], tx = [], tx_open = True\<rparr>"

lemmas sample_defs = sample_hello_def sample_env_def sample_server_def sample_world_def
  sample_incoming_def sample_stream_def

lemma sample_incoming_simps [simp]:
  "inc_accept (sample_incoming i) = Inr 5" "inc_remote_id (sample_incoming i) = i"
  "inc_alpn (sample_incoming i) = ALPN" "inc_seq (sample_incoming i) = 0"
  by (simp_all add: sample_incoming_def)

lemma sample_read: "read_handshake (sample_incoming i) sample_stream = (Inr [], sample_stream\<lparr>rx := []\<rparr>)"
proof -
  have "read_message MAX_HANDSHAKE_SIZE sample_stream = (Inr [], sample_stream\<lparr>rx := []\<rparr>)"
    by (rule frame.rd_enc) (simp_all add: frame_ok_def sample_stream_def)
  then show ?thesis by (simp add: read_handshake_def lift_net_def sample_incoming_def)
qed

lemma sample_decode: "decode_hello (he_hello sample_env) [] = Inr sample_hello"
  by (simp add: decode_hello_def json_result_def sample_env_def sample_hello_def hello_new_def)

lemma sample_admit:
  "admit_client sample_env (sample_incoming ''peer'') 5 sample_hello sample_world s = (None, sample_world, s)"
  by (simp add: admit_client_None_iff auth_ok_def verify_client_auth_iff srv_is_client_blocked_def
      is_client_blocked_def sample_defs hello_new_def proxy_server_new_def block_list_data_default_def)

lemma sample_enter:
  "\<exists>w s. enter_client sample_env (sample_incoming ''peer'') 5 sample_hello sample_world (sample_stream\<lparr>rx := []\<rparr>) =
     (Serving False, w, s)"
  by (simp add: enter_client_def Let_def try_register_def live_duplicates_def entry_or_default_def
      send_response_def encode_hello_response_def json_result_def response_accepted_def sample_defs hello_new_def
      proxy_server_new_def write_message_def io_simps)

section \<open>Who gets served\<close>

lemma handle_connection_client:
  assumes "handle_connection env inc w s = (out, w', s')" and "inc_alpn inc \<noteq> BRIDGE_ALPN"
  shows "(\<exists>e. out = Ended (Inl e) \<and> w' = w) \<or>
    (\<exists>c data s1 h. inc_accept inc = Inr c \<and> read_handshake inc s = (Inr data, s1) \<and>
       decode_hello (he_hello env) data = Inr h \<and>
       ((\<exists>w1 s2. admit_client env inc c h w s1 = (Some out, w1, s2) \<and> w' = w1) \<or>
        (admit_client env inc c h w s1 = (None, w, s1) \<and> enter_client env inc c h w s1 = (out, w', s'))))"
proof (cases "inc_accept inc")
  case (Inl e)
  with assms show ?thesis by (auto simp: handle_connection_def)
next
  case (Inr c)
  obtain r s1 where rh: "read_handshake inc s = (r, s1)" by fastforce
  show ?thesis
  proof (cases r)
    case (Inl e)
    with assms rh \<open>inc_accept inc = Inr c\<close> show ?thesis by (auto simp: handle_connection_def)
  next
    case (Inr data)
    show ?thesis
    proof (cases "decode_hello (he_hello env) data")
      case (Inl e)
      with assms rh \<open>inc_accept inc = Inr c\<close> Inr show ?thesis by (auto simp: handle_connection_def)
    next
      case dec: (Inr h)
      obtain adm w1 s2 where a: "admit_client env inc c h w s1 = (adm, w1, s2)" using prod_cases3 by blast
      show ?thesis
      proof (cases adm)
        case None
        with a have "w1 = w" "s2 = s1" by (simp_all add: admit_client_None_iff)
        with assms rh \<open>inc_accept inc = Inr c\<close> Inr dec a None show ?thesis by (simp add: handle_connection_def)
      next
        case (Some o')
        with assms rh \<open>inc_accept inc = Inr c\<close> Inr dec a show ?thesis by (simp add: handle_connection_def)
      qed
    qed
  qed
qed

text \<open>C6: A client that connects over the client protocol is served only after it proved an
  authorized key: the endpoint id it claims is the one TLS established, the key is on the
  authorized list, and the signature over that id, under the program's own context,
  verifies. It is not on the blocklist and did not report a duplicate server, and it is in
  the registry under its id with the nonce it sent and the key it proved.\<close>

theorem served_client_is_authenticated:
  assumes "handle_connection env inc w s = (Serving from_bridge, w', s')"
    and "inc_alpn inc \<notin> {BRIDGE_ALPN, QUICK_ALPN}" and "wf_registry (srv_registry (w_server w))"
  shows "\<not> from_bridge \<and> \<not> srv_is_client_blocked (w_server w) (inc_remote_id inc) \<and>
    (\<exists>c data s1 h a k. read_handshake inc s = (Inr data, s1) \<and> decode_hello (he_hello env) data = Inr h \<and>
       \<not> duplicate_server_observed h \<and> auth h = Some a \<and>
       parse_id env (endpoint_id a) = Some (inc_remote_id inc) \<and>
       parse_key env (public_key a) = Some k \<and> k \<in> set (authorized_keys (w_server w)) \<and>
       verify_signature env k AUTH_CONTEXT (inc_remote_id inc) (signature a) \<and>
       registry_get (srv_registry (w_server w')) (inc_remote_id inc) (inc_seq inc) =
         Some \<lparr>ce_nonce = client_instance_nonce h, last_seen = he_now env, ce_connection = c,
           client_key = Some k\<rparr>)"
proof -
  have alpn: "inc_alpn inc \<noteq> BRIDGE_ALPN" "inc_alpn inc \<noteq> QUICK_ALPN" using assms(2) by auto
  from handle_connection_client [OF assms(1) alpn(1)]
  obtain c data s1 h where c: "read_handshake inc s = (Inr data, s1)" "decode_hello (he_hello env) data = Inr h"
    and adm: "admit_client env inc c h w s1 = (None, w, s1)"
    and ent: "enter_client env inc c h w s1 = (Serving from_bridge, w', s')"
    by (auto dest: admit_client_Some)
  from adm have ok: "auth_ok env (w_server w) inc h" "\<not> srv_is_client_blocked (w_server w) (inc_remote_id inc)"
    by (simp_all add: admit_client_None_iff)
  from ok(1) alpn(2) obtain a k where a: "auth h = Some a" "parse_id env (endpoint_id a) = Some (inc_remote_id inc)"
      "parse_key env (public_key a) = Some k" "k \<in> set (authorized_keys (w_server w))"
      "verify_signature env k AUTH_CONTEXT (inc_remote_id inc) (signature a)"
    by (auto simp: auth_ok_def verify_client_auth_iff split: option.splits)
  have "client_key_of env inc h = Some k" using a alpn(2) by (simp add: client_key_of_def)
  with enter_client_cases [OF assms(3) ent] have "\<not> from_bridge" "\<not> duplicate_server_observed h"
    "registry_get (srv_registry (w_server w')) (inc_remote_id inc) (inc_seq inc) =
       Some \<lparr>ce_nonce = client_instance_nonce h, last_seen = he_now env, ce_connection = c, client_key = Some k\<rparr>"
    by (auto simp: registry_get_insert client_entry_def)
  with c ok(2) a show ?thesis by blast
qed

lemma sample_run:
  "\<exists>w s. handle_connection sample_env (sample_incoming ''peer'') sample_world sample_stream = (Serving False, w, s)"
  using sample_enter
  by (simp add: handle_connection_def sample_read sample_decode sample_admit)

theorem served_client_is_authenticated_witness:
  "\<exists>w' s'. handle_connection sample_env (sample_incoming ''peer'') sample_world sample_stream = (Serving False, w', s') \<and>
     (\<exists>e. registry_get (srv_registry (w_server w')) ''peer'' 0 = Some e \<and> client_key e = Some ''K'')"
proof -
  obtain w' s' where run: "handle_connection sample_env (sample_incoming ''peer'') sample_world sample_stream =
      (Serving False, w', s')"
    using sample_run by blast
  have "inc_alpn (sample_incoming ''peer'') \<notin> {BRIDGE_ALPN, QUICK_ALPN}"
    "wf_registry (srv_registry (w_server sample_world))"
    by (simp_all add: sample_defs proxy_server_new_def wf_registry_def)
  from served_client_is_authenticated [OF run this] run show ?thesis
    by (auto simp: sample_defs proxy_server_new_def)
qed

text \<open>C7: A peer on the client protocol whose hello carries no valid credential changes nothing:
  not the registry, not the blocklist, not the disk, and it cannot make the server stop. Its
  handler ends with an error, and the only connection it may get closed is its own.\<close>

theorem unauthenticated_peer_changes_nothing:
  assumes "handle_connection env inc w s = (out, w', s')" and "inc_alpn inc \<notin> {BRIDGE_ALPN, QUICK_ALPN}"
    and "\<And>data s1 h. read_handshake inc s = (Inr data, s1) \<Longrightarrow> decode_hello (he_hello env) data = Inr h \<Longrightarrow>
      case auth h of Some a \<Rightarrow> \<not> verify_client_auth env (w_server w) a (inc_remote_id inc) | None \<Rightarrow> True"
  shows "w_server w' = w_server w \<and> w_disk w' = w_disk w \<and> (\<exists>e. out = Ended (Inl e)) \<and>
    (w_closed w' = w_closed w \<or>
     (\<exists>c. inc_accept inc = Inr c \<and> w_closed w' = w_closed w @ [(c, 1, ''authentication rejected'')]))"
proof -
  have alpn: "inc_alpn inc \<noteq> BRIDGE_ALPN" "inc_alpn inc \<noteq> QUICK_ALPN" using assms(2) by auto
  from handle_connection_client [OF assms(1) alpn(1)] show ?thesis
  proof (elim disjE exE conjE)
    fix c data s1 h
    assume h: "read_handshake inc s = (Inr data, s1)" "decode_hello (he_hello env) data = Inr h"
      and "admit_client env inc c h w s1 = (None, w, s1)"
    then have "auth_ok env (w_server w) inc h" by (simp add: admit_client_None_iff)
    with assms(3) [OF h] alpn(2) show ?thesis by (auto simp: auth_ok_def split: option.splits)
  next
    fix c data s1 h w1 s2
    assume "inc_accept inc = Inr c" "admit_client env inc c h w s1 = (Some out, w1, s2)" "w' = w1"
    then show ?thesis by (auto dest: admit_client_Some)
  qed auto
qed

theorem unauthenticated_peer_changes_nothing_witness:
  "\<exists>out w' s'. handle_connection sample_env (sample_incoming ''stranger'') sample_world sample_stream =
     (out, w', s') \<and> w_server w' = sample_server \<and> (\<exists>e. out = Ended (Inl e))"
proof -
  let ?inc = "sample_incoming ''stranger''"
  obtain out w' s' where run: "handle_connection sample_env ?inc sample_world sample_stream = (out, w', s')"
    using prod_cases3 by blast
  have a: "inc_alpn ?inc \<notin> {BRIDGE_ALPN, QUICK_ALPN}" by (simp add: sample_incoming_def)
  have "case auth h of Some a \<Rightarrow> \<not> verify_client_auth sample_env (w_server sample_world) a (inc_remote_id ?inc) | None \<Rightarrow> True"
    if "read_handshake ?inc sample_stream = (Inr data, s1)" "decode_hello (he_hello sample_env) data = Inr h" for data s1 h
    using that by (simp add: sample_read sample_decode) (auto simp: verify_client_auth_iff sample_defs hello_new_def)
  from unauthenticated_peer_changes_nothing [OF run a this] run show ?thesis by (auto simp: sample_world_def)
qed

section \<open>What the registries show\<close>

lemma sample_server_init: "server_init \<lparr>sys_world = sample_world, sys_handlers = (\<lambda>_. HNew)\<rparr>"
  by (simp add: server_init_def sample_world_def sample_server_def proxy_server_new_def)

lemma in_concat_snd: "x \<in> set (concat (map snd m)) \<longleftrightarrow> (\<exists>i per. (i, per) \<in> set m \<and> x \<in> set per)"
  by force

lemma registry_entries:
  assumes "wf_registry reg"
  shows "(q, e) \<in> set (concat (map snd reg)) \<longleftrightarrow> (\<exists>i. registry_get reg i q = Some e)"
proof -
  have d: "distinct (map fst reg)" using assms by (simp add: wf_registry_def)
  have "(\<exists>per. (i, per) \<in> set reg \<and> (q, e) \<in> set per) \<longleftrightarrow> (q, e) \<in> set (entry_or_default i reg)" for i
    unfolding map_of_eq_Some_iff [OF d, symmetric] entry_or_default_def
    by (cases "map_of reg i") simp_all
  then show ?thesis unfolding in_concat_snd registry_get_entry [OF assms] by blast
qed

lemma set_connected_client_keys:
  assumes "wf_registry (srv_registry srv)"
  shows "set (connected_client_keys srv) = {k. \<exists>i q e. registry_get (srv_registry srv) i q = Some e \<and> client_key e = Some k}"
proof -
  have "k \<in> set (connected_client_keys srv) \<longleftrightarrow>
      (\<exists>q e. (q, e) \<in> set (concat (map snd (srv_registry srv))) \<and> client_key e = Some k)" for k
    unfolding connected_client_keys_def set_sort set_remdups map_filter_Some_iff Bex_def split_paired_Ex
    by (simp only: prod.case)
  then show ?thesis unfolding registry_entries [OF assms] by blast
qed

lemma inbound_connected:
  "{bis_endpoint_id b |b. b \<in> set (inbound_bridge_status srv) \<and> bis_connected b} =
     {i \<in> set (allowed_bridge_servers srv). bridge_present (srv_bridge_registry srv) i}"
  by (force simp: inbound_bridge_status_def)



section \<open>Aliases\<close>

text \<open>A host resolves through the aliases to the value of its exact name if there is one, and
  otherwise to the value of the wildcard with the longest suffix among those the host is a
  proper subdomain of; to nothing exactly when neither exists. The case of the host and the
  order of the alias table do not matter.\<close>

theorem alias_most_specific:
  assumes "distinct (map fst m)"
  shows "resolve_alias m host = Some v \<longleftrightarrow>
    (to_ascii_lowercase host, v) \<in> set m \<or>
    (to_ascii_lowercase host \<notin> fst ` set m \<and>
     (\<exists>sfx. (''*.'' @ sfx, v) \<in> set m \<and> suffix (CHR ''.'' # sfx) (to_ascii_lowercase host) \<and>
        \<not> (\<exists>sfx' v'. (''*.'' @ sfx', v') \<in> set m \<and> suffix (CHR ''.'' # sfx') (to_ascii_lowercase host) \<and>
             length sfx < length sfx')))"
proof -
  let ?h = "to_ascii_lowercase host"
  have none: "map_of m ?h = None \<longleftrightarrow> ?h \<notin> fst ` set m" by (rule map_of_eq_None_iff)
  show ?thesis
  proof (cases "map_of m ?h")
    case None
    then have "(?h, v) \<notin> set m" using none by force
    moreover have "resolve_alias m host = map_option snd (max_by_key fst (List.map_filter (wildcard_match ?h) m))"
      using None by (simp add: resolve_alias_def)
    moreover have "(\<forall>sfx' v'. (''*.'' @ sfx', v') \<in> set m \<longrightarrow> suffix (CHR ''.'' # sfx') ?h \<longrightarrow>
          length sfx' \<le> length sfx) \<longleftrightarrow>
        \<not> (\<exists>sfx' v'. (''*.'' @ sfx', v') \<in> set m \<and> suffix (CHR ''.'' # sfx') ?h \<and> length sfx < length sfx')"
      for sfx :: string
      by (meson linorder_not_less)
    ultimately show ?thesis
      using None none by (simp only: resolve_alias_wildcard [OF assms] simp_thms)
  next
    case (Some u)
    then have "resolve_alias m host = Some u" by (simp add: resolve_alias_def)
    moreover have "?h \<in> fst ` set m" using Some none by simp
    moreover have "(?h, v) \<in> set m \<longleftrightarrow> u = v" using Some map_of_eq_Some_iff [OF assms, of ?h v] by simp
    ultimately show ?thesis by simp
  qed
qed

theorem alias_most_specific_witness:
  "resolve_alias [(''*.web'', ''10.0.0.1''), (''*.a.web'', ''10.0.0.2''), (''a.web'', ''10.0.0.3'')] ''X.A.Web'' =
     Some ''10.0.0.2''"
proof -
  let ?m = "[(''*.web'', ''10.0.0.1''), (''*.a.web'', ''10.0.0.2''), (''a.web'', ''10.0.0.3'')]"
  have l: "to_ascii_lowercase ''X.A.Web'' = ''x.a.web''" by code_simp
  have d: "distinct (map fst ?m)" by simp
  have top: "\<not> (\<exists>sfx' v'. (''*.'' @ sfx', v') \<in> set ?m \<and> suffix (CHR ''.'' # sfx') ''x.a.web'' \<and>
      length ''a.web'' < length sfx')" by auto
  have "suffix ''.a.web'' ''x.a.web''" by code_simp
  with top show ?thesis
    by (subst alias_most_specific [OF d], unfold l, intro disjI2 conjI exI [of _ "''a.web''"]) simp_all
qed

section \<open>Where a stream may go\<close>

definition reserved_target :: "target \<Rightarrow> bool" where
  "reserved_target t = (case t of TDomain h p \<Rightarrow> is_reserved_host h | TIp _ \<Rightarrow> False)"

lemma handle_socks_stream_read:
  assumes "rx s = enc_request t @ rest" and "wire_target t" and "\<not> reserved_target t"
  shows "handle_socks_stream ops env srv from_bridge s =
    (if \<not> allows ops (srv_routed_set srv) t
     then io_bind (write_reply REP_NOT_ALLOWED) (\<lambda>_. io_return SDone) (s\<lparr>rx := rest\<rparr>)
     else case (if from_bridge then None else bridge_for ops srv t) of
       Some b \<Rightarrow> route_to_bridge env b t (s\<lparr>rx := rest\<rparr>)
     | None \<Rightarrow> spliced (connect_and_pipe (se_net env) (apply_alias t (srv_host_aliases srv)) (srv_dns_forwarder srv))
         (s\<lparr>rx := rest\<rparr>))"
proof -
  have "read_request s = (Inr t, s\<lparr>rx := rest\<rparr>)" using assms(2,1) by (rule request.rd_enc)
  then show ?thesis
    using assms(3)
    by (cases t) (simp_all add: handle_socks_stream_def io_bind_ok Let_def reserved_target_def split: option.split)
qed

lemma write_request_Inr:
  assumes "write_request t s = (Inr (), s')" and "wire_target t"
  shows "s' = s\<lparr>tx := tx s @ enc_request t\<rparr>"
proof (cases "tx_open s")
  case True
  with assms show ?thesis by (simp add: request.wr_enc)
next
  case False
  with assms show ?thesis
    by (auto simp: write_request_def io_inv wire_defs split: target.splits socket_addr.splits if_splits)
qed

lemma route_to_bridge_SBridged:
  assumes "route_to_bridge env b t s = (Inr (SBridged n bs'), s')" and "wire_target t"
  shows "n = bridge_name b \<and> (\<exists>c bs. active_conn b = Some c \<and> se_open_bi env c = Inr bs \<and>
    bs' = bs\<lparr>tx := tx bs @ enc_request t\<rparr>)"
  using assms
  by (auto simp: route_to_bridge_def io_inv split: option.splits sum.splits prod.splits dest: write_request_Inr)

lemma spliced_not_bridged: "spliced m s \<noteq> (Inr (SBridged n bs), s')"
  by (auto simp: spliced_def io_inv split: option.splits)

lemma serve_reserved_not_bridged: "serve_reserved env srv b s \<noteq> (Inr (SBridged n bs), s')"
  by (auto simp: serve_reserved_def io_inv)

lemma reserved_not_bridged:
  assumes "rx s = enc_request t @ rest" and "wire_target t" and "reserved_target t"
  shows "handle_socks_stream ops env srv from_bridge s \<noteq> (Inr (SBridged n bs), s')"
proof -
  have "read_request s = (Inr t, s\<lparr>rx := rest\<rparr>)" using assms(2,1) by (rule request.rd_enc)
  then show ?thesis
    using assms(3) by (cases t)
      (simp_all add: handle_socks_stream_def io_bind_ok Let_def reserved_target_def
        spliced_not_bridged serve_reserved_not_bridged)
qed

text \<open>C10: The routed set is a whitelist that nothing gets around. A stream for a target that is
  neither reserved nor routed is answered with the not-allowed reply and nothing else
  happens to it: it is neither dialed nor bridged, whatever the network, the bridges and the
  aliases are.\<close>

theorem off_list_stream_refused:
  assumes "rx s = enc_request t @ rest" and "wire_target t" and "tx_open s"
    and "\<not> allows ops (srv_routed_set srv) t" and "\<not> reserved_target t"
  shows "handle_socks_stream ops env srv from_bridge s =
    (Inr SDone, s\<lparr>rx := rest, tx := tx s @ [1, REP_NOT_ALLOWED]\<rparr>)"
proof -
  have "write_reply REP_NOT_ALLOWED (s\<lparr>rx := rest\<rparr>) = (Inr (), s\<lparr>rx := rest, tx := tx s @ [1, REP_NOT_ALLOWED]\<rparr>)"
    using assms(3) by (simp add: reply.wr_enc)
  then show ?thesis
    using assms(4) by (simp add: handle_socks_stream_read [OF assms(1,2,5)] io_bind_ok)
qed

definition sample_stream_env :: "(nat, nat) stream_env" where
  "sample_stream_env = \<lparr>se_net = \<lparr>tcp_connect = (\<lambda>_ _. Inr 1), lookup_host = (\<lambda>_ _. Inr []),
       lookup_ip = (\<lambda>_ _. Inr []), dial_times_out = False\<rparr>,
     se_open_bi = (\<lambda>c. Inr \<lparr>rx = [], tx = [], tx_open = True\<rparr>),
     se_renderers = \<lparr>render_html = (\<lambda>_. Inr ''h''), render_text = (\<lambda>_. Inr ''t''),
       to_string_pretty = (\<lambda>_. Inr ''{}''), render_404 = Inr ''n''\<rparr>, se_version = ''1'', se_head_chunks = [], se_drain_chunks = []\<rparr>"

definition no_nets :: "nat net_ops" where
  "no_nets = \<lparr>net_from_str = (\<lambda>_. None), net_from_ip = (\<lambda>_. 0), net_contains = (\<lambda>_ _. False),
     net_network = (\<lambda>_. IpV4 0)\<rparr>"

definition all_names :: "'n routed_set" where
  "all_names = \<lparr>domains_exact = {}, domains_suffix = [], rs_cidrs = [], domains_all = True\<rparr>"

definition sample_bridge :: "nat bridge_upstream" where
  "sample_bridge = \<lparr>bu_config = \<lparr>buc_name = ''up'', buc_endpoint_id = ''b'', buc_relay_urls = [],
     buc_routed_set = all_names, buc_domains = [''*''], buc_cidrs = []\<rparr>, bu_conn = Some 3\<rparr>"

theorem off_list_stream_refused_witness:
  "handle_socks_stream no_nets sample_stream_env sample_server True
     \<lparr>rx = enc_request (TIp (SockV4 0x0A000001 22)) @ [7], tx = [], tx_open = True\<rparr> =
   (Inr SDone, \<lparr>rx = [7], tx = [1, REP_NOT_ALLOWED], tx_open = True\<rparr>)"
  by (subst off_list_stream_refused [where t = "TIp (SockV4 0x0A000001 22)" and rest = "[7]"])
    (simp_all add: wire_target_def allows_def allows_ip_def sample_server_def proxy_server_new_def
      routed_set_default_def reserved_target_def)

text \<open>C11: A stream that a server hands to a bridge was routed by the server and by the rules of
  that bridge; the second server receives the request the client made, for the same target
  and not for what an alias of the first server maps it to, and never hands it on to a
  bridge of its own: a request crosses at most one bridge.\<close>

theorem bridged_once_and_verbatim:
  assumes "handle_socks_stream ops env srv from_bridge s = (Inr (SBridged n bs), s')"
    and "rx s = enc_request t @ rest" and "wire_target t"
    and "\<And>c fresh. se_open_bi env c = Inr fresh \<Longrightarrow> tx fresh = []"
    and "rx s2 = tx bs @ later"
  shows "\<not> from_bridge \<and> allows ops (srv_routed_set srv) t \<and>
    (\<exists>b \<in> set (srv_bridges srv). bridge_name b = n \<and> bridge_is_connected b \<and>
       allows ops (buc_routed_set (bu_config b)) t) \<and>
    read_request s2 = (Inr t, s2\<lparr>rx := later\<rparr>) \<and>
    handle_socks_stream ops2 env2 srv2 True s2 \<noteq> (Inr (SBridged n2 bs2), s2')"
proof -
  have nr: "\<not> reserved_target t" using reserved_not_bridged [OF assms(2,3)] assms(1) by blast
  note run = assms(1) [unfolded handle_socks_stream_read [OF assms(2,3) nr]]
  from run have on: "allows ops (srv_routed_set srv) t" by (auto simp: io_inv split: if_splits)
  with run obtain b where b: "\<not> from_bridge" "bridge_for ops srv t = Some b"
    "route_to_bridge env b t (s\<lparr>rx := rest\<rparr>) = (Inr (SBridged n bs), s')"
    by (auto simp: spliced_not_bridged split: if_splits option.splits)
  from route_to_bridge_SBridged [OF b(3) assms(3)] assms(4)
  have n: "n = bridge_name b" "bridge_is_connected b" "tx bs = enc_request t"
    by (auto simp: active_conn_def bridge_is_connected_def)
  have s2: "rx s2 = enc_request t @ later" using assms(5) n(3) by simp
  have "read_request s2 = (Inr t, s2\<lparr>rx := later\<rparr>)" using assms(3) s2 by (rule request.rd_enc)
  moreover have "handle_socks_stream ops2 env2 srv2 True s2 \<noteq> (Inr (SBridged n2 bs2), s2')"
    by (auto simp: handle_socks_stream_read [OF s2 assms(3) nr] spliced_not_bridged io_inv)
  moreover have "b \<in> set (srv_bridges srv) \<and> allows ops (buc_routed_set (bu_config b)) t"
    using b(2) by (auto simp: bridge_for_def find_Some_iff)
  ultimately show ?thesis using on b(1) n(1,2) by blast
qed

theorem bridged_once_and_verbatim_witness:
  "let srv = sample_server\<lparr>srv_routed_set := all_names, srv_bridges := [sample_bridge],
         srv_host_aliases := [(''db'', ''10.0.0.1'')]\<rparr>;
       t = TDomain ''db'' 5432;
       s = \<lparr>rx = enc_request t, tx = [], tx_open = True\<rparr> in
   \<exists>bs s'. handle_socks_stream no_nets sample_stream_env srv False s = (Inr (SBridged ''up'' bs), s') \<and>
     fst (read_request (s\<lparr>rx := tx bs\<rparr>)) = Inr t"
proof -
  let ?srv = "sample_server\<lparr>srv_routed_set := all_names, srv_bridges := [sample_bridge],
    srv_host_aliases := [(''db'', ''10.0.0.1'')]\<rparr>"
  let ?t = "TDomain ''db'' 5432"
  let ?s = "\<lparr>rx = enc_request ?t, tx = [], tx_open = True\<rparr>"
  have w: "wire_target ?t" by (simp add: wire_target_def, code_simp)
  have rx: "rx ?s = enc_request ?t @ []" by simp
  have nr: "\<not> reserved_target ?t" unfolding reserved_target_def by (simp, code_simp)
  have ip: "parse_ip_literal ''db'' = None" by code_simp
  have al: "allows ops all_names ?t" for ops :: "nat net_ops"
    by (simp add: allows_def allows_host_def ip all_names_def)
  let ?bs = "\<lparr>rx = [], tx = enc_request ?t, tx_open = True\<rparr>"
  have run: "handle_socks_stream no_nets sample_stream_env ?srv False ?s = (Inr (SBridged ''up'' ?bs), ?s\<lparr>rx := []\<rparr>)"
    by (subst handle_socks_stream_read [OF rx w nr])
      (simp add: al bridge_for_def route_to_bridge_def sample_bridge_def active_conn_def bridge_name_def
        sample_stream_env_def request.wr_enc [OF w])
  have "read_request (?s\<lparr>rx := tx ?bs\<rparr>) = (Inr ?t, ?s\<lparr>rx := tx ?bs\<rparr>\<lparr>rx := []\<rparr>)"
    by (rule conjunct1 [OF conjunct2 [OF conjunct2 [OF conjunct2 [OF
            bridged_once_and_verbatim [OF run rx w]]]]])
      (auto simp: sample_stream_env_def)
  with run show ?thesis unfolding Let_def by (intro exI [of _ ?bs] exI [of _ "?s\<lparr>rx := []\<rparr>"]) simp
qed

end
