(* ===== verification/Config.thy ===== *)
theory Config
  imports Blocklist Reserved "HOL-Library.AList"
begin

text \<open>
  The configuration files, \<^verbatim>\<open>src/crates/flextunnel-core/src/config.rs\<close>: the schemas, where the
  files are looked for, and the merge of command line over file over default with the
  checks on aliases and bridges. A hash map is the list of its entries in iteration order;
  the home directory, the file system and the TOML parser are parameters. The lemmas
  characterise the configurations that are accepted and what the merge results in.
\<close>

section \<open>Errors with context\<close>

text \<open>\<^verbatim>\<open>anyhow::Context\<close>: the context goes in front, what it wraps stays as the source.\<close>

definition wrap :: "msg \<Rightarrow> msg \<Rightarrow> msg" where
  "wrap ctx e = (fst ctx, snd ctx @ FStr (fst e) # snd e)"

definition with_context :: "msg \<Rightarrow> msg + 'a \<Rightarrow> msg + 'a" where
  "with_context ctx r = map_err (wrap ctx) r"

definition option_context :: "msg \<Rightarrow> 'a option \<Rightarrow> msg + 'a" where
  "option_context ctx r = (case r of None \<Rightarrow> Inl ctx | Some x \<Rightarrow> Inr x)"

lemma with_context_Inr_iff [simp]: "with_context ctx r = Inr x \<longleftrightarrow> r = Inr x"
  by (simp add: with_context_def)

lemma with_context_Inr [simp]: "with_context ctx (Inr x) = Inr x"
  by simp

lemma option_context_Inr_iff [simp]: "option_context ctx r = Inr x \<longleftrightarrow> r = Some x"
  by (auto simp: option_context_def split: option.splits)

text \<open>\<^verbatim>\<open>Option::or\<close>.\<close>

definition option_or :: "'a option \<Rightarrow> 'a option \<Rightarrow> 'a option" where
  "option_or a b = (case a of Some x \<Rightarrow> Some x | None \<Rightarrow> b)"

definition unwrap_or :: "'a option \<Rightarrow> 'a \<Rightarrow> 'a" where
  "unwrap_or a d = (case a of Some x \<Rightarrow> x | None \<Rightarrow> d)"

lemma option_or_simps [simp]: "option_or (Some x) b = Some x" "option_or None b = b"
  by (simp_all add: option_or_def)

lemma unwrap_or_simps [simp]: "unwrap_or (Some x) d = x" "unwrap_or None d = d"
  by (simp_all add: unwrap_or_def)

section \<open>The schemas\<close>

record bridge_config =
  bc_endpoint_id :: string
  bc_domains :: "string list"
  bc_cidrs :: "string list"

record server_toml =
  sc_secret_file :: "string option"
  sc_authorized_keys_file :: "string option"
  sc_relay_urls :: "string list option"
  sc_relay_auth_token :: "string option"
  sc_host_aliases :: "(string \<times> string) list option"
  sc_routed_domains :: "string list option"
  sc_routed_cidrs :: "string list option"
  sc_dns_forwards :: "(string \<times> string list) list option"
  sc_bridges :: "(string \<times> bridge_config) list option"
  sc_allowed_bridge_servers :: "string list option"

definition server_toml_default :: server_toml where
  "server_toml_default = \<lparr>sc_secret_file = None, sc_authorized_keys_file = None, sc_relay_urls = None,
     sc_relay_auth_token = None, sc_host_aliases = None, sc_routed_domains = None,
     sc_routed_cidrs = None, sc_dns_forwards = None, sc_bridges = None,
     sc_allowed_bridge_servers = None\<rparr>"

record forward_config =
  fc_label :: string
  fc_local_port :: u16
  fc_remote_host :: string
  fc_remote_port :: u16

record client_toml =
  ct_server_node_id :: "string option"
  ct_name :: "string option"
  ct_socks_port :: "u16 option"
  ct_http_port :: "u16 option"
  ct_auth_key :: "string option"
  ct_auth_key_file :: "string option"
  ct_relay_urls :: "string list option"
  ct_relay_auth_token :: "string option"
  ct_auto_reconnect :: "bool option"
  ct_max_reconnect_attempts :: "u32 option"
  ct_forwards :: "forward_config list option"

definition client_toml_default :: client_toml where
  "client_toml_default = \<lparr>ct_server_node_id = None, ct_name = None, ct_socks_port = None,
     ct_http_port = None, ct_auth_key = None, ct_auth_key_file = None, ct_relay_urls = None,
     ct_relay_auth_token = None, ct_auto_reconnect = None, ct_max_reconnect_attempts = None,
     ct_forwards = None\<rparr>"

record resolved_server =
  rs_secret_file :: "string option"
  rs_authorized_keys_file :: "string option"
  rs_relay_urls :: "string list"
  rs_relay_auth_token :: "string option"
  rs_host_aliases :: "(string \<times> string) list"
  rs_routed_domains :: "string list"
  rs_routed_cidrs :: "string list"
  rs_dns_forwards :: "(string \<times> string list) list"
  rs_bridges :: "(string \<times> bridge_config) list"
  rs_allowed_bridge_servers :: "string list"
  rs_blocklist_file :: string

record resolved_client =
  rc_server_node_id :: "string option"
  rc_name :: "string option"
  rc_socks_port :: "u16 option"
  rc_http_port :: "u16 option"
  rc_auth_key :: "string option"
  rc_auth_key_file :: "string option"
  rc_relay_urls :: "string list"
  rc_relay_auth_token :: "string option"
  rc_auto_reconnect :: bool
  rc_max_reconnect_attempts :: "u32 option"
  rc_forwards :: "forward_config list"

section \<open>Paths\<close>

text \<open>\<^verbatim>\<open>Path::join\<close>: an absolute path replaces, a relative one is appended.\<close>

definition path_join :: "string \<Rightarrow> string \<Rightarrow> string" where
  "path_join p q =
     (if prefix ''/'' q then q
      else if p = [] \<or> last p = CHR ''/'' then p @ q
      else p @ ''/'' @ q)"

definition expand_tilde :: "string option \<Rightarrow> string \<Rightarrow> string" where
  "expand_tilde home_dir path =
     (case strip_prefix ''~/'' path of
        Some rest \<Rightarrow> (case home_dir of Some home \<Rightarrow> path_join home rest | None \<Rightarrow> path)
      | None \<Rightarrow>
          if path = ''~'' then (case home_dir of Some home \<Rightarrow> home | None \<Rightarrow> path)
          else path)"

definition default_config_path :: "string option \<Rightarrow> string \<Rightarrow> string option" where
  "default_config_path home_dir file_name =
     map_option (\<lambda>home. path_join (path_join (path_join home ''.config'') ''flextunnel'') file_name) home_dir"

definition default_client_config_path :: "string option \<Rightarrow> string option" where
  "default_client_config_path home_dir = default_config_path home_dir ''client.toml''"

section \<open>Loading\<close>

definition load_config :: "(string \<Rightarrow> msg + 'a) \<Rightarrow> (string \<Rightarrow> io_error + string) \<Rightarrow> string \<Rightarrow> msg + 'a" where
  "load_config from_str read_to_string path =
     result_bind
       (with_context (''Failed to read config file: {}'', [FStr path]) (map_err err_msg (read_to_string path)))
       (\<lambda>content. with_context (''Failed to parse config file: {}'', [FStr path]) (from_str content))"

definition resolve_config_path ::
  "string option \<Rightarrow> string option \<Rightarrow> bool \<Rightarrow> string \<Rightarrow> msg + string option" where
  "resolve_config_path home_dir path default_config default_name =
     (case path of
        Some p \<Rightarrow> Inr (Some (expand_tilde home_dir p))
      | None \<Rightarrow>
          if default_config then
            result_bind
              (option_context (''Could not determine the default config directory; pass -c <FILE> instead'', [])
                (default_config_path home_dir default_name))
              (\<lambda>p. Inr (Some p))
          else Inr None)"

definition load_server_config ::
  "(string \<Rightarrow> msg + server_toml) \<Rightarrow> (string \<Rightarrow> io_error + string) \<Rightarrow> string option \<Rightarrow>
   string option \<Rightarrow> bool \<Rightarrow> msg + server_toml option" where
  "load_server_config from_str read_to_string home_dir path default_config =
     result_bind (resolve_config_path home_dir path default_config ''server.toml'') (\<lambda>p.
       case p of
         Some p \<Rightarrow> result_bind (load_config from_str read_to_string p) (\<lambda>c. Inr (Some c))
       | None \<Rightarrow> Inr None)"

definition load_client_config ::
  "(string \<Rightarrow> msg + client_toml) \<Rightarrow> (string \<Rightarrow> io_error + string) \<Rightarrow> (string \<Rightarrow> bool) \<Rightarrow> string option \<Rightarrow>
   string option \<Rightarrow> msg + client_toml option" where
  "load_client_config from_str read_to_string path_exists home_dir path =
     (case path of
        Some p \<Rightarrow>
          result_bind (load_config from_str read_to_string (expand_tilde home_dir p)) (\<lambda>c. Inr (Some c))
      | None \<Rightarrow>
          (case default_client_config_path home_dir of
             Some p \<Rightarrow>
               if path_exists p
               then result_bind (load_config from_str read_to_string p) (\<lambda>c. Inr (Some c))
               else Inr None
           | None \<Rightarrow> Inr None))"

section \<open>Aliases\<close>

definition validate_alias_key :: "string \<Rightarrow> string \<Rightarrow> msg + unit" where
  "validate_alias_key key what =
     (case strip_prefix ''*.'' key of
        Some sfx \<Rightarrow>
          if CHR ''*'' \<in> set sfx \<or> list_ex (\<lambda>l. l = []) (split_on CHR ''.'' sfx)
          then Inl (''invalid [{what}] wildcard pattern {key}'', [FStr what, FStr key])
          else Inr ()
      | None \<Rightarrow>
          if key = [] \<or> CHR ''*'' \<in> set key
          then Inl (''invalid [{what}] name '{key}': use an exact hostname or a '*.suffix' wildcard'',
            [FStr what, FStr key])
          else Inr ())"

fun collect_loop :: "string \<Rightarrow> (string \<times> 'v) list \<Rightarrow> (string \<times> 'v) list \<Rightarrow> msg + (string \<times> 'v) list" where
  "collect_loop what [] out = Inr out"
| "collect_loop what ((k, v) # entries) out =
     (let key = to_ascii_lowercase k in
      if key \<in> fst ` set out
      then Inl (''duplicate [{what}] alias '{key}': aliases are matched case-insensitively, so entries differing only by case collide'',
        [FStr what, FStr key])
      else collect_loop what entries (AList.update key v out))"

definition collect_lowercased :: "(string \<times> 'v) list \<Rightarrow> string \<Rightarrow> msg + (string \<times> 'v) list" where
  "collect_lowercased entries what = collect_loop what entries []"

fun validate_alias_keys :: "string list \<Rightarrow> msg + unit" where
  "validate_alias_keys [] = Inr ()"
| "validate_alias_keys (key # keys) =
     result_bind (validate_alias_key key ''host_aliases'') (\<lambda>_. validate_alias_keys keys)"

fun reject_reserved_keys :: "string list \<Rightarrow> msg + unit" where
  "reject_reserved_keys [] = Inr ()"
| "reject_reserved_keys (key # keys) =
     (if is_reserved_host key
      then Inl (''alias '{key}' uses the reserved flextunnel.internal namespace and cannot be used as a [host_aliases] name'',
        [FStr key])
      else reject_reserved_keys keys)"

section \<open>Resolving\<close>

text \<open>The loop over the sorted bridge names; \<open>seen\<close> maps an endpoint id to the bridge that
  was seen with it.\<close>

fun check_bridges ::
  "(string \<times> bridge_config) list \<Rightarrow> (string \<times> string) list \<Rightarrow> msg + unit" where
  "check_bridges [] seen = Inr ()"
| "check_bridges ((name, b) # rest) seen =
     (if bc_domains b = [] \<and> bc_cidrs b = []
      then Inl (''bridge '{name}' has no domains and no cidrs; it would never match'', [FStr name])
      else case map_of seen (bc_endpoint_id b) of
        Some other \<Rightarrow>
          Inl (''bridges '{other}' and '{name}' target the same endpoint_id; merge their domains/cidrs into one entry'',
            [FStr other, FStr name])
      | None \<Rightarrow> check_bridges rest (AList.update (bc_endpoint_id b) name seen))"

definition resolve_server ::
  "string option \<Rightarrow> server_toml \<Rightarrow> server_toml option \<Rightarrow> msg + resolved_server" where
  "resolve_server home_dir cli file0 =
     (let file = unwrap_or file0 server_toml_default;
          secret_file = option_or (sc_secret_file cli) (sc_secret_file file);
          authorized_keys_file = option_or (sc_authorized_keys_file cli) (sc_authorized_keys_file file) in
      result_bind (collect_lowercased
        (unwrap_or (option_or (sc_host_aliases cli) (sc_host_aliases file)) []) ''host_aliases'') (\<lambda>host_aliases.
      result_bind (collect_lowercased
        (unwrap_or (option_or (sc_dns_forwards cli) (sc_dns_forwards file)) []) ''dns_forwards'') (\<lambda>dns_forwards.
      result_bind (validate_alias_keys (map fst host_aliases)) (\<lambda>_.
      result_bind (reject_reserved_keys (map fst host_aliases)) (\<lambda>_.
        let bridges = unwrap_or (option_or (sc_bridges cli) (sc_bridges file)) [] in
      result_bind (check_bridges (sort_key fst bridges) []) (\<lambda>_.
      result_bind (option_context
        (''Could not determine the home directory for the duplicate-id blocklist (~/.config/flextunnel/blocklist.json); set HOME'', [])
        (default_blocklist_path home_dir)) (\<lambda>blocklist_file.
      Inr \<lparr>rs_secret_file = map_option (expand_tilde home_dir) secret_file,
        rs_authorized_keys_file = map_option (expand_tilde home_dir) authorized_keys_file,
        rs_relay_urls = unwrap_or (option_or (sc_relay_urls cli) (sc_relay_urls file)) [],
        rs_relay_auth_token = option_or (sc_relay_auth_token cli) (sc_relay_auth_token file),
        rs_host_aliases = host_aliases,
        rs_routed_domains = unwrap_or (option_or (sc_routed_domains cli) (sc_routed_domains file)) [],
        rs_routed_cidrs = unwrap_or (option_or (sc_routed_cidrs cli) (sc_routed_cidrs file)) [],
        rs_dns_forwards = dns_forwards, rs_bridges = bridges,
        rs_allowed_bridge_servers =
          unwrap_or (option_or (sc_allowed_bridge_servers cli) (sc_allowed_bridge_servers file)) [],
        rs_blocklist_file = blocklist_file\<rparr>)))))))"

definition resolve_client :: "string option \<Rightarrow> client_toml \<Rightarrow> client_toml option \<Rightarrow> resolved_client" where
  "resolve_client home_dir cli file0 =
     (let file = unwrap_or file0 client_toml_default;
          (auth_key, auth_key_file) =
            (if ct_auth_key cli \<noteq> None \<or> ct_auth_key_file cli \<noteq> None
             then (ct_auth_key cli, ct_auth_key_file cli)
             else (None, ct_auth_key_file file)) in
      \<lparr>rc_server_node_id = option_or (ct_server_node_id cli) (ct_server_node_id file),
       rc_name = option_or (ct_name cli) (ct_name file),
       rc_socks_port = option_or (ct_socks_port cli) (ct_socks_port file),
       rc_http_port = option_or (ct_http_port cli) (ct_http_port file),
       rc_auth_key = auth_key,
       rc_auth_key_file = map_option (expand_tilde home_dir) auth_key_file,
       rc_relay_urls = unwrap_or (option_or (ct_relay_urls cli) (ct_relay_urls file)) [],
       rc_relay_auth_token = option_or (ct_relay_auth_token cli) (ct_relay_auth_token file),
       rc_auto_reconnect = unwrap_or (option_or (ct_auto_reconnect cli) (ct_auto_reconnect file)) True,
       rc_max_reconnect_attempts = option_or (ct_max_reconnect_attempts cli) (ct_max_reconnect_attempts file),
       rc_forwards = unwrap_or (option_or (ct_forwards cli) (ct_forwards file)) []\<rparr>)"

section \<open>Facts about the checks\<close>

lemma collect_loop_Inr_iff:
  "collect_loop what es out = Inr m \<longleftrightarrow>
     distinct (map (to_ascii_lowercase \<circ> fst) es) \<and>
     fst ` set out \<inter> (to_ascii_lowercase \<circ> fst) ` set es = {} \<and>
     m = out @ map (map_prod to_ascii_lowercase id) es"
proof (induction what es out rule: collect_loop.induct)
  case (2 what k v es out)
  have "AList.update (to_ascii_lowercase k) v out = out @ [(to_ascii_lowercase k, v)]"
    if "to_ascii_lowercase k \<notin> fst ` set out"
    using that by (induction out) auto
  with 2 show ?case by (auto simp: Let_def)
qed auto

lemma collect_lowercased_Inr_iff:
  "collect_lowercased es what = Inr m \<longleftrightarrow>
     distinct (map (to_ascii_lowercase \<circ> fst) es) \<and> m = map (map_prod to_ascii_lowercase id) es"
  by (simp add: collect_lowercased_def collect_loop_Inr_iff)

text \<open>The alias keys that pass: a name without a star, or a star in front of such a name whose
  labels are not empty.\<close>

definition alias_key_ok :: "string \<Rightarrow> bool" where
  "alias_key_ok key \<longleftrightarrow>
     (key \<noteq> [] \<and> CHR ''*'' \<notin> set key) \<or>
     (\<exists>sfx. key = ''*.'' @ sfx \<and> CHR ''*'' \<notin> set sfx \<and> [] \<notin> set (split_on CHR ''.'' sfx))"

lemma validate_alias_key_Inr_iff: "validate_alias_key key what = Inr () \<longleftrightarrow> alias_key_ok key"
proof (cases "strip_prefix ''*.'' key")
  case None
  then have "\<not> (\<exists>sfx. key = ''*.'' @ sfx)" by (auto simp: strip_prefix_def split: if_splits)
  with None show ?thesis by (auto simp: validate_alias_key_def alias_key_ok_def)
next
  case (Some sfx)
  then have "key = ''*.'' @ sfx" by (auto simp: strip_prefix_def prefix_def split: if_splits)
  with Some show ?thesis by (auto simp: validate_alias_key_def alias_key_ok_def list_ex_iff)
qed

lemma validate_alias_keys_Inr_iff: "validate_alias_keys ks = Inr () \<longleftrightarrow> list_all alias_key_ok ks"
  by (induction ks) (auto simp: result_bind_Inr_iff validate_alias_key_Inr_iff)

lemma reject_reserved_keys_Inr_iff:
  "reject_reserved_keys ks = Inr () \<longleftrightarrow> list_all (\<lambda>k. \<not> is_reserved_host k) ks"
  by (induction ks) auto

lemma check_bridges_Inr_iff:
  "check_bridges bs seen = Inr () \<longleftrightarrow>
     list_all (\<lambda>(n, b). bc_domains b \<noteq> [] \<or> bc_cidrs b \<noteq> []) bs \<and>
     distinct (map (bc_endpoint_id \<circ> snd) bs) \<and>
     fst ` set seen \<inter> (bc_endpoint_id \<circ> snd) ` set bs = {}"
proof (induction bs seen rule: check_bridges.induct)
  case (2 name b rest seen)
  show ?case
  proof (cases "map_of seen (bc_endpoint_id b)")
    case None
    then have "bc_endpoint_id b \<notin> fst ` set seen" by (simp add: map_of_eq_None_iff)
    with None 2 show ?thesis by (auto simp: dom_update)
  next
    case (Some other)
    then have "bc_endpoint_id b \<in> fst ` set seen" by (force dest: map_of_SomeD)
    with Some show ?thesis by auto
  qed
qed simp

end
