(* ===== verification/Identity.thy ===== *)
theory Identity
  imports Config Transport
begin

text \<open>
  The server's identity on disk: the key file, \<^verbatim>\<open>src/crates/flextunnel-core/src/secret.rs\<close>, and
  the single-instance lock, \<^verbatim>\<open>src/crates/flextunnel-core/src/lock.rs\<close> with its use in
  \<^verbatim>\<open>src/crates/flextunnel-core/src/server.rs\<close>. Files carry their permission bits. Base64, the
  key type and the calls of the file system are parameters. The lemmas show that a
  generated key file is read back, that it is readable by the owner only and never
  overwritten unasked, and that one identity has at most one running server.
\<close>

section \<open>Files with permissions\<close>

record secret_file =
  sf_mode :: nat
  sf_content :: string

type_synonym secret_files = "string \<Rightarrow> secret_file option"

text \<open>The mode \<^verbatim>\<open>0o600\<close>.\<close>

definition OWNER_RW :: nat where "OWNER_RW = 6 * 8 * 8"

section \<open>Reading a key\<close>

text \<open>\<^verbatim>\<open>str::lines\<close>: the pieces between line feeds, each without a carriage return at its end; a
  last empty piece is not a line.\<close>

definition strip_cr :: "string \<Rightarrow> string" where
  "strip_cr l = (case strip_suffix [CHR 0x0D] l of Some l' \<Rightarrow> l' | None \<Rightarrow> l)"

definition str_lines :: "string \<Rightarrow> string list" where
  "str_lines s =
     (let ps = split_on CHR 0x0A s in
      if last ps = [] then map strip_cr (butlast ps)
      else map strip_cr (butlast ps) @ [last ps])"

text \<open>Base64 and the key type.\<close>

record 'k key_ops =
  base64_encode :: "bytes \<Rightarrow> string"
  base64_decode :: "string \<Rightarrow> msg + bytes"
  key_try_from :: "bytes \<Rightarrow> msg + 'k"
  key_to_bytes :: "'k \<Rightarrow> bytes"
  key_public :: "'k \<Rightarrow> endpoint_id"

definition load_secret_from_string :: "'k key_ops \<Rightarrow> string \<Rightarrow> msg + 'k" where
  "load_secret_from_string ko base64_key =
     result_bind (with_context (''Invalid base64 in secret key'', []) (base64_decode ko base64_key)) (\<lambda>bs.
       with_context (''Invalid secret key (must be 32 bytes)'', []) (key_try_from ko bs))"

definition is_secret_line :: "string \<Rightarrow> bool" where
  "is_secret_line line \<longleftrightarrow> line \<noteq> [] \<and> \<not> prefix ''#'' line"

text \<open>\<open>read_fails\<close> is the error of \<^verbatim>\<open>read_to_string\<close> on a file that exists, if any.\<close>

definition load_secret :: "'k key_ops \<Rightarrow> msg option \<Rightarrow> secret_files \<Rightarrow> string \<Rightarrow> msg + 'k" where
  "load_secret ko read_fails disk path =
     (case disk path of
        None \<Rightarrow> Inl (''Secret key file not found: {} Generate one with: flextunnel generate-iroh-key --output {}'',
          [FStr path, FStr path])
      | Some f \<Rightarrow>
          result_bind (with_context (''Failed to read secret key file'', [])
            (case read_fails of Some e \<Rightarrow> Inl e | None \<Rightarrow> Inr (sf_content f))) (\<lambda>content.
          case find is_secret_line (map trim (str_lines content)) of
            None \<Rightarrow> Inl (''No secret key found in {} (only blank lines or # comments)'', [FStr path])
          | Some line \<Rightarrow> load_secret_from_string ko line))"

definition secret_to_endpoint_id :: "'k key_ops \<Rightarrow> 'k \<Rightarrow> endpoint_id" where
  "secret_to_endpoint_id ko secret = key_public ko secret"

definition resolve_secret_key ::
  "'k key_ops \<Rightarrow> msg option \<Rightarrow> secret_files \<Rightarrow> string option \<Rightarrow> msg + 'k" where
  "resolve_secret_key ko read_fails disk secret_file =
     (case secret_file of
        Some path \<Rightarrow>
          with_context
            (if disk path \<noteq> None then (''Failed to load secret key'', [])
             else (''Generate one with: flextunnel generate-iroh-key --output {}'', [FStr path]))
            (load_secret ko read_fails disk path)
      | None \<Rightarrow> Inl (''No secret key configured.'', []))"

text \<open>What is printed: lines to standard output, and to standard error.\<close>

datatype printed = Stdout string | Stderr string

definition show_iroh_id ::
  "'k key_ops \<Rightarrow> (endpoint_id \<Rightarrow> string) \<Rightarrow> msg option \<Rightarrow> secret_files \<Rightarrow> string option \<Rightarrow> bool \<Rightarrow>
   msg + printed list" where
  "show_iroh_id ko json_id read_fails disk secret_file json =
     result_bind (resolve_secret_key ko read_fails disk secret_file) (\<lambda>secret.
       let i = secret_to_endpoint_id ko secret in
       Inr [Stdout (if json then json_id i else i)])"

section \<open>Writing a key\<close>

text \<open>The calls of the file system that may fail. Between the check that the file does not exist
  and the opening of it, another process may have changed the disk: \<open>meanwhile\<close> is what it
  does.\<close>

record secret_calls =
  mkdir_fails :: "msg option"
  open_fails :: "msg option"
  chmod_fails :: "msg option"
  write_fails :: "msg option"
  partial_write :: string
  meanwhile :: "secret_files \<Rightarrow> secret_files"

text \<open>\<^verbatim>\<open>OpenOptions::open\<close> for writing: with \<^verbatim>\<open>create_new\<close> it fails on a file that exists, with
  \<^verbatim>\<open>create\<close> and \<^verbatim>\<open>truncate\<close> it empties it and leaves its permissions.\<close>

definition open_secret :: "secret_calls \<Rightarrow> bool \<Rightarrow> string \<Rightarrow> secret_files \<Rightarrow> msg + secret_files" where
  "open_secret fs force path disk =
     (case open_fails fs of
        Some e \<Rightarrow> Inl e
      | None \<Rightarrow>
          (case disk path of
             None \<Rightarrow> Inr (disk(path \<mapsto> \<lparr>sf_mode = OWNER_RW, sf_content = []\<rparr>))
           | Some f \<Rightarrow>
               if force then Inr (disk(path \<mapsto> f\<lparr>sf_content := []\<rparr>))
               else Inl (''File exists (os error 17)'', [])))"

definition write_secret_to_output ::
  "secret_calls \<Rightarrow> string \<Rightarrow> string \<Rightarrow> string \<Rightarrow> bool \<Rightarrow> secret_files \<Rightarrow> (msg + printed list) \<times> secret_files" where
  "write_secret_to_output fs path secret_content public_info force disk =
     (if path = ''-'' then (Inr [Stdout secret_content, Stderr public_info], disk)
      else if disk path \<noteq> None \<and> \<not> force
      then (Inl (''File already exists: {}. Use --force to overwrite.'', [FStr path]), disk)
      else case (if has_parent path then mkdir_fails fs else None) of
        Some e \<Rightarrow> (Inl (wrap (''Failed to create parent directory'', []) e), disk)
      | None \<Rightarrow>
          let disk = meanwhile fs disk in
          (case open_secret fs force path disk of
             Inl e \<Rightarrow> (Inl (wrap (''Failed to open secret key file'', []) e), disk)
           | Inr disk \<Rightarrow>
               (case (if force then chmod_fails fs else None) of
                  Some e \<Rightarrow> (Inl (wrap (''Failed to set secret key file permissions'', []) e), disk)
                | None \<Rightarrow>
                    let mode = (if force then OWNER_RW else sf_mode (the (disk path))) in
                    (case write_fails fs of
                       Some e \<Rightarrow>
                         (Inl (wrap (''Failed to write secret key file'', []) e),
                          disk(path \<mapsto> \<lparr>sf_mode = mode, sf_content = partial_write fs\<rparr>))
                     | None \<Rightarrow>
                         (Inr [Stdout public_info],
                          disk(path \<mapsto> \<lparr>sf_mode = mode, sf_content = secret_content\<rparr>))))))"

definition key_file_contents :: "string \<Rightarrow> endpoint_id \<Rightarrow> string \<Rightarrow> string" where
  "key_file_contents created i secret_base64 =
     ''# created: '' @ created @ [CHR 0x0A] @ ''# public key: '' @ i @ [CHR 0x0A] @ secret_base64 @ [CHR 0x0A]"

text \<open>The two JSON objects that are printed are parameters.\<close>

definition generate_iroh_key ::
  "'k key_ops \<Rightarrow> secret_calls \<Rightarrow> (string \<Rightarrow> endpoint_id \<Rightarrow> string \<Rightarrow> string) \<Rightarrow>
   (string \<Rightarrow> endpoint_id \<Rightarrow> string \<Rightarrow> string) \<Rightarrow> 'k \<Rightarrow> string \<Rightarrow> string \<Rightarrow> bool \<Rightarrow> bool \<Rightarrow> secret_files \<Rightarrow>
   (msg + printed list) \<times> secret_files" where
  "generate_iroh_key ko fs json_secret json_file secret created path force json disk =
     (let secret_base64 = base64_encode ko (key_to_bytes ko secret);
          i = secret_to_endpoint_id ko secret;
          contents = key_file_contents created i secret_base64 in
      if path = ''-''
      then (Inr [Stdout (if json then json_secret created i secret_base64 else contents)], disk)
      else
        let public_info = (if json then json_file created i path else ''EndpointId: '' @ i) in
        write_secret_to_output fs path contents public_info force disk)"

section \<open>The instance lock\<close>

text \<open>The lock table of the operating system: which open file, if any, holds the lock of a
  path; and what the lock files contain.\<close>

record lock_world =
  lock_held :: "string \<Rightarrow> nat option"
  lock_files :: files

record lock_calls =
  lk_mkdir :: "msg option"
  lk_open :: "msg option"
  lk_try_lock :: "msg option"
  lk_recorded :: string

definition lock_acquire ::
  "lock_calls \<Rightarrow> nat \<Rightarrow> string \<Rightarrow> msg \<Rightarrow> lock_world \<Rightarrow> (msg + nat) \<times> lock_world" where
  "lock_acquire lc handle path contended_msg w =
     (case (if has_parent path then lk_mkdir lc else None) of
        Some e \<Rightarrow> (Inl (wrap (''Failed to create the lock directory {}'', [FStr path]) e), w)
      | None \<Rightarrow>
          (case lk_open lc of
             Some e \<Rightarrow> (Inl (wrap (''Failed to open the lock file {}'', [FStr path]) e), w)
           | None \<Rightarrow>
               let w = (if lock_files w path = None then w\<lparr>lock_files := (lock_files w)(path \<mapsto> [])\<rparr> else w) in
               (case lk_try_lock lc of
                  Some e \<Rightarrow> (Inl (wrap (''Failed to acquire the single-instance lock ({})'', [FStr path]) e), w)
                | None \<Rightarrow>
                    if lock_held w path \<noteq> None then (Inl contended_msg, w)
                    else (Inr handle,
                      w\<lparr>lock_held := (lock_held w)(path \<mapsto> handle),
                        lock_files := (lock_files w)(path \<mapsto> lk_recorded lc)\<rparr>))))"

text \<open>The lock is released when the file is closed: by dropping the value, or by the end of the
  process.\<close>

definition lock_drop :: "nat \<Rightarrow> string \<Rightarrow> lock_world \<Rightarrow> lock_world" where
  "lock_drop handle path w =
     (if lock_held w path = Some handle then w\<lparr>lock_held := (lock_held w)(path := None)\<rparr> else w)"

definition LOCK_KEY_LEN :: nat where "LOCK_KEY_LEN = 16"

definition server_lock_path :: "string option \<Rightarrow> endpoint_id \<Rightarrow> string option" where
  "server_lock_path home_dir own_id =
     map_option (\<lambda>home. path_join (path_join (path_join home ''.config'') ''flextunnel'')
       (''server-'' @ take LOCK_KEY_LEN own_id @ ''.lock'')) home_dir"

definition acquire_server_lock ::
  "string option \<Rightarrow> lock_calls \<Rightarrow> nat \<Rightarrow> endpoint_id \<Rightarrow> lock_world \<Rightarrow> (msg + nat) \<times> lock_world" where
  "acquire_server_lock home_dir lc handle own_id w =
     (case server_lock_path home_dir own_id of
        None \<Rightarrow> (Inl (''Could not determine the home directory, so the single-instance lock cannot be enforced'', []), w)
      | Some path \<Rightarrow>
          lock_acquire lc handle path
            (''Another flextunnel server with this identity ({own_id}) is already running for this user. Only one server per identity is allowed.'',
             [FStr own_id]) w)"

text \<open>The servers of one user: which identities run under which lock handle.\<close>

record lock_system =
  ls_world :: lock_world
  ls_running :: "nat \<Rightarrow> endpoint_id option"

inductive lock_step :: "string option \<Rightarrow> lock_system \<Rightarrow> lock_system \<Rightarrow> bool" for home_dir where
  started: "ls_running s h = None \<Longrightarrow> acquire_server_lock home_dir lc h i (ls_world s) = (Inr h', w) \<Longrightarrow>
    lock_step home_dir s (s\<lparr>ls_world := w, ls_running := (ls_running s)(h \<mapsto> i)\<rparr>)"
| refused: "acquire_server_lock home_dir lc h i (ls_world s) = (Inl e, w) \<Longrightarrow>
    lock_step home_dir s (s\<lparr>ls_world := w\<rparr>)"
| ended: "ls_running s h = Some i \<Longrightarrow> server_lock_path home_dir i = Some p \<Longrightarrow>
    lock_step home_dir s (s\<lparr>ls_world := lock_drop h p (ls_world s), ls_running := (ls_running s)(h := None)\<rparr>)"

definition lock_init :: "lock_system \<Rightarrow> bool" where
  "lock_init s \<longleftrightarrow> (\<forall>p. lock_held (ls_world s) p = None) \<and> (\<forall>h. ls_running s h = None)"

definition lock_inv :: "string option \<Rightarrow> lock_system \<Rightarrow> bool" where
  "lock_inv home_dir s \<longleftrightarrow>
     (\<forall>h i. ls_running s h = Some i \<longrightarrow>
        (\<exists>p. server_lock_path home_dir i = Some p \<and> lock_held (ls_world s) p = Some h))"

lemma lock_acquire_Inr:
  assumes "lock_acquire lc h p m w = (Inr h', w')"
  shows "h' = h \<and> lock_held w p = None \<and> lock_held w' = (lock_held w)(p \<mapsto> h)"
  using assms by (auto simp: lock_acquire_def Let_def split: option.splits if_splits)

lemma lock_acquire_Inl: "lock_acquire lc h p m w = (Inl e, w') \<Longrightarrow> lock_held w' = lock_held w"
  by (auto simp: lock_acquire_def Let_def split: option.splits if_splits)

lemma lock_inv_step:
  assumes "lock_inv home s" and "lock_step home s s'"
  shows "lock_inv home s'"
  using assms(2)
proof cases
  case (started h lc i h' w)
  from started(3) obtain p where p: "server_lock_path home i = Some p" "lock_held (ls_world s) p = None"
    "lock_held w = (lock_held (ls_world s))(p \<mapsto> h)"
    by (auto simp: acquire_server_lock_def split: option.splits dest: lock_acquire_Inr)
  show ?thesis unfolding lock_inv_def
  proof (intro allI impI)
    fix g j
    assume "ls_running s' g = Some j"
    then consider "g = h" "j = i" | "g \<noteq> h" "ls_running s g = Some j"
      unfolding started(1) by (auto split: if_splits)
    then show "\<exists>q. server_lock_path home j = Some q \<and> lock_held (ls_world s') q = Some g"
    proof cases
      case 1
      with p started(1) show ?thesis by simp
    next
      case 2
      with assms(1) obtain q where "server_lock_path home j = Some q" "lock_held (ls_world s) q = Some g"
        unfolding lock_inv_def by blast
      with p started(1) show ?thesis by auto
    qed
  qed
next
  case (refused lc h i e w)
  then have "lock_held w = lock_held (ls_world s)"
    by (auto simp: acquire_server_lock_def split: option.splits dest: lock_acquire_Inl)
  with assms(1) refused(1) show ?thesis by (simp add: lock_inv_def)
next
  case (ended h i p)
  with assms(1) have held: "lock_held (ls_world s) p = Some h" unfolding lock_inv_def by fastforce
  show ?thesis unfolding lock_inv_def
  proof (intro allI impI)
    fix g j
    assume "ls_running s' g = Some j"
    then have g: "g \<noteq> h" "ls_running s g = Some j" unfolding ended(1) by (auto split: if_splits)
    with assms(1) obtain q where q: "server_lock_path home j = Some q" "lock_held (ls_world s) q = Some g"
      unfolding lock_inv_def by blast
    with g held have "q \<noteq> p" by auto
    with q ended(1) held show "\<exists>q. server_lock_path home j = Some q \<and> lock_held (ls_world s') q = Some g"
      by (simp add: lock_drop_def)
  qed
qed

interpretation locks: invariant_system lock_init "lock_step home" "lock_inv home" for home
  by unfold_locales (simp add: lock_init_def lock_inv_def, rule lock_inv_step)

section \<open>Facts about key files\<close>

text \<open>What the key library is assumed to do: decoding is the inverse of encoding, a key is
  rebuilt from its bytes, and encoded bytes are plain text without white space or a hash sign.\<close>

definition key_laws :: "'k key_ops \<Rightarrow> bool" where
  "key_laws ko \<longleftrightarrow>
     (\<forall>bs. base64_decode ko (base64_encode ko bs) = Inr bs \<and> no_white_space (base64_encode ko bs) \<and>
        CHR ''#'' \<notin> set (base64_encode ko bs)) \<and>
     (\<forall>k. key_try_from ko (key_to_bytes ko k) = Inr k \<and> base64_encode ko (key_to_bytes ko k) \<noteq> [])"

lemma split_on_append: "c \<notin> set a \<Longrightarrow> split_on c (a @ c # b) = a # split_on c b"
  by (induction a) auto

lemma str_lines_append: "CHR 0x0A \<notin> set a \<Longrightarrow> str_lines (a @ CHR 0x0A # b) = strip_cr a # str_lines b"
  by (auto simp: str_lines_def split_on_append Let_def)

lemma str_lines_Nil [simp]: "str_lines [] = []"
  by (simp add: str_lines_def)

lemma trim_start_hash: "trim_start (CHR ''#'' # s) = CHR ''#'' # s"
proof -
  have "list_all (\<lambda>w. w \<noteq> [] \<and> hd w \<noteq> CHR ''#'') white_space" by code_simp
  then have "\<not> prefix w (CHR ''#'' # s)" if "w \<in> set white_space" for w
    using that by (cases w) (auto simp: list_all_iff)
  then have "find (\<lambda>w. prefix w (CHR ''#'' # s)) white_space = None" by (simp add: find_None_iff)
  then show ?thesis by (simp add: trim_start.simps [of "CHR ''#'' # s"])
qed

lemma comment_not_secret: "\<not> is_secret_line (trim (strip_cr (CHR ''#'' # s)))"
proof (cases "suffix [CHR 0x0D] (CHR ''#'' # s)")
  case True
  then obtain r where r: "CHR ''#'' # s = r @ [CHR 0x0D]" by (auto simp: suffix_def)
  then obtain r' where r': "r = CHR ''#'' # r'" by (cases r) auto
  have "strip_cr (CHR ''#'' # s) = CHR ''#'' # r'" unfolding r strip_cr_def by (simp only: strip_append option.case r')
  then show ?thesis
    using trim_end_prefix [of "CHR ''#'' # r'"]
    by (cases "trim_end (CHR ''#'' # r')") (simp_all add: is_secret_line_def trim_def trim_start_hash)
next
  case False
  then show ?thesis
    using trim_end_prefix [of "CHR ''#'' # s"]
    by (cases "trim_end (CHR ''#'' # s)")
      (simp_all add: strip_cr_def is_secret_line_def trim_def trim_start_hash)
qed

lemma no_white_space_strip_cr: "no_white_space s \<Longrightarrow> strip_cr s = s"
  by (auto simp: strip_cr_def no_white_space_def suffix_def split: option.splits)

lemma key_file_secret_line:
  assumes "no_white_space b" and "b \<noteq> []" and "CHR ''#'' \<notin> set b"
    and "CHR 0x0A \<notin> set created" and "CHR 0x0A \<notin> set i"
  shows "find is_secret_line (map trim (str_lines (key_file_contents created i b))) = Some b"
proof -
  have nl: "CHR 0x0A \<notin> set b" using assms(1) by (auto simp: no_white_space_def)
  have "str_lines (key_file_contents created i b) =
      [strip_cr (''# created: '' @ created), strip_cr (''# public key: '' @ i), strip_cr b]"
    using str_lines_append [of "''# created: '' @ created"] str_lines_append [of "''# public key: '' @ i"]
      str_lines_append [OF nl, of "[]"] assms(4,5)
    by (simp add: key_file_contents_def)
  moreover have "is_secret_line b" using assms(2,3) by (cases b) (auto simp: is_secret_line_def)
  ultimately show ?thesis
    using assms(1) by (simp add: comment_not_secret no_white_space_strip_cr trim_no_white_space)
qed

section \<open>Properties\<close>

text \<open>C21: A generated key file holds the generated key: what \<^verbatim>\<open>load_secret\<close> reads from the file
  that \<^verbatim>\<open>generate_iroh_key\<close> wrote is the same secret key, so the server gets the endpoint id
  the file's comment names. The file is readable by its owner only, and unless
  overwriting was asked for there was no file before, not even one created between the
  check and the opening.\<close>

theorem generated_key_loads:
  assumes "key_laws ko" and "CHR 0x0A \<notin> set created" and "CHR 0x0A \<notin> set (key_public ko secret)"
    and "path \<noteq> ''-''"
    and "generate_iroh_key ko fs json_secret json_file secret created path force json disk = (Inr out, disk')"
  shows "load_secret ko None disk' path = Inr secret \<and> map_option sf_mode (disk' path) = Some OWNER_RW \<and>
    (force \<or> disk path = None \<and> meanwhile fs disk path = None) \<and>
    (\<forall>q. q \<noteq> path \<longrightarrow> disk' q = meanwhile fs disk q)"
proof -
  let ?b = "base64_encode ko (key_to_bytes ko secret)"
  let ?c = "key_file_contents created (key_public ko secret) ?b"
  from assms(4,5) have w: "write_secret_to_output fs path ?c
      (if json then json_file created (key_public ko secret) path else ''EndpointId: '' @ key_public ko secret)
      force disk = (Inr out, disk')"
    by (simp add: generate_iroh_key_def Let_def secret_to_endpoint_id_def)
  then have f: "disk' = (meanwhile fs disk)(path \<mapsto> \<lparr>sf_mode = OWNER_RW, sf_content = ?c\<rparr>)"
    "force \<or> disk path = None \<and> meanwhile fs disk path = None"
    using assms(4)
    by (auto simp: write_secret_to_output_def open_secret_def Let_def split: if_splits option.splits sum.splits)
  have "no_white_space ?b" "?b \<noteq> []" "CHR ''#'' \<notin> set ?b" "base64_decode ko ?b = Inr (key_to_bytes ko secret)"
    "key_try_from ko (key_to_bytes ko secret) = Inr secret"
    using assms(1) by (simp_all add: key_laws_def)
  with key_file_secret_line [OF this(1-3) assms(2,3)] f show ?thesis
    by (simp add: load_secret_def load_secret_from_string_def)
qed

text \<open>C20: Among the servers of one user, at most one runs with a given identity at any time, in
  whatever order they start, are refused and end.\<close>

theorem one_server_per_identity:
  assumes "lock_init s0" and "(lock_step home)\<^sup>*\<^sup>* s0 s"
    and "ls_running s h = Some i" and "ls_running s h' = Some i"
  shows "h = h'"
proof -
  have inv: "lock_inv home s" by (rule locks.reachable_inv [OF assms(1,2)])
  obtain p where "server_lock_path home i = Some p" "lock_held (ls_world s) p = Some h"
    using inv assms(3) unfolding lock_inv_def by blast
  moreover obtain p' where "server_lock_path home i = Some p'" "lock_held (ls_world s) p' = Some h'"
    using inv assms(4) unfolding lock_inv_def by blast
  ultimately show ?thesis by simp
qed

text \<open>A key that is its own encoding, for the witness.\<close>

definition sample_key_ops :: "unit key_ops" where
  "sample_key_ops = \<lparr>base64_encode = (\<lambda>bs. concat (map (\<lambda>b. replicate (unat b) CHR ''A'' @ ''B'') bs)),
     base64_decode = (\<lambda>s. Inr (map (\<lambda>p. of_nat (length p)) (butlast (split_on CHR ''B'' s)))),
     key_try_from = (\<lambda>_. Inr ()), key_to_bytes = (\<lambda>_. [3]), key_public = (\<lambda>_. ''id'')\<rparr>"

lemma sample_key_decode:
  "butlast (split_on CHR ''B'' (concat (map (\<lambda>b. replicate (unat b) CHR ''A'' @ ''B'') bs))) =
     map (\<lambda>b :: u8. replicate (unat b) CHR ''A'') bs"
  by (induction bs) (simp_all add: split_on_append)

lemma sample_key_laws: "key_laws sample_key_ops"
proof -
  let ?e = "\<lambda>bs :: bytes. concat (map (\<lambda>b. replicate (unat b) CHR ''A'' @ ''B'') bs)"
  have "set (?e bs) \<subseteq> {CHR ''A'', CHR ''B''}" for bs by auto
  then have "no_white_space (?e bs)" "CHR ''#'' \<notin> set (?e bs)" for bs
    by (fastforce simp: no_white_space_def)+
  then show ?thesis by (simp add: key_laws_def sample_key_ops_def sample_key_decode comp_def)
qed

definition sample_calls :: secret_calls where
  "sample_calls = \<lparr>mkdir_fails = None, open_fails = None, chmod_fails = None, write_fails = None,
     partial_write = [], meanwhile = (\<lambda>d. d)\<rparr>"

theorem generated_key_loads_witness:
  "\<exists>out disk'. generate_iroh_key sample_key_ops sample_calls (\<lambda>_ _ _. ''j'') (\<lambda>_ _ _. ''j'') () ''2026''
     ''k'' False False Map.empty = (Inr out, disk') \<and> load_secret sample_key_ops None disk' ''k'' = Inr ()"
proof -
  have "\<exists>out disk'. generate_iroh_key sample_key_ops sample_calls (\<lambda>_ _ _. ''j'') (\<lambda>_ _ _. ''j'') () ''2026''
     ''k'' False False Map.empty = (Inr out, disk')"
    by (simp add: generate_iroh_key_def write_secret_to_output_def open_secret_def Let_def sample_calls_def)
  then obtain out disk' where run: "generate_iroh_key sample_key_ops sample_calls (\<lambda>_ _ _. ''j'') (\<lambda>_ _ _. ''j'') () ''2026''
     ''k'' False False Map.empty = (Inr out, disk')" by blast
  with generated_key_loads [OF sample_key_laws _ _ _ run] show ?thesis
    by (auto simp: sample_key_ops_def)
qed

theorem one_server_per_identity_witness:
  "\<exists>s. (lock_step (Some ''/h''))\<^sup>*\<^sup>* \<lparr>ls_world = \<lparr>lock_held = Map.empty, lock_files = Map.empty\<rparr>, ls_running = Map.empty\<rparr> s \<and>
     ls_running s 1 = Some ''srv'' \<and> ls_running s 2 \<noteq> Some ''srv''"
proof -
  let ?s = "\<lparr>ls_world = \<lparr>lock_held = Map.empty, lock_files = Map.empty\<rparr>, ls_running = Map.empty\<rparr> :: lock_system"
  let ?lc = "\<lparr>lk_mkdir = None, lk_open = None, lk_try_lock = None, lk_recorded = ''7''\<rparr>"
  obtain r w where acq: "acquire_server_lock (Some ''/h'') ?lc 1 ''srv'' (ls_world ?s) = (Inr r, w)"
    by (simp add: acquire_server_lock_def server_lock_path_def lock_acquire_def)
  let ?s1 = "?s\<lparr>ls_world := w, ls_running := (ls_running ?s)(1 \<mapsto> ''srv'')\<rparr>"
  have "lock_step (Some ''/h'') ?s ?s1" by (rule lock_step.started [OF _ acq]) simp
  then have run: "(lock_step (Some ''/h''))\<^sup>*\<^sup>* ?s ?s1" by blast
  have init: "lock_init ?s" by (simp add: lock_init_def)
  have "ls_running ?s1 2 \<noteq> Some ''srv''"
    using one_server_per_identity [OF init run, of 1 "''srv''" 2] by auto
  with run show ?thesis by (intro exI [of _ ?s1]) simp
qed

end
