(* ===== verification/Startup.thy ===== *)
theory Startup
  imports Server_Safety Identity
begin

text \<open>
  Server startup, \<^verbatim>\<open>src/crates/flextunnel-core/src/server.rs\<close>: every check that needs no network,
  and the server it builds. Parsing of endpoint ids, the relay configuration, the resolver
  construction, the JSON reader of the blocklist and the creation of the endpoint are
  parameters. The lemmas give the checks as conditions on the options; the properties say
  that a prepared server is well formed, and that a server that blocked itself does not
  start again.
\<close>

section \<open>Options\<close>

record 'k server_options =
  so_secret_key :: 'k
  so_authorized_keys :: "string list"
  so_quick_client :: "endpoint_id option"
  so_first_client :: "bool option"
  so_relay_urls :: "string list"
  so_relay_auth_token :: "string option"
  so_host_aliases :: "(string \<times> string) list"
  so_routed_domains :: "string list"
  so_routed_cidrs :: "string list"
  so_dns_forwards :: "(string \<times> string list) list"
  so_bridges :: "(string \<times> bridge_config) list"
  so_allowed_bridge_servers :: "string list"
  so_blocklist_file :: string

text \<open>What startup calls: the reader of the blocklist and its JSON form, the parser of endpoint
  ids, the builder of resolvers, and the relay configuration with its custom urls.\<close>

record ('n, 'r, 'k, 'c) startup_env =
  st_net :: "'n net_ops"
  st_keys :: "'k key_ops"
  st_from_str :: "string \<Rightarrow> msg + block_list_data"
  st_read :: "string \<Rightarrow> io_error + string"
  st_parse_id :: "string \<Rightarrow> msg + endpoint_id"
  st_resolver :: "(ip_addr \<times> u16) list \<Rightarrow> msg + 'r"
  st_relay :: "string list \<Rightarrow> string option \<Rightarrow> msg + 'c"
  st_custom_urls :: "'c \<Rightarrow> string list"
  st_nonce :: u128

record ('n, 'r, 'k, 'c) prepared_server =
  ps_own_id :: endpoint_id
  ps_secret_key :: 'k
  ps_server :: "('n, 'r) proxy_server"
  ps_relay_config :: 'c
  ps_allowlists :: endpoint_allowlists

section \<open>The checks\<close>

fun validate_dns_forwards_coverage :: "string list \<Rightarrow> 'n routed_set \<Rightarrow> msg + unit" where
  "validate_dns_forwards_coverage [] rs = Inr ()"
| "validate_dns_forwards_coverage (sfx # rest) rs =
     (if \<not> covers_suffix rs sfx
      then Inl (''[dns_forwards] suffix {suffix:?} is not covered by the routed set, so it would never be used'', [FStr sfx])
      else validate_dns_forwards_coverage rest rs)"

fun parse_allowed :: "(string \<Rightarrow> msg + endpoint_id) \<Rightarrow> string list \<Rightarrow> msg + endpoint_id list" where
  "parse_allowed parse [] = Inr []"
| "parse_allowed parse (raw # rest) =
     result_bind (map_err (wrap (''invalid allowed_bridge_servers entry {raw:?}: {e}'', [FStr raw])) (parse raw)) (\<lambda>i.
     result_bind (parse_allowed parse rest) (\<lambda>js. Inr (List.insert i js)))"

definition prepare_bridge ::
  "'n net_ops \<Rightarrow> (string \<Rightarrow> msg + endpoint_id) \<Rightarrow> endpoint_id \<Rightarrow> 'n routed_set \<Rightarrow> string list \<Rightarrow>
   string \<times> bridge_config \<Rightarrow> msg + 'n bridge_upstream" where
  "prepare_bridge ops parse own routed_set custom_urls = (\<lambda>(name, b).
     result_bind (map_err (wrap (''bridge '{name}' has an invalid endpoint_id {:?}: {e}'', [FStr name, FStr (bc_endpoint_id b)]))
       (parse (bc_endpoint_id b))) (\<lambda>i.
     if i = own then Inl (''bridge '{name}' targets this server itself ({own_id})'', [FStr name, FStr own])
     else
     result_bind (with_context (''bridge '{name}' has invalid route rules'', [FStr name])
       (routed_set_new ops (bc_domains b) (bc_cidrs b))) (\<lambda>bridge_routed_set.
     result_bind (with_context (''bridge '{name}' has a rule the routed set never reaches'', [FStr name])
       (validate_rules_reachable ops routed_set (bc_domains b) (bc_cidrs b))) (\<lambda>_.
     Inr (bridge_upstream_new
       \<lparr>buc_name = name, buc_endpoint_id = i, buc_relay_urls = custom_urls,
        buc_routed_set = bridge_routed_set, buc_domains = bc_domains b, buc_cidrs = bc_cidrs b\<rparr>)))))"

fun prepare_bridges ::
  "'n net_ops \<Rightarrow> (string \<Rightarrow> msg + endpoint_id) \<Rightarrow> endpoint_id \<Rightarrow> 'n routed_set \<Rightarrow> string list \<Rightarrow>
   (string \<times> bridge_config) list \<Rightarrow> 'n bridge_upstream list \<Rightarrow> msg + 'n bridge_upstream list" where
  "prepare_bridges ops parse own rs urls [] acc = Inr acc"
| "prepare_bridges ops parse own rs urls (b # rest) acc =
     result_bind (prepare_bridge ops parse own rs urls b) (\<lambda>u.
       prepare_bridges ops parse own rs urls rest (acc @ [u]))"

definition prepare ::
  "('n, 'r, 'k, 'c) startup_env \<Rightarrow> 'k server_options \<Rightarrow> msg + ('n, 'r, 'k, 'c) prepared_server" where
  "prepare env opts =
     (if so_authorized_keys opts = [] \<and> so_quick_client opts = None
      then Inl (''The server requires at least one authorized client public key.'' @ [CHR 0x0A] @
        ''Each client generates a keypair with: flexaccess-keys generate-auth-key -o <FILE>'' @ [CHR 0x0A] @
        ''Put each key's authorized-key entry (one `ed25519-pub:...` per line, from '' @
        ''`flexaccess-keys show-auth-key --private-key-file <FILE>`) in the server's authorized keys.'', [])
      else
      let own = secret_to_endpoint_id (st_keys env) (so_secret_key opts) in
      result_bind (with_context (''Failed to load blocklist {}'', [FStr (so_blocklist_file opts)])
        (map_err err_msg (load (st_from_str env) (st_read env) (so_blocklist_file opts)))) (\<lambda>blocklist.
      if is_server_conflicted blocklist own
      then Inl (''Refusing to start: server id {own_id} is recorded as a duplicate-id conflict in {}.'' @
        [CHR 0x0A] @ ''Another server was detected sharing this identity. Stop the other server, '' @
        ''then remove the entry from the blocklist to start again.'',
        [FStr own, FStr (so_blocklist_file opts)])
      else
      result_bind (with_context (''Invalid routed-set configuration'', [])
        (routed_set_new (st_net env) (so_routed_domains opts) (so_routed_cidrs opts))) (\<lambda>routed_set.
      result_bind (with_context (''Invalid dns_forwards configuration'', [])
        (dns_forwarder_new (st_resolver env) (so_dns_forwards opts))) (\<lambda>dns_forwarder.
      result_bind
        (case dns_forwarder of
           Some f \<Rightarrow> validate_dns_forwards_coverage (forwarder_suffixes f) routed_set
         | None \<Rightarrow> Inr ()) (\<lambda>_.
      result_bind (parse_allowed (st_parse_id env) (so_allowed_bridge_servers opts)) (\<lambda>allowed.
      if own \<in> set allowed
      then Inl (''allowed_bridge_servers contains this server's own id ({own_id}); a server '' @
        ''cannot bridge to itself '' @ em_dash @ '' this is likely a copy-paste mistake'', [FStr own])
      else
      result_bind (with_context (''Invalid relay configuration'', [])
        (st_relay env (so_relay_urls opts) (so_relay_auth_token opts))) (\<lambda>relay_config.
      result_bind (prepare_bridges (st_net env) (st_parse_id env) own routed_set
        (st_custom_urls env relay_config) (so_bridges opts) []) (\<lambda>upstreams.
      Inr \<lparr>ps_own_id = own, ps_secret_key = so_secret_key opts,
        ps_server = proxy_server_new (st_nonce env)
          \<lparr>psp_own_id = own, psp_authorized_keys = so_authorized_keys opts,
           psp_allowed_bridge_servers = allowed, psp_host_aliases = so_host_aliases opts,
           psp_routed_set = routed_set, psp_routed_domains = so_routed_domains opts,
           psp_routed_cidrs = so_routed_cidrs opts, psp_dns_forwarder = dns_forwarder,
           psp_bridges = upstreams, psp_blocklist = blocklist, psp_first_client = so_first_client opts\<rparr>,
        ps_relay_config = relay_config,
        ps_allowlists = \<lparr>bridge_servers = allowed,
          quick_clients = (case so_quick_client opts of Some i \<Rightarrow> [i] | None \<Rightarrow> [])\<rparr>\<rparr>))))))))"

section \<open>Binding and serving\<close>

record ('e, 'n, 'r, 'c) running_server =
  run_endpoint :: 'e
  run_server :: "('n, 'r) proxy_server"
  run_relay_config :: 'c
  run_relays_left_out :: "string list"

definition bind_server ::
  "('c \<Rightarrow> 'k \<Rightarrow> endpoint_allowlists \<Rightarrow> msg + 'e \<times> string list) \<Rightarrow> ('n, 'r, 'k, 'c) prepared_server \<Rightarrow>
   msg + ('e, 'n, 'r, 'c) running_server" where
  "bind_server create_server_endpoint p =
     result_bind (with_context (''Failed to create iroh endpoint'', [])
       (create_server_endpoint (ps_relay_config p) (ps_secret_key p) (ps_allowlists p))) (\<lambda>(e, left_out).
     Inr \<lparr>run_endpoint = e, run_server = ps_server p, run_relay_config = ps_relay_config p,
       run_relays_left_out = left_out\<rparr>)"

section \<open>Facts about the checks\<close>

lemma validate_dns_forwards_coverage_Inr_iff:
  "validate_dns_forwards_coverage sfxs rs = Inr () \<longleftrightarrow> list_all (covers_suffix rs) sfxs"
  by (induction sfxs) auto

lemma parse_allowed_Inr:
  "parse_allowed parse raws = Inr is \<Longrightarrow>
     distinct is \<and> (\<forall>i. i \<in> set is \<longleftrightarrow> (\<exists>raw \<in> set raws. parse raw = Inr i))"
  by (induction raws arbitrary: "is") (fastforce simp: result_bind_Inr_iff)+

lemma prepare_bridge_Inr:
  assumes "prepare_bridge ops parse own rs urls (name, b) = Inr u"
  shows "bu_conn u = None \<and> bridge_name u = name \<and> buc_endpoint_id (bu_config u) \<noteq> own \<and>
    parse (bc_endpoint_id b) = Inr (buc_endpoint_id (bu_config u)) \<and>
    routed_set_new ops (bc_domains b) (bc_cidrs b) = Inr (buc_routed_set (bu_config u)) \<and>
    validate_rules_reachable ops rs (bc_domains b) (bc_cidrs b) = Inr ()"
  using assms
  by (auto simp: prepare_bridge_def result_bind_Inr_iff bridge_upstream_new_def bridge_name_def split: if_splits)

lemma prepare_bridges_Inr_iff:
  "prepare_bridges ops parse own rs urls bs acc = Inr us \<longleftrightarrow>
     (\<exists>new. map (prepare_bridge ops parse own rs urls) bs = map Inr new \<and> us = acc @ new)"
proof (induction bs arbitrary: acc)
  case (Cons b bs)
  show ?case
  proof (cases "prepare_bridge ops parse own rs urls b")
    case (Inr u)
    with Cons show ?thesis
      by (auto simp: Cons_eq_map_conv)
  qed auto
qed auto

lemma prepare_bridges_mem:
  assumes "prepare_bridges ops parse own rs urls bs [] = Inr us" and "u \<in> set us"
  obtains name b where "(name, b) \<in> set bs" and "prepare_bridge ops parse own rs urls (name, b) = Inr u"
proof -
  from assms have "map (prepare_bridge ops parse own rs urls) bs = map Inr us"
    by (simp add: prepare_bridges_Inr_iff)
  then have "Inr u \<in> prepare_bridge ops parse own rs urls ` set bs"
    using assms(2) by (metis image_eqI list.set_map)
  with that show thesis by (metis imageE prod.collapse)
qed

text \<open>A server that startup may build.\<close>

definition wf_prepared :: "'n net_ops \<Rightarrow> ('n, 'r, 'k, 'c) prepared_server \<Rightarrow> bool" where
  "wf_prepared ops p \<longleftrightarrow>
     (let srv = ps_server p in
      own_id srv = ps_own_id p \<and>
      \<not> is_server_conflicted (srv_blocklist srv) (own_id srv) \<and>
      own_id srv \<notin> set (allowed_bridge_servers srv) \<and> distinct (allowed_bridge_servers srv) \<and>
      list_all (\<lambda>b. buc_endpoint_id (bu_config b) \<noteq> own_id srv \<and> \<not> bridge_is_connected b) (srv_bridges srv) \<and>
      sorted (map bridge_name (srv_bridges srv)) \<and>
      routed_set_new ops (srv_routed_domains srv) (srv_routed_cidrs srv) = Inr (srv_routed_set srv) \<and>
      (case srv_dns_forwarder srv of
         Some f \<Rightarrow> list_all (covers_suffix (srv_routed_set srv)) (forwarder_suffixes f) | None \<Rightarrow> True) \<and>
      srv_registry srv = [] \<and> srv_bridge_registry srv = [] \<and> \<not> shutdown_notified srv)"

section \<open>Properties\<close>

text \<open>C18: A server that passes the checks is well formed: it is not recorded as conflicted, it
  neither bridges to itself nor lets itself bridge in, its bridges are ordered by name and
  not yet connected, its routed set is the one of the configured rules and covers every
  forwarded DNS suffix, and nobody is registered. The TLS hook of its endpoint admits over
  the bridge protocol exactly the configured servers and over the quick protocol exactly
  the one entered client, and someone can authenticate: there is a key or a quick client.\<close>

theorem prepared_server_well_formed:
  assumes "prepare env opts = Inr p"
  shows "wf_prepared (st_net env) p \<and>
    (after_handshake (ps_allowlists p) ServerSide BRIDGE_ALPN i = HAccept \<longleftrightarrow>
       (\<exists>raw \<in> set (so_allowed_bridge_servers opts). st_parse_id env raw = Inr i)) \<and>
    (after_handshake (ps_allowlists p) ServerSide QUICK_ALPN i = HAccept \<longleftrightarrow> so_quick_client opts = Some i) \<and>
    (authorized_keys (ps_server p) \<noteq> [] \<or> quick_clients (ps_allowlists p) \<noteq> [])"
proof -
  let ?own = "secret_to_endpoint_id (st_keys env) (so_secret_key opts)"
  from assms obtain bl rs df al rc us where
    keys: "\<not> (so_authorized_keys opts = [] \<and> so_quick_client opts = None)"
    and bl: "\<not> is_server_conflicted bl ?own"
    and rs: "routed_set_new (st_net env) (so_routed_domains opts) (so_routed_cidrs opts) = Inr rs"
    and df: "(case df of Some f \<Rightarrow> validate_dns_forwards_coverage (forwarder_suffixes f) rs | None \<Rightarrow> Inr ()) = Inr ()"
    and al: "parse_allowed (st_parse_id env) (so_allowed_bridge_servers opts) = Inr al" "?own \<notin> set al"
    and us: "prepare_bridges (st_net env) (st_parse_id env) ?own rs (st_custom_urls env rc) (so_bridges opts) [] = Inr us"
    and p: "p = \<lparr>ps_own_id = ?own, ps_secret_key = so_secret_key opts,
        ps_server = proxy_server_new (st_nonce env)
          \<lparr>psp_own_id = ?own, psp_authorized_keys = so_authorized_keys opts,
           psp_allowed_bridge_servers = al, psp_host_aliases = so_host_aliases opts,
           psp_routed_set = rs, psp_routed_domains = so_routed_domains opts,
           psp_routed_cidrs = so_routed_cidrs opts, psp_dns_forwarder = df,
           psp_bridges = us, psp_blocklist = bl, psp_first_client = so_first_client opts\<rparr>,
        ps_relay_config = rc,
        ps_allowlists = \<lparr>bridge_servers = al,
          quick_clients = (case so_quick_client opts of Some i \<Rightarrow> [i] | None \<Rightarrow> [])\<rparr>\<rparr>"
    by (auto simp: prepare_def Let_def result_bind_Inr_iff split: if_splits)
  have "buc_endpoint_id (bu_config u) \<noteq> ?own \<and> \<not> bridge_is_connected u" if "u \<in> set us" for u
    using prepare_bridges_mem [OF us that] prepare_bridge_Inr
    by (metis bridge_is_connected_def)
  moreover have "case df of Some f \<Rightarrow> list_all (covers_suffix rs) (forwarder_suffixes f) | None \<Rightarrow> True"
    using df by (auto simp: validate_dns_forwards_coverage_Inr_iff split: option.splits)
  ultimately have "wf_prepared (st_net env) p"
    using bl rs al parse_allowed_Inr [OF al(1)]
    by (cases df) (simp_all add: p wf_prepared_def Let_def proxy_server_new_def list_all_iff)
  moreover have "BRIDGE_ALPN \<noteq> QUICK_ALPN" by (simp add: BRIDGE_ALPN_def QUICK_ALPN_def)
  ultimately show ?thesis
    using keys parse_allowed_Inr [OF al(1)]
    by (auto simp: p after_handshake_def Let_def proxy_server_new_def split: option.splits)
qed

section \<open>A server that blocked itself\<close>

lemma self_block_persists:
  assumes "\<forall>d t. he_blocklist env d = Inr t \<longrightarrow> from_str t = Inr d"
    and "he_blocklist env (bl_data (srv_blocklist (w_server (self_block env r w)))) = Inr json"
    and "create_dir_all (he_fs env) = None" and "fs_write (he_fs env) = None" and "fs_rename (he_fs env) = None"
    and "\<not> is_server_conflicted (srv_blocklist (w_server w)) (own_id (w_server w))"
    and "\<And>q. read_file q = (case w_disk (self_block env r w) q of Some c \<Rightarrow> Inr c | None \<Rightarrow> Inl (IoError NotFound ([], [])))"
  shows "\<exists>bl. load from_str read_file (bl_path (srv_blocklist (w_server w))) = Inr bl \<and>
    is_server_conflicted bl (own_id (w_server w))"
proof -
  let ?b = "srv_blocklist (w_server w)" and ?i = "own_id (w_server w)"
  obtain bl where add: "add_conflicted_server (he_now_ms env) ?b ?i r = (True, bl)"
    and bl: "bl_path bl = bl_path ?b" "is_server_conflicted bl ?i"
    using assms(6) by (auto simp: add_conflicted_server_def is_server_conflicted_def split: if_splits)
  from assms(2) add have json: "he_blocklist env (bl_data bl) = Inr json" by (simp add: self_block_server)
  have "w_disk (self_block env r w) (bl_path ?b) = Some json"
    using assms(3-5) json bl(1)
    by (simp add: self_block_def add persist_blocklist_def to_json_def write_atomic_def Let_def)
  moreover have "from_str json = Inr (bl_data bl)" using assms(1) json by blast
  ultimately have "load from_str read_file (bl_path ?b) = Inr \<lparr>bl_path = bl_path ?b, bl_data = bl_data bl\<rparr>"
    using assms(7) by (simp add: load_def)
  with bl(2) show ?thesis by (simp add: is_server_conflicted_def)
qed

lemma handle_connection_dup_server:
  assumes "inc_accept inc = Inr c" and "inc_alpn inc \<noteq> BRIDGE_ALPN"
    and "read_handshake inc s = (Inr data, s1)" and "decode_hello (he_hello env) data = Inr h"
    and "auth_ok env (w_server w) inc h" and "\<not> srv_is_client_blocked (w_server w) (inc_remote_id inc)"
    and "duplicate_server_observed h"
    and "handle_connection env inc w s = (out, w', s')"
  shows "\<exists>r. w_disk w' = w_disk (self_block env r w) \<and> w_server w' = w_server (self_block env r w)"
proof -
  have "admit_client env inc c h w s1 = (None, w, s1)" using assms(5,6) by (simp add: admit_client_None_iff)
  with assms(1-4,8) have "enter_client env inc c h w s1 = (out, w', s')" by (simp add: handle_connection_def)
  with assms(7) show ?thesis
    by (auto simp: enter_client_def Let_def dest!: reject_best_effort_server)
qed

text \<open>C19: The duplicate-server guard works across a restart. When a client that authenticates
  reports that two servers share this identity, the server stops and the report is on disk,
  and a later start with the same key and blocklist file is refused, whatever else the
  options are. (The JSON library writes the new list and reads back what it wrote, and the
  file system's calls succeed.)\<close>

theorem self_blocked_server_stays_down:
  assumes "inc_accept inc = Inr c" and "inc_alpn inc \<noteq> BRIDGE_ALPN"
    and "read_handshake inc s = (Inr data, s1)" and "decode_hello (he_hello env) data = Inr h"
    and "auth_ok env (w_server w) inc h" and "\<not> srv_is_client_blocked (w_server w) (inc_remote_id inc)"
    and "duplicate_server_observed h"
    and "handle_connection env inc w s = (out, w', s')"
    and "\<forall>d t. he_blocklist env d = Inr t \<longrightarrow> st_from_str env' t = Inr d"
    and "he_blocklist env (bl_data (srv_blocklist (w_server w'))) = Inr json"
    and "create_dir_all (he_fs env) = None" and "fs_write (he_fs env) = None" and "fs_rename (he_fs env) = None"
    and "\<not> is_server_conflicted (srv_blocklist (w_server w)) (own_id (w_server w))"
    and "\<And>q. st_read env' q = (case w_disk w' q of Some t \<Rightarrow> Inr t | None \<Rightarrow> Inl (IoError NotFound ([], [])))"
    and "so_blocklist_file opts = bl_path (srv_blocklist (w_server w))"
    and "secret_to_endpoint_id (st_keys env') (so_secret_key opts) = own_id (w_server w)"
  shows "shutdown_notified (w_server w') \<and> (\<exists>e. prepare env' opts = Inl e)"
proof -
  from handle_connection_dup_server [OF assms(1-8)] obtain r where
    d: "w_disk w' = w_disk (self_block env r w)" "w_server w' = w_server (self_block env r w)" by blast
  from self_block_persists [OF assms(9) assms(10) [unfolded d(2)] assms(11-14), of "st_read env'"] assms(15) d(1) obtain bl where
    bl: "load (st_from_str env') (st_read env') (so_blocklist_file opts) = Inr bl"
      "is_server_conflicted bl (own_id (w_server w))"
    using assms(16) by auto
  then show ?thesis using d(2) assms(17) by (simp add: prepare_def Let_def self_block_server)
qed

section \<open>Witnesses\<close>

definition sample_options :: "unit server_options" where
  "sample_options = \<lparr>so_secret_key = (), so_authorized_keys = [''K''], so_quick_client = None,
     so_first_client = None, so_relay_urls = [], so_relay_auth_token = None, so_host_aliases = [],
     so_routed_domains = [''*''], so_routed_cidrs = [], so_dns_forwards = [],
     so_bridges = [(''up'', \<lparr>bc_endpoint_id = ''b'', bc_domains = [''x''], bc_cidrs = []\<rparr>)],
     so_allowed_bridge_servers = [''c''], so_blocklist_file = ''p''\<rparr>"

definition sample_startup :: "(string \<Rightarrow> io_error + string) \<Rightarrow> (nat, unit, unit, unit) startup_env" where
  "sample_startup rd = \<lparr>st_net = no_nets, st_keys = sample_key_ops\<lparr>key_public := (\<lambda>_. ''me'')\<rparr>,
     st_from_str = (\<lambda>_. Inr block_list_data_default),
     st_read = rd, st_parse_id = Inr, st_resolver = (\<lambda>_. Inr ()), st_relay = (\<lambda>_ _. Inr ()),
     st_custom_urls = (\<lambda>_. []), st_nonce = 1\<rparr>"

lemma sample_prepares:
  "\<exists>p. prepare (sample_startup (\<lambda>_. Inl (IoError NotFound ([], [])))) sample_options = Inr p"
proof -
  have rs: "routed_set_new no_nets [''*''] [] = Inr all_names" by code_simp
  have b: "\<exists>r. routed_set_new no_nets [''x''] [] = Inr r" by (rule exI, code_simp)
  have v: "validate_rules_reachable no_nets all_names [''x''] [] = Inr ()" by code_simp
  from b obtain r where r: "routed_set_new no_nets [''x''] [] = Inr r" ..
  show ?thesis
    by (simp add: prepare_def sample_options_def sample_startup_def load_def block_list_data_default_def
        is_server_conflicted_def secret_to_endpoint_id_def rs dns_forwarder_new_def Let_def prepare_bridge_def r v)
qed

theorem prepared_server_well_formed_witness:
  "\<exists>p. prepare (sample_startup (\<lambda>_. Inl (IoError NotFound ([], [])))) sample_options = Inr p \<and>
     wf_prepared no_nets p \<and> after_handshake (ps_allowlists p) ServerSide BRIDGE_ALPN ''c'' = HAccept"
proof -
  obtain p where p: "prepare (sample_startup (\<lambda>_. Inl (IoError NotFound ([], [])))) sample_options = Inr p"
    using sample_prepares ..
  from prepared_server_well_formed [OF p, of "''c''"] p show ?thesis
    by (auto simp: sample_startup_def sample_options_def)
qed

definition dup_hello :: hello where
  "dup_hello = sample_hello\<lparr>duplicate_server_observed := True\<rparr>"

definition dup_list :: block_list_data where
  "dup_list = \<lparr>blocked_clients = [], conflicted_server_ids = [\<lparr>be_id = ''me'',
     be_reason = (''client {remote_id} reported a duplicate-server pattern'', [FStr ''peer'']), detected_at_ms = 60\<rparr>]\<rparr>"

definition dup_env :: handler_env where
  "dup_env = sample_env\<lparr>he_hello := (\<lambda>_. Inr dup_hello),
     he_blocklist := (\<lambda>d. if d = dup_list then Inr ''{}'' else Inl ([], []))\<rparr>"

theorem self_blocked_server_stays_down_witness:
  "\<exists>out w' s'. handle_connection dup_env (sample_incoming ''peer'') sample_world sample_stream = (out, w', s') \<and>
     (\<exists>e. prepare ((sample_startup (\<lambda>q. case w_disk w' q of Some t \<Rightarrow> Inr t | None \<Rightarrow> Inl (IoError NotFound ([], []))))
        \<lparr>st_from_str := (\<lambda>t. if t = ''{}'' then Inr dup_list else Inl ([], []))\<rparr>) sample_options = Inl e)"
proof -
  let ?inc = "sample_incoming ''peer''"
  have dec: "decode_hello (he_hello dup_env) [] = Inr dup_hello"
    by (simp add: decode_hello_def json_result_def dup_env_def dup_hello_def sample_hello_def hello_new_def)
  have ok: "auth_ok dup_env (w_server sample_world) ?inc dup_hello"
    "\<not> srv_is_client_blocked (w_server sample_world) (inc_remote_id ?inc)" "duplicate_server_observed dup_hello"
    by (simp_all add: auth_ok_def verify_client_auth_iff dup_env_def dup_hello_def srv_is_client_blocked_def
        is_client_blocked_def sample_defs hello_new_def proxy_server_new_def block_list_data_default_def)
  obtain out w' s' where run: "handle_connection dup_env ?inc sample_world sample_stream = (out, w', s')"
    using prod_cases3 by blast
  have adm: "admit_client dup_env ?inc 5 dup_hello sample_world (sample_stream\<lparr>rx := []\<rparr>) =
      (None, sample_world, sample_stream\<lparr>rx := []\<rparr>)"
    using ok by (simp add: admit_client_None_iff)
  have "bl_data (srv_blocklist (w_server w')) = dup_list"
    using run ok(3)
    by (simp add: handle_connection_def sample_read dec adm enter_client_def)
      (auto dest!: reject_best_effort_server simp: self_block_server dup_list_def add_conflicted_server_def
        is_server_conflicted_def sample_defs dup_env_def proxy_server_new_def block_list_data_default_def)
  then have ser: "he_blocklist dup_env (bl_data (srv_blocklist (w_server w'))) = Inr ''{}''" by (simp add: dup_env_def)
  let ?env = "(sample_startup (\<lambda>q. case w_disk w' q of Some t \<Rightarrow> Inr t | None \<Rightarrow> Inl (IoError NotFound ([], []))))
    \<lparr>st_from_str := (\<lambda>t. if t = ''{}'' then Inr dup_list else Inl ([], []))\<rparr>"
  have "\<exists>e. prepare ?env sample_options = Inl e"
  proof (rule conjunct2 [OF self_blocked_server_stays_down [OF _ _ sample_read dec ok run _ ser]])
    show "\<forall>d t. he_blocklist dup_env d = Inr t \<longrightarrow> st_from_str ?env t = Inr d" by (auto simp: dup_env_def)
  qed (simp_all add: dup_env_def sample_defs sample_startup_def sample_options_def secret_to_endpoint_id_def
      is_server_conflicted_def proxy_server_new_def block_list_data_default_def)
  with run show ?thesis by blast
qed

end
