(* ===== verification/Listener.thy ===== *)
theory Listener
  imports Transport
begin

text \<open>
  The local listeners' accept loop, \<^verbatim>\<open>src/crates/flextunnel-core/src/proxy/client.rs\<close>: how a
  failed accept is classified, when a listener is taken for dead and bound again, the limit
  on concurrent connections, and closing on request. The socket calls are the steps of the
  environment. The lemmas give the decision to rebind as a condition on the sequence of
  accept results, and the limit as an invariant of a pool of permits that the other loops of
  the program use as well.
\<close>

section \<open>Pools of permits\<close>

text \<open>A semaphore and the tasks that hold its permits: what every loop that limits its tasks
  promises about its steps.\<close>

locale permit_pool =
  fixes init :: "'s \<Rightarrow> bool" and step :: "'s \<Rightarrow> 's \<Rightarrow> bool" and permits holders :: "'s \<Rightarrow> nat"
    and cap :: nat
  assumes init_pool: "init s \<Longrightarrow> permits s + holders s = cap"
    and step_pool: "step s s' \<Longrightarrow> permits s' + holders s' = permits s + holders s"

sublocale permit_pool \<subseteq> pool: invariant_system init step "\<lambda>s. permits s + holders s = cap"
  by unfold_locales (simp_all add: init_pool step_pool)

context permit_pool
begin

lemma bounded: "init s \<Longrightarrow> step\<^sup>*\<^sup>* s s' \<Longrightarrow> holders s' \<le> cap"
  using pool.reachable_inv [of s s'] by simp

lemma free_iff: "init s \<Longrightarrow> step\<^sup>*\<^sup>* s s' \<Longrightarrow> permits s' = 0 \<longleftrightarrow> holders s' = cap"
  using pool.reachable_inv [of s s'] by linarith

end

section \<open>Accept failures\<close>

definition ACCEPT_RETRY_DELAY :: duration where "ACCEPT_RETRY_DELAY = from_millis 250"

definition REBIND_AFTER_CONSECUTIVE_ABORTS :: u64 where "REBIND_AFTER_CONSECUTIVE_ABORTS = 4"

definition MAX_ACTIVE_LOCAL_CONNS :: nat where "MAX_ACTIVE_LOCAL_CONNS = 256"

datatype accept_failure = ResourcePressure | Aborted | Broken

text \<open>The error of an accept: the code of the operating system, if any, and the kind. On Unix
  \<^verbatim>\<open>EMFILE\<close> is 24 and \<^verbatim>\<open>ENFILE\<close> is 23.\<close>

type_synonym accept_error = "int option \<times> io_error"

definition classify_accept_error :: "accept_error \<Rightarrow> accept_failure" where
  "classify_accept_error = (\<lambda>(raw_os_error, e).
     if raw_os_error = Some 24 \<or> raw_os_error = Some 23 then ResourcePressure
     else case err_kind e of
       ConnectionAborted \<Rightarrow> Aborted
     | ConnectionReset \<Rightarrow> Aborted
     | Interrupted \<Rightarrow> Aborted
     | _ \<Rightarrow> Broken)"

datatype accept_outcome = Rebind | Retry

record accept_retry =
  consecutive_failures :: u64
  consecutive_aborts :: u64

definition accept_retry_new :: accept_retry where
  "accept_retry_new = \<lparr>consecutive_failures = 0, consecutive_aborts = 0\<rparr>"

definition record_success :: "accept_retry \<Rightarrow> accept_retry" where
  "record_success r =
     (let r = (if 0 < consecutive_failures r then r\<lparr>consecutive_failures := 0\<rparr> else r) in
      r\<lparr>consecutive_aborts := 0\<rparr>)"

definition record_error :: "accept_error \<Rightarrow> accept_retry \<Rightarrow> accept_outcome \<times> accept_retry" where
  "record_error e r =
     (let failure = classify_accept_error e;
          r = r\<lparr>consecutive_aborts := (case failure of Aborted \<Rightarrow> consecutive_aborts r + 1 | _ \<Rightarrow> 0)\<rparr> in
      if failure = Broken \<or> REBIND_AFTER_CONSECUTIVE_ABORTS \<le> consecutive_aborts r
      then (Rebind, r) else (Retry, r))"

definition record_rebind :: "accept_retry \<Rightarrow> accept_retry" where
  "record_rebind r = r\<lparr>consecutive_failures := 0, consecutive_aborts := 0\<rparr>"

definition wait_retry :: "accept_retry \<Rightarrow> accept_retry" where
  "wait_retry r = r\<lparr>consecutive_failures := consecutive_failures r + 1\<rparr>"

text \<open>The rebinding of a TCP listener and of a Unix socket: one retry.\<close>

definition rebind_listener :: "(nat \<Rightarrow> io_error + 'l) \<Rightarrow> 'l proxy_result" where
  "rebind_listener bind_try =
     (case bind_try 0 of
        Inr listener \<Rightarrow> Inr listener
      | Inl _ \<Rightarrow> map_err Network (bind_try 1))"

section \<open>The decision to rebind\<close>

text \<open>The results of successive accepts, and the state after them: a rebind resets the
  counters.\<close>

datatype accept_result = AcceptOk | AcceptErr accept_error

fun retry_after :: "accept_result list \<Rightarrow> accept_retry" where
  "retry_after [] = accept_retry_new"
| "retry_after (AcceptOk # evs) = record_success (retry_after evs)"
| "retry_after (AcceptErr e # evs) =
     (case record_error e (retry_after evs) of
        (Rebind, r) \<Rightarrow> record_rebind r
      | (Retry, r) \<Rightarrow> wait_retry r)"

text \<open>The number of aborted accepts up to the last result that was something else. The most
  recent result comes first.\<close>

definition is_abort :: "accept_result \<Rightarrow> bool" where
  "is_abort ev = (case ev of AcceptErr e \<Rightarrow> classify_accept_error e = Aborted | AcceptOk \<Rightarrow> False)"

definition abort_run :: "accept_result list \<Rightarrow> nat" where
  "abort_run evs = length (takeWhile is_abort evs)"

lemma abort_run_simps [simp]:
  "abort_run [] = 0" "abort_run (ev # evs) = (if is_abort ev then Suc (abort_run evs) else 0)"
  by (simp_all add: abort_run_def)

lemma consecutive_aborts_record [simp]:
  "consecutive_aborts (record_success r) = 0" "consecutive_aborts (record_rebind r) = 0"
  "consecutive_aborts (wait_retry r) = consecutive_aborts r"
  by (simp_all add: record_success_def record_rebind_def wait_retry_def Let_def)

lemma consecutive_aborts_bound:
  "unat (consecutive_aborts (retry_after evs)) = abort_run evs mod 4"
proof (induction evs rule: retry_after.induct)
  case (3 e evs)
  let ?r = "retry_after evs"
  have lt: "unat (consecutive_aborts ?r) < 4" using 3 by simp
  then have suc: "unat (consecutive_aborts ?r + 1) = unat (consecutive_aborts ?r) + 1"
    by (simp add: unat_word_ariths)
  show ?case
  proof (cases "classify_accept_error e = Aborted")
    case True
    have "(4 :: u64) \<le> consecutive_aborts ?r + 1 \<longleftrightarrow> unat (consecutive_aborts ?r) = 3"
      using lt suc by (auto simp: word_le_nat_alt)
    then show ?thesis
      using True 3 suc lt
      by (auto simp: record_error_def Let_def is_abort_def REBIND_AFTER_CONSECUTIVE_ABORTS_def mod_Suc)
  next
    case False
    then show ?thesis
      by (cases "classify_accept_error e")
        (auto simp: record_error_def Let_def is_abort_def REBIND_AFTER_CONSECUTIVE_ABORTS_def word_le_nat_alt)
  qed
qed (simp_all add: accept_retry_new_def is_abort_def)

text \<open>C22: A listener is bound again exactly when it is dead: after an error that shows the socket
  itself broken, or when the run of consecutive aborted accepts reaches four, and again
  after four more. One to three aborts in a row, with a successful accept or a shortage
  of file descriptors in between, never rebind it; a shortage alone never does.\<close>

theorem rebind_iff_listener_dead:
  "fst (record_error e (retry_after evs)) = Rebind \<longleftrightarrow>
     classify_accept_error e = Broken \<or>
     (classify_accept_error e = Aborted \<and> 4 dvd abort_run (AcceptErr e # evs))"
proof -
  let ?r = "retry_after evs"
  have lt: "unat (consecutive_aborts ?r) < 4" and eq: "unat (consecutive_aborts ?r) = abort_run evs mod 4"
    by (simp_all add: consecutive_aborts_bound)
  have suc: "unat (consecutive_aborts ?r + 1) = unat (consecutive_aborts ?r) + 1"
    using lt by (simp add: unat_word_ariths)
  have "(4 :: u64) \<le> consecutive_aborts ?r + 1 \<longleftrightarrow> 4 dvd Suc (abort_run evs)"
    using lt suc eq by (auto simp: word_le_nat_alt dvd_eq_mod_eq_0 mod_Suc)
  then show ?thesis
    by (cases "classify_accept_error e")
      (auto simp: record_error_def Let_def is_abort_def REBIND_AFTER_CONSECUTIVE_ABORTS_def word_le_nat_alt)
qed

section \<open>The accept loop\<close>

datatype accept_pc = AAccept | ASleep | APermit | ARebind nat | AParked | AFailed proxy_error

record accept_state =
  al_pc :: accept_pc
  al_retry :: accept_retry
  al_permits :: nat
  al_active :: nat
  al_listening :: bool
  al_close :: bool

definition accept_start :: "io_error + unit \<Rightarrow> accept_state" where
  "accept_start local_addr =
     \<lparr>al_pc = (case local_addr of Inl e \<Rightarrow> AFailed (Network e) | Inr _ \<Rightarrow> AAccept),
      al_retry = accept_retry_new, al_permits = MAX_ACTIVE_LOCAL_CONNS, al_active = 0,
      al_listening = (case local_addr of Inl _ \<Rightarrow> False | Inr _ \<Rightarrow> True), al_close = False\<rparr>"

text \<open>The loop and the tasks it spawned. A Unix listener without a path, \<open>\<not> can_rebind\<close>, ends
  with the error instead of rebinding; a TCP listener can always be bound again.\<close>

inductive accept_step :: "bool \<Rightarrow> accept_state \<Rightarrow> accept_state \<Rightarrow> bool" for can_rebind where
  accepted: "al_pc s = AAccept \<Longrightarrow>
    accept_step can_rebind s (s\<lparr>al_retry := record_success (al_retry s), al_pc := APermit\<rparr>)"
| retry: "al_pc s = AAccept \<Longrightarrow> record_error e (al_retry s) = (Retry, r) \<Longrightarrow>
    accept_step can_rebind s (s\<lparr>al_retry := wait_retry r, al_pc := ASleep\<rparr>)"
| slept: "al_pc s = ASleep \<Longrightarrow> accept_step can_rebind s (s\<lparr>al_pc := AAccept\<rparr>)"
| dead: "al_pc s = AAccept \<Longrightarrow> record_error e (al_retry s) = (Rebind, r) \<Longrightarrow> can_rebind \<Longrightarrow>
    accept_step can_rebind s (s\<lparr>al_retry := r, al_listening := False, al_pc := ARebind 0\<rparr>)"
| dead_unnamed: "al_pc s = AAccept \<Longrightarrow> record_error (raw, e) (al_retry s) = (Rebind, r) \<Longrightarrow> \<not> can_rebind \<Longrightarrow>
    accept_step can_rebind s (s\<lparr>al_retry := r, al_listening := False, al_pc := AFailed (Network e)\<rparr>)"
| rebound: "al_pc s = ARebind k \<Longrightarrow>
    accept_step can_rebind s (s\<lparr>al_retry := record_rebind (al_retry s), al_listening := True, al_pc := AAccept\<rparr>)"
| rebind_again: "al_pc s = ARebind 0 \<Longrightarrow> accept_step can_rebind s (s\<lparr>al_pc := ARebind 1\<rparr>)"
| rebind_failed: "al_pc s = ARebind 1 \<Longrightarrow> accept_step can_rebind s (s\<lparr>al_pc := AFailed (Network e)\<rparr>)"
| permitted: "al_pc s = APermit \<Longrightarrow> al_permits s = Suc n \<Longrightarrow>
    accept_step can_rebind s (s\<lparr>al_permits := n, al_active := Suc (al_active s), al_pc := AAccept\<rparr>)"
| closes: "al_pc s = AAccept \<or> al_pc s = APermit \<Longrightarrow> al_close s \<Longrightarrow>
    accept_step can_rebind s (s\<lparr>al_listening := False, al_pc := AParked\<rparr>)"
| close_requested: "accept_step can_rebind s (s\<lparr>al_close := True\<rparr>)"
| conn_ended: "al_active s = Suc n \<Longrightarrow>
    accept_step can_rebind s (s\<lparr>al_permits := Suc (al_permits s), al_active := n\<rparr>)"

inductive_cases accept_stepE: "accept_step can_rebind s s'"

interpretation local_conns: permit_pool "\<lambda>s. \<exists>a. s = accept_start a" "accept_step can_rebind"
  al_permits al_active MAX_ACTIVE_LOCAL_CONNS for can_rebind
  by unfold_locales (auto simp: accept_start_def elim!: accept_stepE)

definition accept_inv :: "accept_state \<Rightarrow> bool" where
  "accept_inv s \<longleftrightarrow>
     (al_listening s \<longleftrightarrow> al_pc s \<in> {AAccept, ASleep, APermit}) \<and> (al_pc s = AParked \<longrightarrow> al_close s)"

interpretation accept_loops: invariant_system "\<lambda>s. \<exists>a. s = accept_start a" "accept_step can_rebind" accept_inv
  for can_rebind
  by unfold_locales
    (auto simp: accept_start_def accept_inv_def split: sum.splits elim!: accept_stepE)

lemma parked_step:
  "accept_step can_rebind s s' \<Longrightarrow> al_pc s = AParked \<Longrightarrow> al_pc s' = AParked \<and> al_active s' \<le> al_active s"
  by (auto elim!: accept_stepE)

lemma parked_steps:
  assumes "(accept_step can_rebind)\<^sup>*\<^sup>* s s'" and "al_pc s = AParked"
  shows "al_pc s' = AParked \<and> al_active s' \<le> al_active s"
  using assms(1)
proof (induction rule: rtranclp_induct)
  case (step y z)
  then show ?case using parked_step [of can_rebind y z] by auto
qed (simp add: assms(2))

text \<open>However accepts, failures, rebinds and ends of connections interleave, a front-end
  never serves more than its limit of connections, and it waits for a permit only when it
  serves exactly that many. It has its socket open exactly while it accepts; once closed on
  request it never accepts again, and the connections it serves are left to finish.\<close>

theorem accept_loop_bounded:
  assumes "(accept_step can_rebind)\<^sup>*\<^sup>* (accept_start a) s"
  shows "al_active s \<le> MAX_ACTIVE_LOCAL_CONNS \<and>
    (al_permits s = 0 \<longleftrightarrow> al_active s = MAX_ACTIVE_LOCAL_CONNS) \<and>
    (al_listening s \<longleftrightarrow> al_pc s \<in> {AAccept, ASleep, APermit}) \<and>
    (al_pc s = AParked \<longrightarrow> al_close s \<and>
      (\<forall>s'. (accept_step can_rebind)\<^sup>*\<^sup>* s s' \<longrightarrow> al_pc s' = AParked \<and> \<not> al_listening s' \<and> al_active s' \<le> al_active s))"
proof -
  have inv: "accept_inv s'" if "(accept_step can_rebind)\<^sup>*\<^sup>* s s'" for s'
    by (rule accept_loops.reachable_inv [OF _ rtranclp_trans [OF assms that]]) blast
  have "al_active s \<le> MAX_ACTIVE_LOCAL_CONNS" "al_permits s = 0 \<longleftrightarrow> al_active s = MAX_ACTIVE_LOCAL_CONNS"
    using local_conns.bounded [OF _ assms] local_conns.free_iff [OF _ assms] by auto
  moreover have "al_pc s' = AParked \<and> \<not> al_listening s' \<and> al_active s' \<le> al_active s"
    if "al_pc s = AParked" "(accept_step can_rebind)\<^sup>*\<^sup>* s s'" for s'
    using parked_steps [OF that(2,1)] inv [OF that(2)] by (auto simp: accept_inv_def)
  ultimately show ?thesis using inv [of s] by (auto simp: accept_inv_def)
qed

theorem accept_loop_bounded_witness:
  "\<exists>s. (accept_step True)\<^sup>*\<^sup>* (accept_start (Inr ())) s \<and> al_pc s = AParked \<and> \<not> al_listening s \<and>
     al_active s = 0 \<and> al_active s \<le> MAX_ACTIVE_LOCAL_CONNS"
proof -
  let ?s = "accept_start (Inr ())"
  let ?s1 = "?s\<lparr>al_close := True\<rparr>"
  let ?s2 = "?s1\<lparr>al_listening := False, al_pc := AParked\<rparr>"
  have "accept_step True ?s ?s1" by (rule accept_step.close_requested)
  moreover have "accept_step True ?s1 ?s2" by (rule accept_step.closes) (simp_all add: accept_start_def)
  ultimately have run: "(accept_step True)\<^sup>*\<^sup>* ?s ?s2" by (meson converse_rtranclp_into_rtranclp rtranclp.rtrancl_refl)
  from accept_loop_bounded [OF this] run show ?thesis
    by (intro exI [of _ ?s2]) (simp add: accept_start_def)
qed

end
