(* ===== verification/Server_Run.thy ===== *)
theory Server_Run
  imports Server_Safety Listener
begin

text \<open>
  The accept loop of the server and the loop over the streams of a connection,
  \<^verbatim>\<open>src/crates/flextunnel-core/src/proxy/server.rs\<close>. The loop takes a permit before it accepts,
  so it holds one itself while it waits; its end is either the closing of the endpoint or
  the duplicate-server notification. The lemmas show that the number of handlers is bounded
  and that a notified server can always stop.
\<close>

section \<open>The streams of a connection\<close>

text \<open>The results of \<^verbatim>\<open>accept_bi\<close>, one after the other: the streams that are spawned, and whether
  the connection has closed.\<close>

fun serve_socks :: "(msg + stream) list \<Rightarrow> stream list \<times> unit proxy_result option" where
  "serve_socks [] = ([], None)"
| "serve_socks (Inr s # rest) = (case serve_socks rest of (spawned, r) \<Rightarrow> (s # spawned, r))"
| "serve_socks (Inl e # rest) = ([], Some (Inr ()))"

section \<open>The accept loop\<close>

datatype run_pc = RAcquire | RAccept | REnded "unit proxy_result"

record run_state =
  rn_pc :: run_pc
  rn_permits :: nat
  rn_handlers :: nat
  rn_bridges :: nat
  rn_shutdown :: bool

definition run_start :: "('n, 'r) proxy_server \<Rightarrow> run_state" where
  "run_start srv = \<lparr>rn_pc = RAcquire, rn_permits = MAX_CONCURRENT_CONNECTIONS, rn_handlers = 0,
     rn_bridges = length (srv_bridges srv), rn_shutdown = False\<rparr>"

text \<open>A handler that blocks the server itself notifies the loop and then ends.\<close>

inductive run_step :: "run_state \<Rightarrow> run_state \<Rightarrow> bool" where
  acquired: "rn_pc s = RAcquire \<Longrightarrow> rn_permits s = Suc n \<Longrightarrow> run_step s (s\<lparr>rn_permits := n, rn_pc := RAccept\<rparr>)"
| accepted: "rn_pc s = RAccept \<Longrightarrow> run_step s (s\<lparr>rn_handlers := Suc (rn_handlers s), rn_pc := RAcquire\<rparr>)"
| endpoint_closed: "rn_pc s = RAccept \<Longrightarrow>
    run_step s (s\<lparr>rn_permits := Suc (rn_permits s), rn_bridges := 0, rn_pc := REnded (Inr ())\<rparr>)"
| stopped: "rn_pc s = RAccept \<Longrightarrow> rn_shutdown s \<Longrightarrow>
    run_step s (s\<lparr>rn_permits := Suc (rn_permits s), rn_bridges := 0, rn_shutdown := False,
      rn_pc := REnded (Inl (DuplicateServerId
        (''server id detected as a duplicate; recorded in the blocklist and stopping'', [])))\<rparr>)"
| notified: "rn_handlers s \<noteq> 0 \<Longrightarrow> run_step s (s\<lparr>rn_shutdown := True\<rparr>)"
| handler_ended: "rn_handlers s = Suc n \<Longrightarrow> run_step s (s\<lparr>rn_permits := Suc (rn_permits s), rn_handlers := n\<rparr>)"

inductive_cases run_stepE: "run_step s s'"

definition run_holders :: "run_state \<Rightarrow> nat" where
  "run_holders s = rn_handlers s + (if rn_pc s = RAccept then 1 else 0)"

interpretation server_conns: permit_pool "\<lambda>s. \<exists>srv :: ('n, 'r) proxy_server. s = run_start srv" run_step rn_permits
  run_holders MAX_CONCURRENT_CONNECTIONS
  by unfold_locales (auto simp: run_start_def run_holders_def elim!: run_stepE)

definition run_inv :: "run_state \<Rightarrow> bool" where
  "run_inv s \<longleftrightarrow> (\<exists>r. rn_pc s = REnded r) \<longrightarrow> rn_bridges s = 0"

interpretation server_loops: invariant_system "\<lambda>s. \<exists>srv :: ('n, 'r) proxy_server. s = run_start srv" run_step run_inv
  by unfold_locales (auto simp: run_start_def run_inv_def elim!: run_stepE)

text \<open>C23: The server never handles more connections at once than its limit, and every bridge task
  has ended when the loop has. While it runs it can always go on: from every reachable
  state that has not ended, either it can accept the next connection or a handler
  ending lets it. A server that was notified of a duplicate can always stop with that error.\<close>

theorem server_loop_bounded_and_stoppable:
  fixes srv :: "('n, 'r) proxy_server"
  assumes "run_step\<^sup>*\<^sup>* (run_start srv) s"
  shows "rn_handlers s \<le> MAX_CONCURRENT_CONNECTIONS \<and>
    (case rn_pc s of
       REnded _ \<Rightarrow> rn_bridges s = 0
     | _ \<Rightarrow> (\<exists>s'. run_step\<^sup>*\<^sup>* s s' \<and> rn_pc s' = RAccept \<and> rn_shutdown s' = rn_shutdown s) \<and>
         (\<not> rn_shutdown s \<or> (\<exists>s' m. run_step\<^sup>*\<^sup>* s s' \<and> rn_pc s' = REnded (Inl (DuplicateServerId m)))))"
proof -
  have start: "\<exists>srv' :: ('n, 'r) proxy_server. run_start srv = run_start srv'" by blast
  have hold: "run_holders s \<le> MAX_CONCURRENT_CONNECTIONS"
    and free: "rn_permits s = 0 \<longleftrightarrow> run_holders s = MAX_CONCURRENT_CONNECTIONS"
    using server_conns.bounded [OF start assms] server_conns.free_iff [OF start assms] .
  have inv: "run_inv s" using server_loops.reachable_inv [OF start assms] .
  have nxt: "\<exists>s'. run_step\<^sup>*\<^sup>* s s' \<and> rn_pc s' = RAccept \<and> rn_shutdown s' = rn_shutdown s"
    if "\<forall>r. rn_pc s \<noteq> REnded r"
  proof (cases "rn_pc s")
    case RAccept
    then show ?thesis by blast
  next
    case RAcquire
    show ?thesis
    proof (cases "rn_permits s")
      case (Suc n)
      with RAcquire have "run_step s (s\<lparr>rn_permits := n, rn_pc := RAccept\<rparr>)" by (rule run_step.acquired)
      then show ?thesis by (intro exI [of _ "s\<lparr>rn_permits := n, rn_pc := RAccept\<rparr>"]) auto
    next
      case 0
      then have "rn_handlers s = MAX_CONCURRENT_CONNECTIONS" using free RAcquire by (simp add: run_holders_def)
      then obtain m where m: "rn_handlers s = Suc m" by (auto simp: MAX_CONCURRENT_CONNECTIONS_def)
      let ?s1 = "s\<lparr>rn_permits := Suc (rn_permits s), rn_handlers := m\<rparr>"
      have "run_step s ?s1" by (rule run_step.handler_ended [OF m])
      moreover have "run_step ?s1 (?s1\<lparr>rn_permits := 0, rn_pc := RAccept\<rparr>)"
        by (rule run_step.acquired) (simp_all add: RAcquire 0)
      ultimately have "run_step\<^sup>*\<^sup>* s (?s1\<lparr>rn_permits := 0, rn_pc := RAccept\<rparr>)"
        by (meson converse_rtranclp_into_rtranclp rtranclp.rtrancl_refl)
      then show ?thesis by (intro exI [of _ "?s1\<lparr>rn_permits := 0, rn_pc := RAccept\<rparr>"]) simp
    qed
  qed (use that in blast)
  have stop: "\<exists>s'' m. run_step\<^sup>*\<^sup>* s' s'' \<and> rn_pc s'' = REnded (Inl (DuplicateServerId m))"
    if "rn_pc s' = RAccept" "rn_shutdown s'" for s'
    by (intro exI conjI, rule r_into_rtranclp, rule run_step.stopped [OF that]) simp
  have "\<not> rn_shutdown s \<or> (\<exists>s' m. run_step\<^sup>*\<^sup>* s s' \<and> rn_pc s' = REnded (Inl (DuplicateServerId m)))"
    if "\<forall>r. rn_pc s \<noteq> REnded r"
    using nxt [OF that] stop by (meson rtranclp_trans)
  with nxt inv hold show ?thesis
    by (cases "rn_pc s") (auto simp: run_inv_def run_holders_def)
qed

theorem server_loop_bounded_and_stoppable_witness:
  "\<exists>s s' m. run_step\<^sup>*\<^sup>* (run_start sample_server) s \<and> rn_shutdown s \<and> run_step\<^sup>*\<^sup>* s s' \<and>
     rn_pc s' = REnded (Inl (DuplicateServerId m))"
proof -
  let ?s = "run_start sample_server"
  let ?s1 = "?s\<lparr>rn_permits := MAX_CONCURRENT_CONNECTIONS - 1, rn_pc := RAccept\<rparr>"
  let ?s2 = "?s1\<lparr>rn_handlers := Suc 0, rn_pc := RAcquire\<rparr>"
  let ?s3 = "?s2\<lparr>rn_shutdown := True\<rparr>"
  have "run_step ?s ?s1" by (rule run_step.acquired) (simp_all add: run_start_def MAX_CONCURRENT_CONNECTIONS_def)
  moreover have "run_step ?s1 ?s2" using run_step.accepted [of ?s1] by (simp add: run_start_def)
  moreover have "run_step ?s2 ?s3" by (rule run_step.notified) simp
  ultimately have run: "run_step\<^sup>*\<^sup>* ?s ?s3" by (meson converse_rtranclp_into_rtranclp rtranclp.rtrancl_refl)
  from server_loop_bounded_and_stoppable [OF run] have
    "\<exists>s' m. run_step\<^sup>*\<^sup>* ?s3 s' \<and> rn_pc s' = REnded (Inl (DuplicateServerId m))" by simp
  moreover have "rn_shutdown ?s3" by simp
  ultimately show ?thesis using run by blast
qed

end
