(* ===== verification/Socks5.thy ===== *)
theory Socks5
  imports Signaling
begin

text \<open>
  SOCKS5 on the local front-end and in the port forwarder's dialer,
  \<^verbatim>\<open>src/crates/flextunnel-core/src/proxy/socks5.rs\<close>: method negotiation, the CONNECT
  request and its reply, on the accepting and on the dialing side. The lemmas show which
  byte strings each side accepts, which reply a refused request gets, and that the two
  sides agree with each other.
\<close>

section \<open>Operations\<close>

definition SOCKS_VERSION :: u8 where [wire_defs]: "SOCKS_VERSION = 0x05"
definition METHOD_NO_AUTH :: u8 where [wire_defs]: "METHOD_NO_AUTH = 0x00"
definition METHOD_NONE_ACCEPTABLE :: u8 where [wire_defs]: "METHOD_NONE_ACCEPTABLE = 0xFF"
definition CMD_CONNECT :: u8 where [wire_defs]: "CMD_CONNECT = 0x01"

definition negotiate_method :: "unit io" where
  "negotiate_method =
     io_bind read_u8 (\<lambda>ver.
     if ver \<noteq> SOCKS_VERSION
     then io_fail (io_other ''unsupported SOCKS version: 0x{ver:02x}'' [FNat (unat ver)]) else
     io_bind read_u8 (\<lambda>nmethods.
     io_bind (read_exact (unat nmethods)) (\<lambda>methods.
     if METHOD_NO_AUTH \<in> set methods
     then io_bind (write_all [SOCKS_VERSION, METHOD_NO_AUTH]) (\<lambda>_. io_return ())
     else io_bind (write_all [SOCKS_VERSION, METHOD_NONE_ACCEPTABLE]) (\<lambda>_.
       io_fail (io_other ''client offered no acceptable SOCKS5 method'' [])))))"

definition client_handshake_noauth :: "unit io" where
  "client_handshake_noauth =
     io_bind (write_all [SOCKS_VERSION, 1, METHOD_NO_AUTH]) (\<lambda>_.
     io_bind (read_exact 2) (\<lambda>choice.
     let ver = choice ! 0; meth = choice ! 1 in
     if ver \<noteq> SOCKS_VERSION
     then io_fail (io_other ''not a SOCKS5 server (greeting version 0x{ver:02x})'' [FNat (unat ver)])
     else if meth = METHOD_NO_AUTH then io_return ()
     else if meth = METHOD_NONE_ACCEPTABLE
     then io_fail (io_other (''SOCKS5 server refused the no-auth method - an authenticating SOCKS5 ''
       @ ''server (not this app) is on this port'') [])
     else io_fail (io_other (''SOCKS5 server selected method 0x{other:02x} that was not offered - ''
       @ ''another SOCKS5 server (not this app) is on this port'') [FNat (unat meth)])))"

definition client_write_connect :: "target \<Rightarrow> unit io" where
  "client_write_connect t =
     (let req = [SOCKS_VERSION, CMD_CONNECT, 0x00] in
      case t of
        TDomain host port \<Rightarrow>
          if length host \<le> 255 then
            write_all (req @ [ATYP_DOMAIN] @ [of_nat (length host)] @ as_bytes host
              @ u16_to_be_bytes port)
          else io_fail (io_other ''SOCKS5 domain longer than 255 bytes: {host}'' [FStr host])
      | TIp (SockV4 ip port) \<Rightarrow>
          write_all (req @ [ATYP_IPV4] @ u32_to_be_bytes ip @ u16_to_be_bytes port)
      | TIp (SockV6 ip port flow scope) \<Rightarrow>
          write_all (req @ [ATYP_IPV6] @ u128_to_be_bytes ip @ u16_to_be_bytes port))"

definition client_read_reply :: "u8 io" where
  "client_read_reply =
     io_bind (read_exact 4) (\<lambda>head.
     let ver = head ! 0; rep = head ! 1; atyp = head ! 3 in
     if ver \<noteq> SOCKS_VERSION
     then io_fail (io_other ''unexpected SOCKS5 reply version: 0x{ver:02x}'' [FNat (unat ver)]) else
     io_bind
       (if atyp = ATYP_IPV4 then io_return 4
        else if atyp = ATYP_IPV6 then io_return 16
        else if atyp = ATYP_DOMAIN then io_bind read_u8 (\<lambda>n. io_return (unat n))
        else io_fail (io_other ''unsupported SOCKS5 reply address type: 0x{other:02x}''
          [FNat (unat atyp)])) (\<lambda>bnd_len.
     io_bind (read_exact (bnd_len + 2)) (\<lambda>_. io_return rep)))"

definition describe_reply :: "u8 \<Rightarrow> string" where
  "describe_reply rep =
     (if rep = REP_SUCCESS then ''succeeded''
      else if rep = REP_GENERAL_FAILURE then ''general failure''
      else if rep = REP_NOT_ALLOWED then ''connection not allowed''
      else if rep = REP_NET_UNREACHABLE then ''network unreachable''
      else if rep = REP_HOST_UNREACHABLE then ''host unreachable''
      else if rep = REP_CONN_REFUSED then ''connection refused''
      else if rep = REP_CMD_NOT_SUPPORTED then ''command not supported''
      else if rep = REP_ATYP_NOT_SUPPORTED then ''address type not supported''
      else ''unknown failure'')"

definition socks_write_reply :: "u8 \<Rightarrow> unit io" where
  "socks_write_reply rep =
     write_all [SOCKS_VERSION, rep, 0x00, ATYP_IPV4, 0, 0, 0, 0, 0, 0]"

text \<open>A refused request: the reply, then the error.\<close>

definition refuse :: "u8 \<Rightarrow> io_error \<Rightarrow> 'a io" where
  "refuse rep e = io_bind (socks_write_reply rep) (\<lambda>_. io_fail e)"

definition read_connect_request :: "target io" where
  "read_connect_request =
     io_bind (read_exact 4) (\<lambda>head.
     let ver = head ! 0; cmd = head ! 1; rsv = head ! 2; atyp = head ! 3 in
     if ver \<noteq> SOCKS_VERSION
     then io_fail (io_other ''unsupported SOCKS version in request: 0x{ver:02x}'' [FNat (unat ver)])
     else if cmd \<noteq> CMD_CONNECT
     then refuse REP_CMD_NOT_SUPPORTED
       (io_other ''unsupported SOCKS5 command: 0x{cmd:02x} (only CONNECT)'' [FNat (unat cmd)])
     else if rsv \<noteq> 0x00
     then refuse REP_GENERAL_FAILURE
       (io_other ''invalid SOCKS5 reserved byte: 0x{rsv:02x} (must be 0x00)'' [FNat (unat rsv)])
     else if atyp = ATYP_IPV4 then
       io_bind (read_exact 4) (\<lambda>octets. io_bind read_u16 (\<lambda>port.
         io_return (TIp (SockV4 (u32_from_be_bytes octets) port))))
     else if atyp = ATYP_IPV6 then
       io_bind (read_exact 16) (\<lambda>octets. io_bind read_u16 (\<lambda>port.
         io_return (TIp (SockV6 (u128_from_be_bytes octets) port 0 0))))
     else if atyp = ATYP_DOMAIN then
       io_bind read_u8 (\<lambda>len. io_bind (read_exact (unat len)) (\<lambda>host. io_bind read_u16 (\<lambda>port.
         case from_utf8 host of
           Some host \<Rightarrow> io_return (TDomain host port)
         | None \<Rightarrow> refuse REP_GENERAL_FAILURE (io_other ''SOCKS5 domain is not valid UTF-8'' []))))
     else refuse REP_ATYP_NOT_SUPPORTED
       (io_other ''unsupported SOCKS5 address type: 0x{other:02x}'' [FNat (unat atyp)]))"

section \<open>Which byte strings are accepted\<close>

text \<open>The CONNECT request has the addressing part of the tunnel's own request header.\<close>

definition enc_connect :: "target \<Rightarrow> bytes" where
  "enc_connect t = [5, 1, 0] @ tl (enc_request t)"

lemma length4_iff: "length xs = 4 \<longleftrightarrow> (\<exists>a b c d. xs = [a, b, c, d])"
  by (auto simp: numeral_eq_Suc length_Suc_conv)

lemma length2_iff: "length xs = 2 \<longleftrightarrow> (\<exists>a b. xs = [a, b])"
  by (auto simp: numeral_eq_Suc length_Suc_conv)

lemma read_exact_Cons [io_simps]:
  "rx s = a # b # rest \<Longrightarrow> read_exact 2 s = (Inr [a, b], s\<lparr>rx := rest\<rparr>)"
  "rx s = a # b # c # d # rest' \<Longrightarrow> read_exact 4 s = (Inr [a, b, c, d], s\<lparr>rx := rest'\<rparr>)"
  by (simp_all add: read_exact_def)

lemma refuse_Inr [simp]: "refuse rep e s \<noteq> (Inr x, s')"
  by (auto simp: refuse_def io_inv)

lemma refuse_open [io_simps]:
  "tx_open s \<Longrightarrow> refuse rep e s = (Inl e, s\<lparr>tx := tx s @ [5, rep, 0, 1, 0, 0, 0, 0, 0, 0]\<rparr>)"
  by (simp add: refuse_def socks_write_reply_def io_simps wire_defs)

lemma negotiate_method_Inr_iff [io_inv]:
  "negotiate_method s = (Inr x, s') \<longleftrightarrow>
     (\<exists>n methods rest. rx s = [5, n] @ methods @ rest \<and> length methods = unat n \<and>
        0 \<in> set methods \<and> tx_open s \<and> s' = s\<lparr>rx := rest, tx := tx s @ [5, 0]\<rparr>)"
  by (auto simp: negotiate_method_def io_inv wire_defs split: if_splits) force+

lemma client_handshake_noauth_Inr_iff [io_inv]:
  "client_handshake_noauth s = (Inr x, s') \<longleftrightarrow>
     (\<exists>rest. rx s = [5, 0] @ rest \<and> tx_open s \<and> s' = s\<lparr>rx := rest, tx := tx s @ [5, 1, 0]\<rparr>)"
proof
  assume "client_handshake_noauth s = (Inr x, s')"
  then show "\<exists>rest. rx s = [5, 0] @ rest \<and> tx_open s \<and> s' = s\<lparr>rx := rest, tx := tx s @ [5, 1, 0]\<rparr>"
    by (auto simp: client_handshake_noauth_def io_inv wire_defs length2_iff Let_def split: if_splits)
qed (auto simp: client_handshake_noauth_def io_simps wire_defs)

lemma read_connect_request_Inr_iff [io_inv]:
  "read_connect_request s = (Inr t, s') \<longleftrightarrow>
     wire_target t \<and> (\<exists>rest. rx s = enc_connect t @ rest \<and> s' = s\<lparr>rx := rest\<rparr>)"
proof
  assume "read_connect_request s = (Inr t, s')"
  then show "wire_target t \<and> (\<exists>rest. rx s = enc_connect t @ rest \<and> s' = s\<lparr>rx := rest\<rparr>)"
    by (auto simp: read_connect_request_def io_inv wire_defs enc_connect_def enc_request_def
        wire_target_def from_utf8_Some_iff Let_def length4_iff [where xs = "_ :: u8 list"]
        split: if_splits option.splits dest!: length_u8_eq)
next
  assume "wire_target t \<and> (\<exists>rest. rx s = enc_connect t @ rest \<and> s' = s\<lparr>rx := rest\<rparr>)"
  then show "read_connect_request s = (Inr t, s')"
    by (auto simp: read_connect_request_def io_simps wire_defs enc_connect_def enc_request_def
        wire_target_def
        split: target.splits socket_addr.splits)
qed

lemma client_write_connect_enc:
  "wire_target t \<Longrightarrow> tx_open s \<Longrightarrow>
   client_write_connect t s = (Inr (), s\<lparr>tx := tx s @ enc_connect t\<rparr>)"
  by (auto simp: client_write_connect_def io_simps wire_defs enc_connect_def enc_request_def
      wire_target_def split: target.splits socket_addr.splits)

lemma client_write_connect_wire_form: "client_write_connect (wire_form t) = client_write_connect t"
  by (cases t rule: wire_form.cases) (auto simp: client_write_connect_def Let_def
      split: socket_addr.splits elim: sock_new.elims sock_ip.elims)

interpretation connect: wire_codec wire_target enc_connect client_write_connect read_connect_request
  by unfold_locales (auto simp: client_write_connect_enc read_connect_request_Inr_iff)

interpretation socks_reply: wire_codec "\<lambda>_. True" "\<lambda>rep. [5, rep, 0, 1, 0, 0, 0, 0, 0, 0]"
  socks_write_reply client_read_reply
  by unfold_locales (auto simp: socks_write_reply_def client_read_reply_def io_simps wire_defs
      read_exact_def)

lemma wb_socks5 [wb]:
  "well_behaved negotiate_method" "well_behaved client_handshake_noauth"
  "well_behaved client_read_reply" "well_behaved (socks_write_reply rep)"
  "well_behaved (refuse rep e :: 'a io)" "well_behaved read_connect_request"
  unfolding negotiate_method_def client_handshake_noauth_def client_read_reply_def refuse_def
    socks_write_reply_def read_connect_request_def Let_def
  by (intro wb)+

section \<open>Properties\<close>

text \<open>The dialing side and the accepting side of one session, each as the sequence of calls
  its callers make.\<close>

definition socks_dial :: "target \<Rightarrow> u8 io" where
  "socks_dial t = io_bind client_handshake_noauth (\<lambda>_.
     io_bind (client_write_connect t) (\<lambda>_. client_read_reply))"

definition socks_accept :: "u8 \<Rightarrow> target io" where
  "socks_accept rep = io_bind negotiate_method (\<lambda>_.
     io_bind read_connect_request (\<lambda>t. io_bind (socks_write_reply rep) (\<lambda>_. io_return t)))"

text \<open>C2: The two sides of a SOCKS5 session agree. When each side's input is the other side's
  output, the accepting side obtains the target the dialer asked for and the dialer obtains
  the reply code the accepting side chose, whatever it is; each side leaves exactly the
  bytes that come after the handshake.\<close>

theorem socks_sides_agree:
  assumes "case t of TDomain h p \<Rightarrow> length h \<le> 255 \<and> valid_str h | _ \<Rightarrow> True"
    and "tx_open c" "tx_open d" "tx c = []" "tx d = []"
    and "socks_dial t c = (rc, c')" and "socks_accept rep d = (rd, d')"
    and "rx d = tx c' @ up" and "rx c = [5, 0] @ [5, rep, 0, 1, 0, 0, 0, 0, 0, 0] @ down"
  shows "rd = Inr (wire_form t) \<and> rc = Inr rep \<and> rx d' = up \<and> rx c' = down \<and>
    tx d' = [5, 0] @ [5, rep, 0, 1, 0, 0, 0, 0, 0, 0]"
proof -
  let ?t = "wire_form t"
  note w = wire_target_wire_form [OF assms(1)]
  have h: "client_handshake_noauth c = (Inr (), c\<lparr>rx := [5, rep, 0, 1, 0, 0, 0, 0, 0, 0] @ down,
      tx := [5, 1, 0]\<rparr>)" (is "_ = (_, ?c1)")
    using assms(2,4,9) by (simp add: client_handshake_noauth_Inr_iff)
  have "client_write_connect t ?c1 = (Inr (), ?c1\<lparr>tx := [5, 1, 0] @ enc_connect ?t\<rparr>)" (is "_ = (_, ?c2)")
    using connect.wr_enc [OF w, of ?c1] assms(2) by (simp add: client_write_connect_wire_form)
  moreover have "client_read_reply ?c2 = (Inr rep, ?c2\<lparr>rx := down\<rparr>)"
    by (rule socks_reply.rd_enc) simp_all
  ultimately have c: "rc = Inr rep" "c' = ?c2\<lparr>rx := down\<rparr>"
    using assms(6) h by (simp_all add: socks_dial_def io_bind_ok)
  have n: "negotiate_method d = (Inr (), d\<lparr>rx := enc_connect ?t @ up, tx := [5, 0]\<rparr>)"
    (is "_ = (_, ?d1)")
    using assms(3,5,8) c(2) unfolding negotiate_method_Inr_iff
    by (intro exI [of _ 1] exI [of _ "[0]"] exI [of _ "enc_connect ?t @ up"]) simp
  have "read_connect_request ?d1 = (Inr ?t, ?d1\<lparr>rx := up\<rparr>)"
    using w by (intro connect.rd_enc) simp_all
  with n assms(3,7) have "rd = Inr ?t"
    "d' = ?d1\<lparr>rx := up, tx := [5, 0] @ [5, rep, 0, 1, 0, 0, 0, 0, 0, 0]\<rparr>"
    by (auto simp: socks_accept_def io_bind_ok socks_reply.wr_enc)
  with c show ?thesis by simp
qed

theorem socks_sides_agree_witness:
  "fst (socks_dial (TIp (SockV4 0x0A000001 80))
     \<lparr>rx = [5, 0, 5, 2, 0, 1, 0, 0, 0, 0, 0, 0, 7], tx = [], tx_open = True\<rparr>) = Inr 2 \<and>
   fst (socks_accept 2 \<lparr>rx = [5, 1, 0, 5, 1, 0, 1, 10, 0, 0, 1, 0, 80, 9], tx = [], tx_open = True\<rparr>)
     = Inr (TIp (SockV4 0x0A000001 80))"
proof -
  let ?c = "\<lparr>rx = [5, 0, 5, 2, 0, 1, 0, 0, 0, 0, 0, 0, 7], tx = [], tx_open = True\<rparr>"
  let ?d = "\<lparr>rx = [5, 1, 0, 5, 1, 0, 1, 10, 0, 0, 1, 0, 80, 9], tx = [], tx_open = True\<rparr>"
  have dial: "socks_dial (TIp (SockV4 0x0A000001 80)) ?c =
      (fst (socks_dial (TIp (SockV4 0x0A000001 80)) ?c),
       \<lparr>rx = [7], tx = [5, 1, 0, 5, 1, 0, 1, 10, 0, 0, 1, 0, 80], tx_open = True\<rparr>)"
    by code_simp
  have acc: "socks_accept 2 ?d = (fst (socks_accept 2 ?d), snd (socks_accept 2 ?d))" by simp
  show ?thesis using socks_sides_agree [OF _ _ _ _ _ dial acc, of "[9]" "[7]"] by simp
qed

text \<open>Every request the accepting side refuses after a complete SOCKS5 header is answered
  before the error is returned, with the reply code of RFC 1928 for what is wrong: an
  unsupported command, a nonzero reserved byte, or an unknown address type.\<close>

theorem refused_request_gets_reply:
  assumes "tx_open s" and "rx s = [5, cmd, rsv, atyp] @ rest"
    and "cmd \<noteq> CMD_CONNECT \<or> rsv \<noteq> 0 \<or> atyp \<notin> {ATYP_IPV4, ATYP_IPV6, ATYP_DOMAIN}"
  shows "\<exists>e rep. read_connect_request s =
      (Inl e, s\<lparr>rx := rest, tx := tx s @ [5, rep, 0, 1, 0, 0, 0, 0, 0, 0]\<rparr>) \<and>
    rep = (if cmd \<noteq> CMD_CONNECT then REP_CMD_NOT_SUPPORTED
           else if rsv \<noteq> 0 then REP_GENERAL_FAILURE else REP_ATYP_NOT_SUPPORTED) \<and>
    describe_reply rep \<notin> {''succeeded'', ''unknown failure''}"
  using assms by (auto simp: read_connect_request_def io_simps wire_defs describe_reply_def rep_defs)

theorem refused_request_gets_reply_witness:
  "\<exists>e. read_connect_request \<lparr>rx = [5, 3, 0, 1], tx = [], tx_open = True\<rparr> =
     (Inl e, \<lparr>rx = [], tx = [5, 7, 0, 1, 0, 0, 0, 0, 0, 0], tx_open = True\<rparr>)"
  using refused_request_gets_reply [of "\<lparr>rx = [5, 3, 0, 1], tx = [], tx_open = True\<rparr>" 3 0 1 "[]"]
  by (auto simp: CMD_CONNECT_def REP_CMD_NOT_SUPPORTED_def)

end
