(* ===== verification/Local_Proxy.thy ===== *)
theory Local_Proxy
  imports Socks5 Http Dial Server_Safety
begin

text \<open>
  What the client does with a connection to one of its local front-ends,
  \<^verbatim>\<open>src/crates/flextunnel-core/src/proxy/client.rs\<close>: the two front-end protocols, the wait for the
  route policy and for the tunnel, the direct connection and the tunnel stream. What the
  shared cells hold when they are read, whether a wait ends with a connection, and what the
  network does are parameters. The lemmas are proved once for every front-end that
  answers with a reply, and instantiated for SOCKS5 and HTTP.
\<close>

definition TUNNEL_OPEN_TIMEOUT :: duration where "TUNNEL_OPEN_TIMEOUT = from_secs 30"

definition TUNNEL_RECOVERY_HOLD :: duration where "TUNNEL_RECOVERY_HOLD = from_secs 45"

definition LOCAL_HANDSHAKE_TIMEOUT :: duration where "LOCAL_HANDSHAKE_TIMEOUT = from_secs 10"

definition MAX_HELD_CONNS :: nat where "MAX_HELD_CONNS = 64"

section \<open>Front-end protocols\<close>

record local_request =
  lr_target :: target
  upstream_preamble :: "bytes option"

record local_proto =
  lp_read_request :: "local_request io"
  lp_reply :: "u8 \<Rightarrow> unit io"

definition socks5_proto :: local_proto where
  "socks5_proto =
     \<lparr>lp_read_request = io_bind negotiate_method (\<lambda>_. io_bind read_connect_request (\<lambda>t.
        io_return \<lparr>lr_target = t, upstream_preamble = None\<rparr>)),
      lp_reply = socks_write_reply\<rparr>"

definition http_proto :: local_proto where
  "http_proto =
     \<lparr>lp_read_request = io_bind http_read_request (\<lambda>r. io_return (case r of
        Connect t \<Rightarrow> \<lparr>lr_target = t, upstream_preamble = None\<rparr>
      | Forward t head \<Rightarrow> \<lparr>lr_target = t, upstream_preamble = Some head\<rparr>)),
      lp_reply = http_write_reply\<rparr>"

section \<open>Waiting for the policy and the tunnel\<close>

text \<open>What one call of \<^verbatim>\<open>wait_for_tunnel\<close> sees: the connection cell at first, whether a hold is
  free, the cell when there is none, and the connection that arrives within the hold.\<close>

record tunnel_wait =
  tw_live :: "connection option"
  tw_hold_free :: bool
  tw_recheck :: "connection option"
  tw_arrives :: "connection option"

definition wait_for_tunnel :: "tunnel_wait \<Rightarrow> connection option" where
  "wait_for_tunnel w =
     (case tw_live w of
        Some conn \<Rightarrow> Some conn
      | None \<Rightarrow> if \<not> tw_hold_free w then tw_recheck w else tw_arrives w)"

text \<open>The policy cell is read before the wait and, if it was empty, again after it.\<close>

record 'n local_view =
  lv_policy :: "'n routed_set option"
  lv_first_wait :: tunnel_wait
  lv_policy_later :: "'n routed_set option"
  lv_wait :: tunnel_wait

definition wait_for_route_policy :: "'n local_view \<Rightarrow> 'n routed_set option" where
  "wait_for_route_policy v =
     (case lv_policy v of
        Some known \<Rightarrow> Some known
      | None \<Rightarrow> Option.bind (wait_for_tunnel (lv_first_wait v)) (\<lambda>_. lv_policy_later v))"

section \<open>Connections\<close>

record ('c, 'r) local_env =
  le_net :: "('c, 'r) net_env"
  le_socket :: "'c \<Rightarrow> stream"
  le_open_bi :: "connection \<Rightarrow> msg + stream"
  le_open_times_out :: bool
  le_handshake_times_out :: bool

text \<open>What a local connection ends with: an answer, or being spliced with a dialed socket or a
  tunnel stream in the given state.\<close>

datatype 'c local_outcome = LAnswered | LDirect 'c stream | LTunneled connection stream

text \<open>The way a request went: none, from this device, or through the tunnel.\<close>

datatype route = NoRoute | DirectRoute | TunnelRoute

definition open_tunnel :: "('c, 'r) local_env \<Rightarrow> connection \<Rightarrow> target \<Rightarrow> io_error + stream \<times> u8" where
  "open_tunnel env conn t =
     (case le_open_bi env conn of
        Inl e \<Rightarrow> Inl (IoError Other e)
      | Inr bs \<Rightarrow>
          (case write_request t bs of
             (Inl e, _) \<Rightarrow> Inl e
           | (Inr _, bs) \<Rightarrow>
               (case read_reply bs of
                  (Inl e, _) \<Rightarrow> Inl e
                | (Inr rep, bs) \<Rightarrow> Inr (bs, rep))))"

definition direct_connect ::
  "('c, 'r) local_env \<Rightarrow> local_proto \<Rightarrow> target \<Rightarrow> bytes option \<Rightarrow> 'c local_outcome io" where
  "direct_connect env proto t preamble s =
     (if dial_times_out (le_net env)
      then (Inr LAnswered, snd (lp_reply proto REP_HOST_UNREACHABLE s))
      else case dial_target (le_net env) t None of
        Inl e \<Rightarrow> (Inr LAnswered, snd (lp_reply proto (map_io_err e) s))
      | Inr c \<Rightarrow>
          (case preamble of
             None \<Rightarrow> io_bind (lp_reply proto REP_SUCCESS) (\<lambda>_. io_return (LDirect c (le_socket env c))) s
           | Some head \<Rightarrow>
               (case write_all head (le_socket env c) of
                  (Inl e, _) \<Rightarrow> (Inl e, s)
                | (Inr _, up) \<Rightarrow> (Inr (LDirect c up), s))))"

definition tunnel_connect ::
  "('c, 'r) local_env \<Rightarrow> local_proto \<Rightarrow> connection \<Rightarrow> target \<Rightarrow> bytes option \<Rightarrow> 'c local_outcome io" where
  "tunnel_connect env proto conn t preamble s =
     (case (if le_open_times_out env
            then Inl (io_other ''timed out opening tunnel / awaiting server reply'' [])
            else open_tunnel env conn t) of
        Inl e \<Rightarrow> (Inl e, snd (lp_reply proto REP_GENERAL_FAILURE s))
      | Inr (up, rep) \<Rightarrow>
          if rep \<noteq> REP_SUCCESS then io_bind (lp_reply proto rep) (\<lambda>_. io_return LAnswered) s
          else (case preamble of
             None \<Rightarrow> io_bind (lp_reply proto rep) (\<lambda>_. io_return (LTunneled conn up)) s
           | Some head \<Rightarrow>
               (case write_all head up of
                  (Inl e, _) \<Rightarrow> (Inl e, snd (lp_reply proto REP_GENERAL_FAILURE s))
                | (Inr _, up) \<Rightarrow> (Inr (LTunneled conn up), s))))"

definition handle_local_conn ::
  "'n net_ops \<Rightarrow> ('c, 'r) local_env \<Rightarrow> 'n local_view \<Rightarrow> local_proto \<Rightarrow> stream \<Rightarrow>
   route \<times> (io_error + 'c local_outcome) \<times> stream" where
  "handle_local_conn ops env v proto s =
     (if le_handshake_times_out env
      then (NoRoute, Inl (io_other ''timed out during local proxy handshake'' []), s)
      else case lp_read_request proto s of
        (Inl e, s) \<Rightarrow> (NoRoute, Inl e, s)
      | (Inr req, s) \<Rightarrow>
          (case wait_for_route_policy v of
             None \<Rightarrow> (NoRoute, Inr LAnswered, snd (lp_reply proto REP_GENERAL_FAILURE s))
           | Some routed_set \<Rightarrow>
               let t = lr_target req;
                   reserved_target = (case t of TDomain host _ \<Rightarrow> is_reserved_host host | TIp _ \<Rightarrow> False) in
               if \<not> reserved_target \<and> \<not> allows ops routed_set t
               then (DirectRoute, direct_connect env proto t (upstream_preamble req) s)
               else case wait_for_tunnel (lv_wait v) of
                 None \<Rightarrow> (NoRoute, Inr LAnswered, snd (lp_reply proto REP_NET_UNREACHABLE s))
               | Some conn \<Rightarrow> (TunnelRoute, tunnel_connect env proto conn t (upstream_preamble req) s)))"

section \<open>What a front-end promises\<close>

text \<open>A front-end leaves the connection usable after reading a request, and each reply code has
  its bytes, which it writes whole.\<close>

locale front_end =
  fixes proto :: local_proto and reply_bytes :: "u8 \<Rightarrow> bytes"
  assumes reply_writes: "tx_open s \<Longrightarrow> lp_reply proto rep s = (Inr (), s\<lparr>tx := tx s @ reply_bytes rep\<rparr>)"
    and read_keeps: "lp_read_request proto s = (Inr req, s') \<Longrightarrow> tx_open s' = tx_open s"
begin

lemma reply_best_effort [simp]: "tx_open s \<Longrightarrow> snd (lp_reply proto rep s) = s\<lparr>tx := tx s @ reply_bytes rep\<rparr>"
  by (simp add: reply_writes)

lemma direct_connect_outcome:
  assumes "tx_open s" and "direct_connect env proto t preamble s = (r, s')"
  shows "(\<exists>rep. r = Inr LAnswered \<and> rep \<noteq> REP_SUCCESS \<and> s' = s\<lparr>tx := tx s @ reply_bytes rep\<rparr>) \<or>
    (\<exists>c up. r = Inr (LDirect c up) \<and> dial_target (le_net env) t None = Inr c \<and>
       s' = s\<lparr>tx := tx s @ (case preamble of None \<Rightarrow> reply_bytes REP_SUCCESS | Some _ \<Rightarrow> [])\<rparr> \<and>
       up = (le_socket env c)\<lparr>tx := tx (le_socket env c) @ (case preamble of None \<Rightarrow> [] | Some head \<Rightarrow> head)\<rparr>) \<or>
    (\<exists>e head. r = Inl e \<and> preamble = Some head \<and> s' = s)"
proof -
  have rep: "map_io_err e \<noteq> REP_SUCCESS" "REP_HOST_UNREACHABLE \<noteq> REP_SUCCESS" for e
    by (simp_all add: map_io_err_def rep_defs split: error_kind.split)
  consider (late) "dial_times_out (le_net env)"
    | (failed) e where "\<not> dial_times_out (le_net env)" "dial_target (le_net env) t None = Inl e"
    | (dialed) c where "\<not> dial_times_out (le_net env)" "dial_target (le_net env) t None = Inr c"
    by (cases "dial_target (le_net env) t None") auto
  then show ?thesis
  proof cases
    case late
    with assms rep(2) show ?thesis by (intro disjI1 exI [of _ REP_HOST_UNREACHABLE]) (simp add: direct_connect_def)
  next
    case failed
    with assms rep(1) show ?thesis by (intro disjI1 exI [of _ "map_io_err e"]) (simp add: direct_connect_def)
  next
    case dialed
    with assms show ?thesis
      by (rule_tac disjI2) (auto simp: direct_connect_def reply_writes io_bind_ok io_inv split: sum.splits option.splits prod.splits)
  qed
qed

text \<open>A tunneled request is always answered: with the server's reply code, or, for a forwarded
  head that could be written, by what the origin sends.\<close>

lemma tunnel_connect_outcome:
  assumes "tx_open s" and "tunnel_connect env proto conn t preamble s = (r, s')"
  shows "(\<exists>rep. tx s' = tx s @ reply_bytes rep \<and> (rep = REP_SUCCESS \<longleftrightarrow> (\<exists>c up. r = Inr (LTunneled c up))) \<and>
       (\<forall>c up. r \<noteq> Inr (LDirect c up))) \<or>
    (\<exists>head up. preamble = Some head \<and> r = Inr (LTunneled conn up) \<and> s' = s)"
  using assms rep_defs
  by (auto simp: tunnel_connect_def reply_writes io_bind_ok io_inv split: if_splits sum.splits option.splits prod.splits)

lemma no_policy_refused:
  assumes "tx_open s" and "\<not> le_handshake_times_out env"
    and "lp_read_request proto s = (Inr req, s1)" and "wait_for_route_policy v = None"
  shows "handle_local_conn ops env v proto s = (NoRoute, Inr LAnswered, s1\<lparr>tx := tx s1 @ reply_bytes REP_GENERAL_FAILURE\<rparr>)"
  using assms read_keeps [OF assms(3)] by (simp add: handle_local_conn_def)

end

interpretation socks5_front: front_end socks5_proto "\<lambda>rep. [5, rep, 0, 1, 0, 0, 0, 0, 0, 0]"
proof
  fix s :: stream and rep
  assume "tx_open s"
  then show "lp_reply socks5_proto rep s = (Inr (), s\<lparr>tx := tx s @ [5, rep, 0, 1, 0, 0, 0, 0, 0, 0]\<rparr>)"
    by (simp add: socks5_proto_def socks_reply.wr_enc)
next
  fix s req s'
  have "well_behaved (lp_read_request socks5_proto)" by (auto simp: socks5_proto_def intro!: wb)
  then show "lp_read_request socks5_proto s = (Inr req, s') \<Longrightarrow> tx_open s' = tx_open s"
    by (rule well_behavedD)
qed

definition http_reply_bytes :: "u8 \<Rightarrow> bytes" where
  "http_reply_bytes rep =
     (if rep = REP_SUCCESS then as_bytes ''HTTP/1.1 200 Connection Established'' @ crlf @ crlf
      else if rep = REP_NOT_ALLOWED then error_response 403 ''Forbidden''
      else error_response 502 ''Bad Gateway'')"

interpretation http_front: front_end http_proto http_reply_bytes
proof
  fix s :: stream and rep
  assume "tx_open s"
  then show "lp_reply http_proto rep s = (Inr (), s\<lparr>tx := tx s @ http_reply_bytes rep\<rparr>)"
    by (simp add: http_proto_def http_write_reply_def http_write_error_def http_reply_bytes_def write_all_open)
next
  fix s req s'
  show "lp_read_request http_proto s = (Inr req, s') \<Longrightarrow> tx_open s' = tx_open s"
    by (auto simp: http_proto_def io_inv http_read_request_Inr_iff)
qed

section \<open>Properties\<close>

text \<open>C14: The split tunnel leaks nothing either way. A local request is dialed from this device only
  when the route policy is known and neither covers nor reserves its target; it goes through
  the tunnel only when the policy is known and covers it, or the name is reserved, and
  over a connection that is live. With no policy known it goes nowhere.\<close>

theorem split_tunnel_routes:
  assumes "handle_local_conn ops env v proto s = (route, r, s')"
  shows "(route = NoRoute \<longrightarrow> (\<nexists>c up. r = Inr (LDirect c up)) \<and> (\<nexists>c up. r = Inr (LTunneled c up))) \<and>
    (route \<noteq> NoRoute \<longrightarrow> (\<exists>req s1 rs. lp_read_request proto s = (Inr req, s1) \<and>
      wait_for_route_policy v = Some rs \<and>
      (case route of
         DirectRoute \<Rightarrow> \<not> allows ops rs (lr_target req) \<and> \<not> reserved_target (lr_target req) \<and>
           (\<nexists>c up. r = Inr (LTunneled c up))
       | TunnelRoute \<Rightarrow> (allows ops rs (lr_target req) \<or> reserved_target (lr_target req)) \<and>
           wait_for_tunnel (lv_wait v) \<noteq> None \<and> (\<nexists>c up. r = Inr (LDirect c up)))))"
proof (cases "le_handshake_times_out env")
  case True
  with assms show ?thesis by (auto simp: handle_local_conn_def)
next
  case False
  have d: "direct_connect env proto t p s1 \<noteq> (Inr (LTunneled c up), s2)" for t p s1 c up s2
    by (auto simp: direct_connect_def io_inv split: if_splits sum.splits option.splits prod.splits)
  have t: "tunnel_connect env proto c t p s1 \<noteq> (Inr (LDirect c' up), s2)" for c t p s1 c' up s2
    by (auto simp: tunnel_connect_def io_inv split: if_splits sum.splits option.splits prod.splits)
  obtain rq s1 where read: "lp_read_request proto s = (rq, s1)" by fastforce
  show ?thesis
  proof (cases rq)
    case (Inl e)
    with assms read False show ?thesis by (auto simp: handle_local_conn_def)
  next
    case (Inr req)
    note h = assms [unfolded handle_local_conn_def read Inr]
    show ?thesis
    proof (cases "wait_for_route_policy v")
      case None
      with h False show ?thesis by auto
    next
      case (Some rs)
      have res: "(case lr_target req of TDomain host _ \<Rightarrow> is_reserved_host host | TIp _ \<Rightarrow> False) =
          reserved_target (lr_target req)"
        by (simp add: reserved_target_def)
      show ?thesis
      proof (cases "\<not> reserved_target (lr_target req) \<and> \<not> allows ops rs (lr_target req)")
        case True
        with h False Some have "route = DirectRoute"
          "direct_connect env proto (lr_target req) (upstream_preamble req) s1 = (r, s')"
          by (auto simp: Let_def res)
        with True Some read Inr d show ?thesis by auto
      next
        case on: False
        show ?thesis
        proof (cases "wait_for_tunnel (lv_wait v)")
          case None
          with h False Some on show ?thesis by (auto simp: Let_def res)
        next
          case (Some conn)
          with h False \<open>wait_for_route_policy v = Some rs\<close> on have "route = TunnelRoute"
            "tunnel_connect env proto conn (lr_target req) (upstream_preamble req) s1 = (r, s')"
            by (auto simp: Let_def res)
          with on Some \<open>wait_for_route_policy v = Some rs\<close> read Inr t show ?thesis by auto
        qed
      qed
    qed
  qed
qed

theorem split_tunnel_routes_witness:
  "let v = \<lparr>lv_policy = Some routed_set_default, lv_first_wait = \<lparr>tw_live = None, tw_hold_free = True, tw_recheck = None, tw_arrives = None\<rparr>,
         lv_policy_later = None, lv_wait = \<lparr>tw_live = Some 4, tw_hold_free = True, tw_recheck = None, tw_arrives = None\<rparr>\<rparr>;
       env = \<lparr>le_net = se_net sample_stream_env, le_socket = (\<lambda>_. sample_stream), le_open_bi = (\<lambda>_. Inl ([], [])),
         le_open_times_out = False, le_handshake_times_out = False\<rparr>;
       s = \<lparr>rx = [5, 1, 0, 5, 1, 0, 1, 10, 0, 0, 1, 0, 80], tx = [], tx_open = True\<rparr> in
   \<exists>r s'. handle_local_conn no_nets env v socks5_proto s = (DirectRoute, r, s') \<and> (\<nexists>c up. r = Inr (LTunneled c up))"
proof -
  let ?v = "\<lparr>lv_policy = Some routed_set_default, lv_first_wait = \<lparr>tw_live = None, tw_hold_free = True, tw_recheck = None, tw_arrives = None\<rparr>,
         lv_policy_later = None, lv_wait = \<lparr>tw_live = Some 4, tw_hold_free = True, tw_recheck = None, tw_arrives = None\<rparr>\<rparr> :: nat local_view"
  let ?env = "\<lparr>le_net = se_net sample_stream_env, le_socket = (\<lambda>_. sample_stream), le_open_bi = (\<lambda>_. Inl ([], [])),
         le_open_times_out = False, le_handshake_times_out = False\<rparr>"
  let ?s = "\<lparr>rx = [5, 1, 0, 5, 1, 0, 1, 10, 0, 0, 1, 0, 80], tx = [], tx_open = True\<rparr>"
  have read: "lp_read_request socks5_proto ?s =
      (Inr \<lparr>lr_target = TIp (SockV4 0x0A000001 80), upstream_preamble = None\<rparr>, \<lparr>rx = [], tx = [5, 0], tx_open = True\<rparr>)"
    unfolding socks5_proto_def by code_simp
  obtain r s' where run: "handle_local_conn no_nets ?env ?v socks5_proto ?s = (DirectRoute, r, s')"
    by (cases "direct_connect ?env socks5_proto (TIp (SockV4 0x0A000001 80)) None \<lparr>rx = [], tx = [5, 0], tx_open = True\<rparr>")
      (simp add: handle_local_conn_def read wait_for_route_policy_def allows_def allows_ip_def routed_set_default_def)
  from split_tunnel_routes [OF run] run show ?thesis unfolding Let_def by auto
qed

text \<open>C15: Every SOCKS5 request that is read is answered by exactly one reply, whatever the policy,
  the tunnel and the network do, and the reply says success exactly when the connection is
  then spliced.\<close>

theorem socks_request_answered_once:
  assumes "handle_local_conn ops env v socks5_proto s = (route, r, s')"
    and "\<not> le_handshake_times_out env" and "lp_read_request socks5_proto s = (Inr req, s1)" and "tx_open s"
  shows "\<exists>rep. tx s' = tx s1 @ [5, rep, 0, 1, 0, 0, 0, 0, 0, 0] \<and>
    (rep = REP_SUCCESS \<longleftrightarrow> (\<exists>c up. r = Inr (LDirect c up)) \<or> (\<exists>c up. r = Inr (LTunneled c up)))"
proof -
  have open1: "tx_open s1" using socks5_front.read_keeps [OF assms(3)] assms(4) by simp
  have none: "upstream_preamble req = None" using assms(3) by (auto simp: socks5_proto_def io_inv)
  have neq: "REP_GENERAL_FAILURE \<noteq> REP_SUCCESS" "REP_NET_UNREACHABLE \<noteq> REP_SUCCESS" by (simp_all add: rep_defs)
  note h = assms(1) [unfolded handle_local_conn_def assms(3)]
  show ?thesis
  proof (cases "wait_for_route_policy v")
    case None
    with h assms(2) open1 neq show ?thesis by (intro exI [of _ REP_GENERAL_FAILURE]) auto
  next
    case (Some rs)
    consider (direct) "direct_connect env socks5_proto (lr_target req) None s1 = (r, s')"
      | (down) "r = Inr LAnswered" "s' = snd (lp_reply socks5_proto REP_NET_UNREACHABLE s1)"
      | (tunnel) conn where "tunnel_connect env socks5_proto conn (lr_target req) None s1 = (r, s')"
      using h assms(2) Some none by (auto simp: Let_def split: if_splits option.splits)
    then show ?thesis
    proof cases
      case direct
      from socks5_front.direct_connect_outcome [OF open1 this] show ?thesis by auto
    next
      case down
      with open1 neq show ?thesis by (intro exI [of _ REP_NET_UNREACHABLE]) auto
    next
      case tunnel
      from socks5_front.tunnel_connect_outcome [OF open1 this] show ?thesis by auto
    qed
  qed
qed

text \<open>A policy that is never learned: the request is refused.\<close>

definition no_policy :: "nat local_view" where
  "no_policy = (let w = \<lparr>tw_live = None, tw_hold_free = True, tw_recheck = None, tw_arrives = None\<rparr> in
     \<lparr>lv_policy = None, lv_first_wait = w, lv_policy_later = None, lv_wait = w\<rparr>)"

definition closed_net :: "(nat, nat) local_env" where
  "closed_net = \<lparr>le_net = se_net sample_stream_env, le_socket = (\<lambda>_. sample_stream), le_open_bi = (\<lambda>_. Inl ([], [])),
     le_open_times_out = False, le_handshake_times_out = False\<rparr>"

theorem socks_request_answered_once_witness:
  "\<exists>route r s' rep. handle_local_conn no_nets closed_net no_policy socks5_proto
       \<lparr>rx = [5, 1, 0, 5, 1, 0, 1, 10, 0, 0, 1, 0, 80], tx = [], tx_open = True\<rparr> = (route, r, s') \<and>
     tx s' = [5, 0] @ [5, rep, 0, 1, 0, 0, 0, 0, 0, 0] \<and> rep \<noteq> REP_SUCCESS"
proof -
  let ?s = "\<lparr>rx = [5, 1, 0, 5, 1, 0, 1, 10, 0, 0, 1, 0, 80], tx = [], tx_open = True\<rparr>"
  have read: "lp_read_request socks5_proto ?s =
      (Inr \<lparr>lr_target = TIp (SockV4 0x0A000001 80), upstream_preamble = None\<rparr>, \<lparr>rx = [], tx = [5, 0], tx_open = True\<rparr>)"
    unfolding socks5_proto_def by code_simp
  have live: "\<not> le_handshake_times_out closed_net" by (simp add: closed_net_def)
  obtain route r s' where run: "handle_local_conn no_nets closed_net no_policy socks5_proto ?s = (route, r, s')"
    using prod_cases3 by blast
  then have "r = Inr LAnswered"
    by (auto simp: handle_local_conn_def read live wait_for_route_policy_def wait_for_tunnel_def no_policy_def Let_def)
  with socks_request_answered_once [OF run live read] run show ?thesis by auto
qed

end
