(* ===== verification/Client.thy ===== *)
theory Client
  imports Local_Proxy Listener
begin

text \<open>
  The client's session, \<^verbatim>\<open>src/crates/flextunnel-core/src/proxy/client.rs\<close>: the client's state and
  its setters, the handshake, establishing and maintaining a connection, and the loop
  \<^verbatim>\<open>manage_connection\<close> as a step relation, one rule per branch, with the two cells it
  publishes written in separate steps. The clock is part of the state. The invariants say
  what the front-ends may rely on: a published connection has a published policy, a policy
  is never withdrawn, and rebuilds of the endpoint are paced.
\<close>

section \<open>The client\<close>

definition CLIENT_HANDSHAKE_TIMEOUT :: duration where "CLIENT_HANDSHAKE_TIMEOUT = from_secs 10"

record tunnel_routes =
  tr_connected :: bool
  tr_domains :: "string list"
  tr_cidrs :: "string list"
  tr_host_aliases :: "(string \<times> string) list"
  tr_dns_forwards :: "(string \<times> string list) list"
  tr_bridges :: "bridge_summary list"

definition tunnel_routes_default :: tunnel_routes where
  "tunnel_routes_default = \<lparr>tr_connected = False, tr_domains = [], tr_cidrs = [], tr_host_aliases = [],
     tr_dns_forwards = [], tr_bridges = []\<rparr>"

text \<open>The client and the route policy that its accept loops share.\<close>

record 'n proxy_client =
  pcl_config :: client_config
  pcl_routes :: tunnel_routes
  pcl_current :: "connection option"
  pcl_policy :: "'n routed_set option"
  pcl_nonce :: u128
  pcl_tracker :: server_nonce_tracker
  duplicate_server :: bool
  local_close :: bool
  background :: bool
  network_available :: bool
  pcl_reconnect :: reconnect_status

definition proxy_client_new :: "client_config \<Rightarrow> u128 \<Rightarrow> 'n proxy_client" where
  "proxy_client_new config nonce = \<lparr>pcl_config = config, pcl_routes = tunnel_routes_default, pcl_current = None,
     pcl_policy = None, pcl_nonce = nonce, pcl_tracker = nonce_tracker_default, duplicate_server = False,
     local_close = False, background = False, network_available = True,
     pcl_reconnect = reconnect_status_default\<rparr>"

definition set_background :: "bool \<Rightarrow> 'n proxy_client \<Rightarrow> 'n proxy_client" where
  "set_background b cl = cl\<lparr>background := b\<rparr>"

definition set_network_available :: "bool \<Rightarrow> 'n proxy_client \<Rightarrow> 'n proxy_client" where
  "set_network_available b cl = cl\<lparr>network_available := b\<rparr>"

definition close_local_listeners :: "'n proxy_client \<Rightarrow> 'n proxy_client" where
  "close_local_listeners cl = cl\<lparr>local_close := True\<rparr>"

definition set_connected :: "bool \<Rightarrow> 'n proxy_client \<Rightarrow> 'n proxy_client" where
  "set_connected b cl = cl\<lparr>pcl_routes := (pcl_routes cl)\<lparr>tr_connected := b\<rparr>\<rparr>"

definition set_reconnect_status :: "reconnect_status \<Rightarrow> 'n proxy_client \<Rightarrow> 'n proxy_client" where
  "set_reconnect_status st cl = cl\<lparr>pcl_reconnect := st\<rparr>"

definition conn_paths :: "(connection \<Rightarrow> conn_path list) \<Rightarrow> 'n proxy_client \<Rightarrow> conn_path list" where
  "conn_paths connection_paths cl = (case pcl_current cl of Some conn \<Rightarrow> connection_paths conn | None \<Rightarrow> [])"

section \<open>Server-direct streams\<close>

definition forwarder_connect ::
  "('c, 'r) local_env \<Rightarrow> connection option \<Rightarrow> target \<Rightarrow> io_error + stream" where
  "forwarder_connect env current t =
     (case current of
        None \<Rightarrow> Inl (io_other ''tunnel is not connected'' [])
      | Some conn \<Rightarrow>
          if le_open_times_out env then Inl (io_other ''timed out opening server-direct forward'' [])
          else result_bind (open_tunnel env conn t) (\<lambda>(up, rep).
            if rep \<noteq> REP_SUCCESS
            then Inl (io_other ''server rejected target: {}'' [FStr (describe_reply rep)])
            else Inr up))"

section \<open>The handshake\<close>

text \<open>What the client calls: the JSON coding, the opening of the control stream and whether the
  deadline for the response passes, and connecting.\<close>

record client_env =
  cv_hello :: "hello \<Rightarrow> msg + bytes"
  cv_response :: "bytes \<Rightarrow> msg + hello_response"
  cv_open_bi :: "msg + unit"
  cv_times_out :: bool
  cv_parse_id :: "string \<Rightarrow> msg + endpoint_id"
  cv_parse_relay :: "string \<Rightarrow> msg + string"
  cv_connect :: "endpoint_addr \<Rightarrow> bytes \<Rightarrow> (msg + connection) option"
  cv_own_id :: endpoint_id

definition client_hello :: "endpoint_id \<Rightarrow> 'n proxy_client \<Rightarrow> hello" where
  "client_hello own cl =
     (let auth =
        (case cc_auth (pcl_config cl) of
           AuthKey p sg \<Rightarrow> Some \<lparr>public_key = p, endpoint_id = own,
             signature = sign_endpoint_id (AuthKey p sg) own\<rparr>
         | QuickAllowlisted \<Rightarrow> None) in
      (hello_new auth (pcl_nonce cl))\<lparr>duplicate_server_observed := duplicate_server cl\<rparr>)"

definition accept_response ::
  "'n net_ops \<Rightarrow> hello_response \<Rightarrow> 'n proxy_client \<Rightarrow> 'n routed_set proxy_result \<times> 'n proxy_client" where
  "accept_response ops response cl =
     (case observe_server_nonce (server_instance_nonce response) (pcl_tracker cl) (duplicate_server cl) of
        (newly_flagged, tracker, flagged) \<Rightarrow>
          let cl = cl\<lparr>pcl_tracker := tracker, duplicate_server := flagged\<rparr> in
          if \<not> accepted response
          then (Inl (AuthenticationFailed (case reject_reason response of Some r \<Rightarrow> r | None \<Rightarrow> (''unknown'', []))), cl)
          else if newly_flagged
          then (Inl (ConnectionLost
            (''duplicate server id detected; reconnecting to advise the server to self-block'', [])), cl)
          else (case routed_set_new ops (routed_domains response) (routed_cidrs response) of
             Inl e \<Rightarrow> (Inl (SignalingError (''server pushed an invalid routed set: {e}'', snd e)), cl)
           | Inr routed_set \<Rightarrow>
               (Inr routed_set, cl\<lparr>pcl_routes := \<lparr>tr_connected = True, tr_domains = routed_domains response,
                  tr_cidrs = routed_cidrs response, tr_host_aliases = host_aliases response,
                  tr_dns_forwards = dns_forwards response, tr_bridges = bridges response\<rparr>\<rparr>)))"

definition client_handshake ::
  "'n net_ops \<Rightarrow> client_env \<Rightarrow> 'n proxy_client \<Rightarrow> stream \<Rightarrow>
   'n routed_set proxy_result \<times> 'n proxy_client \<times> stream" where
  "client_handshake ops env cl s =
     (case cv_open_bi env of
        Inl e \<Rightarrow> (Inl (SignalingError (''Failed to open handshake stream: {e}'', snd e)), cl, s)
      | Inr _ \<Rightarrow>
          (case encode_hello (cv_hello env) (client_hello (cv_own_id env) cl) of
             Inl e \<Rightarrow> (Inl (Network e), cl, s)
           | Inr data \<Rightarrow>
               (case write_message data s of
                  (Inl e, s) \<Rightarrow> (Inl (Network e), cl, s)
                | (Inr _, s) \<Rightarrow>
                    if cv_times_out env
                    then (Inl (SignalingError (''timed out waiting for server handshake response'', [])), cl, s)
                    else (case read_message MAX_HANDSHAKE_SIZE s of
                        (Inl e, s) \<Rightarrow> (Inl (Network e), cl, s)
                      | (Inr data, s) \<Rightarrow>
                          (case decode_hello_response (cv_response env) data of
                             Inl e \<Rightarrow> (Inl (Network e), cl, s)
                           | Inr response \<Rightarrow>
                               (case accept_response ops response cl of (r, cl) \<Rightarrow> (r, cl, s)))))))"

section \<open>Establishing\<close>

fun add_relays :: "(string \<Rightarrow> msg + string) \<Rightarrow> string list \<Rightarrow> endpoint_addr \<Rightarrow> endpoint_addr proxy_result" where
  "add_relays parse [] addr = Inr addr"
| "add_relays parse (url # urls) addr =
     (case parse url of
        Inl e \<Rightarrow> Inl (config_with_source (''Invalid relay URL: {relay_url_str}'', [FStr url]))
      | Inr u \<Rightarrow> add_relays parse urls (addr\<lparr>addr_relays := addr_relays addr @ [u]\<rparr>))"

definition resolve_server_addr :: "client_env \<Rightarrow> client_config \<Rightarrow> endpoint_addr proxy_result" where
  "resolve_server_addr env cfg =
     (case cv_parse_id env (cc_server_node_id cfg) of
        Inl e \<Rightarrow> Inl (config_with_source (''Invalid server node ID: {}'', [FStr (cc_server_node_id cfg)]))
      | Inr server_id \<Rightarrow>
          if cc_relay_urls cfg = [] then Inr \<lparr>addr_id = server_id, addr_relays = []\<rparr>
          else add_relays (cv_parse_relay env) (cc_relay_urls cfg) \<lparr>addr_id = server_id, addr_relays = []\<rparr>)"

definition establish ::
  "'n net_ops \<Rightarrow> client_env \<Rightarrow> 'n proxy_client \<Rightarrow> stream \<Rightarrow>
   (connection \<times> 'n routed_set) proxy_result \<times> 'n proxy_client \<times> stream" where
  "establish ops env cl s =
     (case resolve_server_addr env (pcl_config cl) of
        Inl e \<Rightarrow> (Inl e, cl, s)
      | Inr addr \<Rightarrow>
          let alpn = (case cc_auth (pcl_config cl) of AuthKey _ _ \<Rightarrow> ALPN | QuickAllowlisted \<Rightarrow> QUICK_ALPN) in
          (case connect_with_timeout (cv_connect env addr alpn) of
             Inl e \<Rightarrow> (Inl e, cl, s)
           | Inr connection \<Rightarrow>
               (case client_handshake ops env cl s of
                  (Inl e, cl, s) \<Rightarrow> (Inl e, cl, s)
                | (Inr routed_set, cl, s) \<Rightarrow> (Inr (connection, routed_set), cl, s))))"

text \<open>How the maintenance of a connection ends: the heartbeat loop returns an error, or the
  connection is closed.\<close>

datatype maintain_end = HeartbeatFailed proxy_error | ConnClosed msg

definition maintain :: "maintain_end \<Rightarrow> unit proxy_result" where
  "maintain ev = (case ev of HeartbeatFailed e \<Rightarrow> Inl e | ConnClosed reason \<Rightarrow> Inl (ConnectionLost reason))"

section \<open>The connection manager\<close>

datatype 'n session_pc = MTop | MEstablish | MPublish connection "'n routed_set" | MPublishConn connection
  | MUp connection | MBackoff duration | MEnded "unit proxy_result"

text \<open>The local variables of the loop, the clock, and the times at which the endpoint was rebuilt
  in the current outage.\<close>

record 'n session =
  ss_client :: "'n proxy_client"
  ss_pc :: "'n session_pc"
  ss_attempt :: u32
  ss_last_rebuild :: "instant option"
  ss_path_returned :: bool
  ss_now :: instant
  ss_rebuilds :: "instant list"

definition session_start :: "client_config \<Rightarrow> u128 \<Rightarrow> instant \<Rightarrow> 'n session" where
  "session_start cfg nonce now = \<lparr>ss_client = proxy_client_new cfg nonce, ss_pc = MTop, ss_attempt = 0,
     ss_last_rebuild = None, ss_path_returned = False, ss_now = now, ss_rebuilds = []\<rparr>"

definition unpublish :: "'n proxy_client \<Rightarrow> 'n proxy_client" where
  "unpublish cl = (set_connected False cl)\<lparr>pcl_current := None\<rparr>"

text \<open>A failure: the next state of the loop is the wait or the end.\<close>

definition after_failure :: "nat \<Rightarrow> proxy_error \<Rightarrow> 'n session \<Rightarrow> 'n session" where
  "after_failure jitter e s =
     (case handle_failure (pcl_config (ss_client s)) (ss_now s) jitter e (ss_attempt s)
             (pcl_reconnect (ss_client s)) of
        (Inr backoff, attempt, st) \<Rightarrow>
          s\<lparr>ss_client := set_reconnect_status st (ss_client s), ss_attempt := attempt, ss_pc := MBackoff backoff\<rparr>
      | (Inl fatal, attempt, st) \<Rightarrow>
          s\<lparr>ss_client := set_reconnect_status st (ss_client s), ss_attempt := attempt, ss_pc := MEnded (Inl fatal)\<rparr>)"

inductive session_step :: "'n net_ops \<Rightarrow> 'n session \<Rightarrow> 'n session \<Rightarrow> bool" for ops where
  top_rebuild: "ss_pc s = MTop \<Longrightarrow> rebuild_due (ss_now s) (ss_attempt s) (ss_last_rebuild s) \<Longrightarrow>
    session_step ops s (s\<lparr>ss_client := unpublish (ss_client s), ss_last_rebuild := Some (ss_now s),
      ss_rebuilds := ss_rebuilds s @ [ss_now s], ss_pc := MEstablish\<rparr>)"
| top: "ss_pc s = MTop \<Longrightarrow> \<not> rebuild_due (ss_now s) (ss_attempt s) (ss_last_rebuild s) \<Longrightarrow>
    session_step ops s (s\<lparr>ss_client := unpublish (ss_client s), ss_pc := MEstablish\<rparr>)"
| established: "ss_pc s = MEstablish \<Longrightarrow> establish ops env (ss_client s) str = (Inr (c, rs), cl, str') \<Longrightarrow>
    session_step ops s (s\<lparr>ss_client := set_reconnect_status reconnect_status_default cl, ss_attempt := 0,
      ss_last_rebuild := None, ss_rebuilds := [], ss_pc := MPublish c rs\<rparr>)"
| not_established: "ss_pc s = MEstablish \<Longrightarrow> establish ops env (ss_client s) str = (Inl e, cl, str') \<Longrightarrow>
    jitter \<le> RECONNECT_JITTER_MAX_MS \<Longrightarrow>
    session_step ops s (after_failure jitter e (s\<lparr>ss_client := cl\<rparr>))"
| publish_policy: "ss_pc s = MPublish c rs \<Longrightarrow>
    session_step ops s (s\<lparr>ss_client := (ss_client s)\<lparr>pcl_policy := Some rs\<rparr>, ss_pc := MPublishConn c\<rparr>)"
| publish_conn: "ss_pc s = MPublishConn c \<Longrightarrow>
    session_step ops s (s\<lparr>ss_client := (ss_client s)\<lparr>pcl_current := Some c\<rparr>, ss_pc := MUp c\<rparr>)"
| dropped: "ss_pc s = MUp c \<Longrightarrow> maintain ev = Inl e \<Longrightarrow> jitter \<le> RECONNECT_JITTER_MAX_MS \<Longrightarrow>
    session_step ops s (after_failure jitter e (s\<lparr>ss_client := unpublish (ss_client s)\<rparr>))"
| finished: "ss_pc s = MUp c \<Longrightarrow> maintain ev = Inr () \<Longrightarrow>
    session_step ops s (s\<lparr>ss_client := unpublish (ss_client s), ss_pc := MEnded (Inr ())\<rparr>)"
| waited: "ss_pc s = MBackoff d \<Longrightarrow>
    wait_backoff (network_available (ss_client s)) (background (ss_client s)) wake (ss_now s) (ss_attempt s)
      (pcl_reconnect (ss_client s)) = (woken, attempt, st) \<Longrightarrow>
    woken \<or> (\<exists>at. next_attempt_at (pcl_reconnect (ss_client s)) = Some at \<and> at \<le> ss_now s) \<Longrightarrow>
    session_step ops s (s\<lparr>ss_client := set_reconnect_status st (ss_client s), ss_attempt := attempt,
      ss_path_returned := woken, ss_pc := MTop\<rparr>)"
| clock: "ss_now s \<le> now \<Longrightarrow> session_step ops s (s\<lparr>ss_now := now\<rparr>)"
| backgrounded: "session_step ops s (s\<lparr>ss_client := set_background b (ss_client s)\<rparr>)"
| network: "session_step ops s (s\<lparr>ss_client := set_network_available b (ss_client s)\<rparr>)"
| listeners_closed: "session_step ops s (s\<lparr>ss_client := close_local_listeners (ss_client s)\<rparr>)"

inductive_cases session_stepE: "session_step ops s s'"

section \<open>What the operations leave alone\<close>

lemma accept_response_keeps:
  "accept_response ops resp cl = (r, cl') \<Longrightarrow>
     pcl_current cl' = pcl_current cl \<and> pcl_policy cl' = pcl_policy cl \<and> pcl_config cl' = pcl_config cl \<and>
     tr_connected (pcl_routes cl') = (tr_connected (pcl_routes cl) \<or> (\<exists>rs. r = Inr rs))"
  by (auto simp: accept_response_def Let_def split: prod.splits if_splits sum.splits)

lemma client_handshake_keeps:
  assumes "client_handshake ops env cl s = (r, cl', s')"
  shows "pcl_current cl' = pcl_current cl \<and> pcl_policy cl' = pcl_policy cl \<and> pcl_config cl' = pcl_config cl \<and>
    tr_connected (pcl_routes cl') = (tr_connected (pcl_routes cl) \<or> (\<exists>rs. r = Inr rs))"
  using assms
  by (auto simp: client_handshake_def split: prod.splits if_splits sum.splits dest!: accept_response_keeps)

lemma establish_keeps:
  assumes "establish ops env cl s = (r, cl', s')"
  shows "pcl_current cl' = pcl_current cl \<and> pcl_policy cl' = pcl_policy cl \<and> pcl_config cl' = pcl_config cl \<and>
    tr_connected (pcl_routes cl') = (tr_connected (pcl_routes cl) \<or> (\<exists>x. r = Inr x))"
  using assms
  by (auto simp: establish_def Let_def split: prod.splits if_splits sum.splits dest!: client_handshake_keeps)

lemma unpublish_simps [simp]:
  "pcl_current (unpublish cl) = None" "pcl_policy (unpublish cl) = pcl_policy cl"
  "pcl_config (unpublish cl) = pcl_config cl" "tr_connected (pcl_routes (unpublish cl)) = False"
  by (simp_all add: unpublish_def set_connected_def)

lemma setter_simps [simp]:
  "pcl_current (set_reconnect_status st cl) = pcl_current cl" "pcl_policy (set_reconnect_status st cl) = pcl_policy cl"
  "pcl_routes (set_reconnect_status st cl) = pcl_routes cl" "pcl_config (set_reconnect_status st cl) = pcl_config cl"
  "pcl_current (set_background b cl) = pcl_current cl" "pcl_policy (set_background b cl) = pcl_policy cl"
  "pcl_routes (set_background b cl) = pcl_routes cl" "pcl_config (set_background b cl) = pcl_config cl"
  "pcl_current (set_network_available b cl) = pcl_current cl" "pcl_policy (set_network_available b cl) = pcl_policy cl"
  "pcl_routes (set_network_available b cl) = pcl_routes cl" "pcl_config (set_network_available b cl) = pcl_config cl"
  "pcl_current (close_local_listeners cl) = pcl_current cl" "pcl_policy (close_local_listeners cl) = pcl_policy cl"
  "pcl_routes (close_local_listeners cl) = pcl_routes cl" "pcl_config (close_local_listeners cl) = pcl_config cl"
  by (simp_all add: set_reconnect_status_def set_background_def set_network_available_def close_local_listeners_def)

lemma after_failure_simps:
  "pcl_current (ss_client (after_failure j e s)) = pcl_current (ss_client s)"
  "pcl_policy (ss_client (after_failure j e s)) = pcl_policy (ss_client s)"
  "pcl_routes (ss_client (after_failure j e s)) = pcl_routes (ss_client s)"
  "ss_last_rebuild (after_failure j e s) = ss_last_rebuild s" "ss_rebuilds (after_failure j e s) = ss_rebuilds s"
  "ss_now (after_failure j e s) = ss_now s"
  by (auto simp: after_failure_def split: prod.splits sum.splits)

lemma after_failure_pc:
  "(\<exists>d. ss_pc (after_failure j e s) = MBackoff d) \<or> (\<exists>x. ss_pc (after_failure j e s) = MEnded (Inl x))"
  by (auto simp: after_failure_def split: prod.splits sum.splits)

section \<open>The invariant\<close>

definition paced :: "instant list \<Rightarrow> bool" where
  "paced ts \<longleftrightarrow> sorted_wrt (\<lambda>a b. a + REBUILD_ENDPOINT_MIN_INTERVAL \<le> b) ts"

definition session_inv :: "'n session \<Rightarrow> bool" where
  "session_inv s \<longleftrightarrow>
     pcl_current (ss_client s) = (case ss_pc s of MUp c \<Rightarrow> Some c | _ \<Rightarrow> None) \<and>
     (tr_connected (pcl_routes (ss_client s)) \<longleftrightarrow>
        (case ss_pc s of MPublish _ _ \<Rightarrow> True | MPublishConn _ \<Rightarrow> True | MUp _ \<Rightarrow> True | _ \<Rightarrow> False)) \<and>
     (case ss_pc s of MPublishConn _ \<Rightarrow> pcl_policy (ss_client s) \<noteq> None
      | MUp _ \<Rightarrow> pcl_policy (ss_client s) \<noteq> None | _ \<Rightarrow> True) \<and>
     paced (ss_rebuilds s) \<and> (\<forall>t \<in> set (ss_rebuilds s). t \<le> ss_now s) \<and>
     ss_last_rebuild s = (if ss_rebuilds s = [] then None else Some (last (ss_rebuilds s)))"

lemma paced_snoc:
  assumes "paced ts" and "ts \<noteq> [] \<Longrightarrow> last ts + REBUILD_ENDPOINT_MIN_INTERVAL \<le> t"
  shows "paced (ts @ [t])"
proof (cases ts rule: rev_cases)
  case (snoc ys y)
  have "z + REBUILD_ENDPOINT_MIN_INTERVAL \<le> t" if "z \<in> set ys" for z
    using assms that by (fastforce simp: snoc paced_def sorted_wrt_append)
  with assms show ?thesis by (auto simp: snoc paced_def sorted_wrt_append)
qed (simp add: paced_def)

lemma rebuild_due_paced:
  assumes "session_inv s" and "rebuild_due (ss_now s) (ss_attempt s) (ss_last_rebuild s)"
  shows "paced (ss_rebuilds s @ [ss_now s])"
proof (rule paced_snoc)
  show "paced (ss_rebuilds s)" using assms(1) by (simp add: session_inv_def)
  assume ne: "ss_rebuilds s \<noteq> []"
  with assms have "last (ss_rebuilds s) \<le> ss_now s"
    "REBUILD_ENDPOINT_MIN_INTERVAL \<le> ss_now s - last (ss_rebuilds s)"
    by (auto simp: session_inv_def rebuild_due_def)
  then show "last (ss_rebuilds s) + REBUILD_ENDPOINT_MIN_INTERVAL \<le> ss_now s" by linarith
qed

lemma session_inv_after_failure:
  assumes "session_inv (s\<lparr>ss_pc := MTop\<rparr>)"
  shows "session_inv (after_failure j e s)"
  using after_failure_pc [of j e s] assms by (elim disjE exE) (simp_all add: session_inv_def after_failure_simps)

lemma session_inv_client:
  assumes "session_inv s" and "pcl_current cl = pcl_current (ss_client s)" and "pcl_policy cl = pcl_policy (ss_client s)"
    and "pcl_routes cl = pcl_routes (ss_client s)"
  shows "session_inv (s\<lparr>ss_client := cl\<rparr>)"
  using assms by (cases "ss_pc s") (simp_all add: session_inv_def)

lemma session_inv_step:
  assumes "session_inv s" and "session_step ops s s'"
  shows "session_inv s'"
  using assms(2)
proof cases
  case top_rebuild
  from rebuild_due_paced [OF assms(1) top_rebuild(3)] assms(1) show ?thesis
    unfolding top_rebuild(1) session_inv_def by simp
next
  case (established env str c rs cl str')
  with establish_keeps [OF established(3)] assms(1) show ?thesis by (simp add: session_inv_def paced_def)
next
  case (not_established env str e cl str' jitter)
  have "session_inv (s\<lparr>ss_client := cl, ss_pc := MTop\<rparr>)"
    using establish_keeps [OF not_established(3)] not_established(2) assms(1) by (simp add: session_inv_def)
  with not_established(1) show ?thesis using session_inv_after_failure [of "s\<lparr>ss_client := cl\<rparr>"] by simp
next
  case (dropped c ev e jitter)
  have "session_inv (s\<lparr>ss_client := unpublish (ss_client s), ss_pc := MTop\<rparr>)"
    using dropped(2) assms(1) by (simp add: session_inv_def)
  with dropped(1) show ?thesis using session_inv_after_failure [of "s\<lparr>ss_client := unpublish (ss_client s)\<rparr>"] by simp
next
  case (clock now)
  have "\<forall>t \<in> set (ss_rebuilds s). t \<le> now" using assms(1) clock(2) le_trans unfolding session_inv_def by blast
  with assms(1) show ?thesis unfolding clock(1) session_inv_def by (cases "ss_pc s") simp_all
next
  case (backgrounded b)
  with assms(1) show ?thesis by (simp add: session_inv_client)
next
  case (network b)
  with assms(1) show ?thesis by (simp add: session_inv_client)
next
  case listeners_closed
  with assms(1) show ?thesis by (simp add: session_inv_client)
qed (use assms(1) in \<open>simp_all add: session_inv_def\<close>)

interpretation sessions: invariant_system "\<lambda>s. \<exists>cfg nonce now. s = session_start cfg nonce now"
  "session_step ops" session_inv for ops
proof
  fix s :: "'a session"
  assume "\<exists>cfg nonce now. s = session_start cfg nonce now"
  then show "session_inv s"
    by (auto simp: session_start_def session_inv_def proxy_client_new_def tunnel_routes_default_def paced_def)
qed (rule session_inv_step)

lemma session_step_policy:
  assumes "session_step ops s s'" and "pcl_policy (ss_client s) \<noteq> None"
  shows "pcl_policy (ss_client s') \<noteq> None"
  using assms by (auto elim!: session_stepE simp: after_failure_simps dest: establish_keeps)

lemma session_steps_policy:
  assumes "(session_step ops)\<^sup>*\<^sup>* s s'" and "pcl_policy (ss_client s) \<noteq> None"
  shows "pcl_policy (ss_client s') \<noteq> None"
  using assms by (induction rule: rtranclp_induct) (auto dest: session_step_policy)

section \<open>Properties\<close>

text \<open>C16: A published connection always comes with a policy. In every reachable state of the
  session the connection cell is filled exactly while the connection is maintained, the
  policy is known then and in every later state, through every drop and reconnect, and the
  flag shown to the user is set exactly from the end of the handshake to the drop. So a
  request that was held before the first handshake and got a connection is never refused
  for want of a policy, at whatever moments it reads the two cells.\<close>

theorem published_connection_has_policy:
  assumes "(session_step ops)\<^sup>*\<^sup>* (session_start cfg nonce now) s0"
    and "(session_step ops)\<^sup>*\<^sup>* s0 s1" and "(session_step ops)\<^sup>*\<^sup>* s1 s2"
    and "lv_policy v = pcl_policy (ss_client s0)" and "lv_policy_later v = pcl_policy (ss_client s2)"
    and "wait_for_tunnel (lv_first_wait v) = pcl_current (ss_client s1)"
  shows "pcl_current (ss_client s1) = (case ss_pc s1 of MUp c \<Rightarrow> Some c | _ \<Rightarrow> None) \<and>
    (pcl_current (ss_client s1) \<noteq> None \<longrightarrow>
       pcl_policy (ss_client s1) \<noteq> None \<and> pcl_policy (ss_client s2) \<noteq> None \<and>
       tr_connected (pcl_routes (ss_client s1)) \<and> wait_for_route_policy v \<noteq> None)"
proof -
  have inv: "session_inv s1"
    by (rule sessions.reachable_inv [OF _ rtranclp_trans [OF assms(1,2)]]) blast
  then have cur: "pcl_current (ss_client s1) = (case ss_pc s1 of MUp c \<Rightarrow> Some c | _ \<Rightarrow> None)"
    by (simp add: session_inv_def)
  have "pcl_policy (ss_client s1) \<noteq> None \<and> pcl_policy (ss_client s2) \<noteq> None \<and>
      tr_connected (pcl_routes (ss_client s1)) \<and> wait_for_route_policy v \<noteq> None"
    if live: "pcl_current (ss_client s1) \<noteq> None"
  proof -
    from live cur obtain c where c: "ss_pc s1 = MUp c" by (auto split: session_pc.splits)
    with inv have p1: "pcl_policy (ss_client s1) \<noteq> None" "tr_connected (pcl_routes (ss_client s1))"
      by (simp_all add: session_inv_def)
    have p2: "pcl_policy (ss_client s2) \<noteq> None" by (rule session_steps_policy [OF assms(3) p1(1)])
    have "wait_for_route_policy v \<noteq> None"
      using live p2 assms(4-6) by (auto simp: wait_for_route_policy_def split: option.splits)
    with p1 p2 show ?thesis by blast
  qed
  with cur show ?thesis by blast
qed

text \<open>The endpoint is rebuilt at a bounded rate: within one outage, from losing the connection
  to the next successful handshake, any two rebuilds are at least the minimum interval
  apart, however often the backoff is cut short in between, and no rebuild lies in the
  future of the clock.\<close>

theorem rebuilds_are_paced:
  assumes "(session_step ops)\<^sup>*\<^sup>* (session_start cfg nonce now) s"
    and "i < j" and "j < length (ss_rebuilds s)"
  shows "ss_rebuilds s ! i + REBUILD_ENDPOINT_MIN_INTERVAL \<le> ss_rebuilds s ! j \<and> ss_rebuilds s ! j \<le> ss_now s"
proof -
  have inv: "session_inv s" by (rule sessions.reachable_inv [OF _ assms(1)]) blast
  then have "paced (ss_rebuilds s)" "ss_rebuilds s ! j \<le> ss_now s"
    using assms(3) by (simp_all add: session_inv_def)
  with sorted_wrt_nth_less [of "\<lambda>a b. a + REBUILD_ENDPOINT_MIN_INTERVAL \<le> b" "ss_rebuilds s" i j] assms(2,3)
  show ?thesis by (simp add: paced_def)
qed

section \<open>Runs for the witnesses\<close>

text \<open>One failed attempt: from the top of the loop back to it, with the clock at a later time.\<close>

definition down_env :: client_env where
  "down_env = \<lparr>cv_hello = (\<lambda>_. Inr []), cv_response = (\<lambda>_. Inl ([], [])), cv_open_bi = Inr (),
     cv_times_out = False, cv_parse_id = Inr, cv_parse_relay = Inr, cv_connect = (\<lambda>_ _. None), cv_own_id = ''c''\<rparr>"

definition retrying :: "'n session \<Rightarrow> bool" where
  "retrying s \<longleftrightarrow> ss_pc s = MTop \<and> auto_reconnect (pcl_config (ss_client s)) \<and>
     max_reconnect_attempts (pcl_config (ss_client s)) = None \<and> cc_relay_urls (pcl_config (ss_client s)) = [] \<and>
     network_available (ss_client s)"

lemma session_round:
  assumes "retrying s" and "ss_now s + from_secs 61 \<le> t"
  shows "\<exists>s'. (session_step ops)\<^sup>*\<^sup>* s s' \<and> retrying s' \<and> ss_attempt s' = ss_attempt s + 1 \<and> ss_now s' = t \<and>
    (if rebuild_due (ss_now s) (ss_attempt s) (ss_last_rebuild s)
     then ss_rebuilds s' = ss_rebuilds s @ [ss_now s] \<and> ss_last_rebuild s' = Some (ss_now s)
     else ss_rebuilds s' = ss_rebuilds s \<and> ss_last_rebuild s' = ss_last_rebuild s)"
proof -
  let ?due = "rebuild_due (ss_now s) (ss_attempt s) (ss_last_rebuild s)"
  define s1 where "s1 = (if ?due
    then s\<lparr>ss_client := unpublish (ss_client s), ss_last_rebuild := Some (ss_now s),
      ss_rebuilds := ss_rebuilds s @ [ss_now s], ss_pc := MEstablish\<rparr>
    else s\<lparr>ss_client := unpublish (ss_client s), ss_pc := MEstablish\<rparr>)"
  have step1: "session_step ops s s1"
    using assms(1) session_step.top_rebuild [of s ops] session_step.top [of s ops] by (simp add: s1_def retrying_def)
  have s1: "ss_client s1 = unpublish (ss_client s)" "ss_pc s1 = MEstablish" "ss_attempt s1 = ss_attempt s"
    "ss_now s1 = ss_now s"
    by (simp_all add: s1_def)
  let ?e = "SignalingError (''timed out connecting to server after {}s'', [FNat (as_secs CLIENT_CONNECT_TIMEOUT)])"
  have est: "establish ops down_env (ss_client s1) \<lparr>rx = [], tx = [], tx_open = True\<rparr> =
      (Inl ?e, ss_client s1, \<lparr>rx = [], tx = [], tx_open = True\<rparr>)"
    using assms(1) by (simp add: establish_def resolve_server_addr_def down_env_def connect_with_timeout_def s1 retrying_def)
  define s2 where "s2 = after_failure 0 ?e (s1\<lparr>ss_client := ss_client s1\<rparr>)"
  have step2: "session_step ops s1 s2" unfolding s2_def by (rule session_step.not_established [OF s1(2) est]) simp
  let ?d = "calculate_backoff (ss_attempt s + 1) 0"
  have fail: "s2 = s1\<lparr>ss_client := set_reconnect_status
      \<lparr>failed_attempts = ss_attempt s + 1, last_error = Some ?e, next_attempt_at = Some (ss_now s + ?d)\<rparr> (ss_client s1),
      ss_attempt := ss_attempt s + 1, ss_pc := MBackoff ?d\<rparr>"
    using assms(1) by (simp add: s2_def after_failure_def handle_failure_def is_recoverable_def s1 retrying_def Let_def)
  have d: "?d \<le> from_secs 61"
    using calculate_backoff_bounds [of 0 "ss_attempt s + 1"] by (simp add: from_secs_def from_millis_def)
  let ?s3 = "s2\<lparr>ss_now := t\<rparr>"
  have step3: "session_step ops s2 ?s3" using assms(2) by (intro session_step.clock) (simp add: fail s1)
  let ?s4 = "?s3\<lparr>ss_client := set_reconnect_status (pcl_reconnect (ss_client ?s3)) (ss_client ?s3),
    ss_attempt := ss_attempt ?s3, ss_path_returned := False, ss_pc := MTop\<rparr>"
  have step4: "session_step ops ?s3 ?s4"
  proof (rule session_step.waited [where d = ?d and wake = Elapsed])
    show "ss_pc ?s3 = MBackoff ?d" by (simp add: fail)
    show "wait_backoff (network_available (ss_client ?s3)) (background (ss_client ?s3)) Elapsed (ss_now ?s3)
        (ss_attempt ?s3) (pcl_reconnect (ss_client ?s3)) = (False, ss_attempt ?s3, pcl_reconnect (ss_client ?s3))"
      using assms(1) by (simp add: fail s1 wait_backoff_def retrying_def set_reconnect_status_def unpublish_def set_connected_def)
    show "False \<or> (\<exists>at. next_attempt_at (pcl_reconnect (ss_client ?s3)) = Some at \<and> at \<le> ss_now ?s3)"
      using d assms(2) by (simp add: fail set_reconnect_status_def)
  qed
  have "(session_step ops)\<^sup>*\<^sup>* s ?s4"
    using step1 step2 step3 step4 by (meson converse_rtranclp_into_rtranclp rtranclp.rtrancl_refl)
  moreover have "retrying ?s4" using assms(1)
    by (simp add: fail s1 retrying_def set_reconnect_status_def unpublish_def set_connected_def)
  moreover have "ss_attempt ?s4 = ss_attempt s + 1" "ss_now ?s4 = t" by (simp_all add: fail)
  moreover have "if ?due then ss_rebuilds ?s4 = ss_rebuilds s @ [ss_now s] \<and> ss_last_rebuild ?s4 = Some (ss_now s)
      else ss_rebuilds ?s4 = ss_rebuilds s \<and> ss_last_rebuild ?s4 = ss_last_rebuild s"
    by (simp add: fail s1_def)
  ultimately show ?thesis by blast
qed

definition sample_config :: client_config where
  "sample_config = \<lparr>cc_server_node_id = ''srv'', cc_auth = QuickAllowlisted, cc_socks_listen = None,
     cc_http_listen = None, cc_relay_urls = [], cc_relay_auth_token = None, auto_reconnect = True,
     max_reconnect_attempts = None\<rparr>"

lemma session_rounds:
  assumes "retrying s" and "n * from_secs 61 + ss_now s \<le> t" and "0 < n"
    and "\<And>k. k < n \<Longrightarrow> \<not> REBUILD_ENDPOINT_ATTEMPTS \<le> ss_attempt s + of_nat k"
  shows "\<exists>s'. (session_step ops)\<^sup>*\<^sup>* s s' \<and> retrying s' \<and> ss_attempt s' = ss_attempt s + of_nat n \<and> ss_now s' = t \<and>
    ss_rebuilds s' = ss_rebuilds s \<and> ss_last_rebuild s' = ss_last_rebuild s"
  using assms
proof (induction n arbitrary: t)
  case (Suc n)
  show ?case
  proof (cases "n = 0")
    case True
    have "\<not> rebuild_due (ss_now s) (ss_attempt s) (ss_last_rebuild s)"
      using Suc.prems(4) [of 0] by (simp add: rebuild_due_def)
    with session_round [OF Suc.prems(1), of t ops] Suc.prems(2) True show ?thesis by auto
  next
    case False
    let ?t = "n * from_secs 61 + ss_now s"
    from Suc.IH [OF Suc.prems(1), of ?t] Suc.prems(4) False obtain s1 where
      s1: "(session_step ops)\<^sup>*\<^sup>* s s1" "retrying s1" "ss_attempt s1 = ss_attempt s + of_nat n" "ss_now s1 = ?t"
        "ss_rebuilds s1 = ss_rebuilds s" "ss_last_rebuild s1 = ss_last_rebuild s"
      by auto
    have "\<not> rebuild_due (ss_now s1) (ss_attempt s1) (ss_last_rebuild s1)"
      using Suc.prems(4) [of n] s1(3) by (simp add: rebuild_due_def)
    with session_round [OF s1(2), of t ops] Suc.prems(2) s1(4) obtain s2 where
      s2: "(session_step ops)\<^sup>*\<^sup>* s1 s2" "retrying s2" "ss_attempt s2 = ss_attempt s1 + 1" "ss_now s2 = t"
        "ss_rebuilds s2 = ss_rebuilds s1" "ss_last_rebuild s2 = ss_last_rebuild s1"
      by auto
    have "(session_step ops)\<^sup>*\<^sup>* s s2" using s1(1) s2(1) by (rule rtranclp_trans)
    moreover have "ss_attempt s2 = ss_attempt s + of_nat (Suc n)" using s1(3) s2(3) by simp
    ultimately show ?thesis using s1 s2 by auto
  qed
qed simp

theorem rebuilds_are_paced_witness:
  "\<exists>s :: nat session. (session_step no_nets)\<^sup>*\<^sup>* (session_start sample_config 1 0) s \<and>
     length (ss_rebuilds s) = 2 \<and> ss_rebuilds s ! 0 + REBUILD_ENDPOINT_MIN_INTERVAL \<le> ss_rebuilds s ! 1"
proof -
  let ?s = "session_start sample_config 1 0 :: nat session"
  have r0: "retrying ?s" by (simp add: retrying_def session_start_def sample_config_def proxy_client_new_def)
  have a0: "ss_attempt ?s = 0" "ss_rebuilds ?s = []" "ss_last_rebuild ?s = None" "ss_now ?s = 0"
    by (simp_all add: session_start_def)
  have "\<not> REBUILD_ENDPOINT_ATTEMPTS \<le> ss_attempt ?s + of_nat k" if "k < 3" for k
  proof -
    from that have "k = 0 \<or> k = 1 \<or> k = 2" by auto
    then show ?thesis by (elim disjE) (simp_all add: a0 REBUILD_ENDPOINT_ATTEMPTS_def word_le_nat_alt)
  qed
  from session_rounds [OF r0, of 3 "from_secs 200" no_nets, OF _ _ this] obtain s1 where
    s1: "(session_step no_nets)\<^sup>*\<^sup>* ?s s1" "retrying s1" "ss_attempt s1 = 3" "ss_now s1 = from_secs 200"
      "ss_rebuilds s1 = []" "ss_last_rebuild s1 = None"
    by (auto simp: a0 from_secs_def)
  let ?t = "from_secs 200 + REBUILD_ENDPOINT_MIN_INTERVAL"
  have due1: "rebuild_due (ss_now s1) (ss_attempt s1) (ss_last_rebuild s1)"
    by (simp add: rebuild_due_def s1 REBUILD_ENDPOINT_ATTEMPTS_def)
  from session_round [OF s1(2), of ?t no_nets] due1 obtain s2 where
    s2: "(session_step no_nets)\<^sup>*\<^sup>* s1 s2" "retrying s2" "ss_attempt s2 = 4" "ss_now s2 = ?t"
      "ss_rebuilds s2 = [from_secs 200]" "ss_last_rebuild s2 = Some (from_secs 200)"
    by (auto simp: s1 REBUILD_ENDPOINT_MIN_INTERVAL_def from_secs_def)
  have due2: "rebuild_due (ss_now s2) (ss_attempt s2) (ss_last_rebuild s2)"
    by (simp add: rebuild_due_def s2 REBUILD_ENDPOINT_ATTEMPTS_def)
  from session_round [OF s2(2), of "?t + from_secs 61" no_nets] due2 obtain s3 where
    s3: "(session_step no_nets)\<^sup>*\<^sup>* s2 s3" "ss_rebuilds s3 = [from_secs 200, ?t]"
    by (auto simp: s2)
  have run: "(session_step no_nets)\<^sup>*\<^sup>* ?s s3" using s1(1) s2(1) s3(1) by (meson rtranclp_trans)
  have "ss_rebuilds s3 ! 0 + REBUILD_ENDPOINT_MIN_INTERVAL \<le> ss_rebuilds s3 ! 1"
    using rebuilds_are_paced [OF run, of 0 1] s3(2) by simp
  with run s3(2) show ?thesis by (intro exI [of _ s3]) simp
qed

definition up_env :: client_env where
  "up_env = down_env\<lparr>cv_connect := (\<lambda>_ _. Some (Inr 7)), cv_response := (\<lambda>_. Inr (response_accepted 9 no_routes))\<rparr>"

lemma sample_established:
  "\<exists>cl str'. establish no_nets up_env (ss_client (session_start sample_config 1 0 :: nat session))
     \<lparr>rx = enc_message [], tx = [], tx_open = True\<rparr> = (Inr (7, routed_set_default), cl, str')"
proof -
  have rs: "routed_set_new no_nets [] [] = Inr routed_set_default" by code_simp
  have w: "write_message [] \<lparr>rx = enc_message [], tx = [], tx_open = True\<rparr> =
      (Inr (), \<lparr>rx = enc_message [], tx = enc_message [], tx_open = True\<rparr>)"
    by code_simp
  have r: "read_message MAX_HANDSHAKE_SIZE \<lparr>rx = enc_message [], tx = enc_message [], tx_open = True\<rparr> =
      (Inr [], \<lparr>rx = [], tx = enc_message [], tx_open = True\<rparr>)"
    by code_simp
  show ?thesis
    by (simp add: establish_def resolve_server_addr_def up_env_def down_env_def session_start_def sample_config_def
        proxy_client_new_def connect_with_timeout_def client_handshake_def encode_hello_def json_result_def w r
        decode_hello_response_def accept_response_def response_accepted_def no_routes_def rs observe_server_nonce_def
        nonce_tracker_default_def)
qed

theorem published_connection_has_policy_witness:
  "\<exists>s1 :: nat session. (session_step no_nets)\<^sup>*\<^sup>* (session_start sample_config 1 0) s1 \<and>
     pcl_current (ss_client s1) = Some 7 \<and> pcl_policy (ss_client s1) \<noteq> None"
proof -
  let ?s = "session_start sample_config 1 0 :: nat session"
  let ?str = "\<lparr>rx = enc_message [], tx = [], tx_open = True\<rparr>"
  obtain cl str' where est: "establish no_nets up_env (ss_client ?s) ?str = (Inr (7, routed_set_default), cl, str')"
    using sample_established by blast
  let ?s1 = "?s\<lparr>ss_client := unpublish (ss_client ?s), ss_pc := MEstablish\<rparr>"
  have un: "unpublish (ss_client ?s) = ss_client ?s"
    by (simp add: session_start_def proxy_client_new_def unpublish_def set_connected_def tunnel_routes_default_def)
  have "session_step no_nets ?s ?s1"
    by (rule session_step.top) (simp_all add: session_start_def rebuild_due_def REBUILD_ENDPOINT_ATTEMPTS_def word_le_nat_alt)
  moreover let ?s2 = "?s1\<lparr>ss_client := set_reconnect_status reconnect_status_default cl, ss_attempt := 0,
    ss_last_rebuild := None, ss_rebuilds := [], ss_pc := MPublish 7 routed_set_default\<rparr>"
  have "session_step no_nets ?s1 ?s2"
    by (rule session_step.established [where env = up_env and str = ?str]) (simp_all add: un est)
  moreover let ?s3 = "?s2\<lparr>ss_client := (ss_client ?s2)\<lparr>pcl_policy := Some routed_set_default\<rparr>, ss_pc := MPublishConn 7\<rparr>"
  have "session_step no_nets ?s2 ?s3" by (rule session_step.publish_policy) simp
  moreover let ?s4 = "?s3\<lparr>ss_client := (ss_client ?s3)\<lparr>pcl_current := Some 7\<rparr>, ss_pc := MUp 7\<rparr>"
  have "session_step no_nets ?s3 ?s4" by (rule session_step.publish_conn) simp
  ultimately have run: "(session_step no_nets)\<^sup>*\<^sup>* ?s ?s4"
    by (meson converse_rtranclp_into_rtranclp rtranclp.rtrancl_refl)
  let ?w = "\<lparr>tw_live = Some 7, tw_hold_free = True, tw_recheck = None, tw_arrives = None\<rparr>"
  let ?v = "\<lparr>lv_policy = pcl_policy (ss_client ?s), lv_first_wait = ?w,
    lv_policy_later = pcl_policy (ss_client ?s4), lv_wait = ?w\<rparr>"
  have "pcl_policy (ss_client ?s4) \<noteq> None"
    using published_connection_has_policy [OF rtranclp.rtrancl_refl run rtranclp.rtrancl_refl, of ?v]
    by (simp add: wait_for_tunnel_def)
  moreover have "pcl_current (ss_client ?s4) = Some 7" by simp
  ultimately show ?thesis using run by blast
qed

end
