(* ===== verification/Forward.thy ===== *)
theory Forward
  imports Client "HOL-Library.AList"
begin

text \<open>
  Port forwards, \<^verbatim>\<open>src/crates/flextunnel-core/src/proxy/forward.rs\<close>: the manager that keeps one
  task per configured forward, the two listeners of a forward with their bind-and-retry
  loops, and the relays behind them. The lemmas show that the manager starts and stops
  exactly the difference between what runs and what is wanted, that the state it shows is
  the one of the sockets, that the relays of a forward are bounded, and that a listener
  never gives up.
\<close>

section \<open>Forwards and their state\<close>

record forward_spec =
  fs_id :: string
  fs_local_port :: u16
  fs_target :: target

datatype forward_state = Starting | Listening | Failed msg

record forward_status =
  fst_id :: string
  fst_state :: forward_state
  fst_active :: nat
  fst_last_conn_error :: "msg option"

definition STACK_V4 :: nat where "STACK_V4 = 0"

definition STACK_V6 :: nat where "STACK_V6 = 1"

record stack_health =
  sh_up :: bool
  sh_error :: "(error_kind \<times> msg) option"

definition stack_health_default :: stack_health where
  "stack_health_default = \<lparr>sh_up = False, sh_error = None\<rparr>"

definition health_up :: stack_health where
  "health_up = \<lparr>sh_up = True, sh_error = None\<rparr>"

definition health_down :: "io_error \<Rightarrow> stack_health" where
  "health_down e = \<lparr>sh_up = False, sh_error = Some (err_kind e, err_msg e)\<rparr>"

record forward_shared =
  fh_port :: u16
  fh_state :: forward_state
  fh_stacks :: "stack_health list"
  fh_active :: nat
  fh_last_conn_error :: "msg option"

definition forward_shared_new :: "u16 \<Rightarrow> forward_shared" where
  "forward_shared_new port =
     \<lparr>fh_port = port, fh_state = Starting, fh_stacks = [stack_health_default, stack_health_default],
      fh_active = 0, fh_last_conn_error = None\<rparr>"

definition set_stack :: "nat \<Rightarrow> stack_health \<Rightarrow> forward_shared \<Rightarrow> forward_shared" where
  "set_stack stack health sh =
     (let stacks = (fh_stacks sh)[stack := health] in
      sh\<lparr>fh_stacks := stacks,
         fh_state :=
           (if list_ex sh_up stacks then Listening
            else if list_all (\<lambda>s. sh_error s \<noteq> None) stacks then
              let in_use = list_ex (\<lambda>s. case sh_error s of Some (AddrInUse, _) \<Rightarrow> True | _ \<Rightarrow> False) stacks in
              Failed (if in_use then (''port {} is in use'', [FNat (unat (fh_port sh))])
                      else case sh_error (stacks ! STACK_V4) of Some (_, m) \<Rightarrow> m | None \<Rightarrow> ([], []))
            else Starting)\<rparr>)"

section \<open>The delay between attempts to bind\<close>

definition FORWARD_REBIND_BASE_BACKOFF :: duration where
  "FORWARD_REBIND_BASE_BACKOFF = from_millis 250"

definition FORWARD_REBIND_MAX_BACKOFF :: duration where
  "FORWARD_REBIND_MAX_BACKOFF = from_secs 5"

definition rebind_backoff :: "u32 \<Rightarrow> duration" where
  "rebind_backoff attempt =
     min (FORWARD_REBIND_BASE_BACKOFF * 2 ^ min (unat attempt) 5) FORWARD_REBIND_MAX_BACKOFF"

definition MAX_ACTIVE_RELAYS_PER_FORWARD :: nat where "MAX_ACTIVE_RELAYS_PER_FORWARD = 128"

lemma rebind_backoff_mono: "a \<le> b \<Longrightarrow> rebind_backoff a \<le> rebind_backoff b"
proof -
  assume "a \<le> b"
  then have "min (unat a) 5 \<le> min (unat b) 5" by (simp add: word_le_nat_alt min_le_iff_disj)
  then have "(2 :: nat) ^ min (unat a) 5 \<le> 2 ^ min (unat b) 5" by (rule power_increasing) simp
  then show ?thesis by (simp add: rebind_backoff_def min_le_iff_disj)
qed

interpretation forward_bind: backoff_series rebind_backoff "from_millis 250" "from_secs 5"
  by unfold_locales
    (simp_all add: rebind_backoff_mono, simp_all add: rebind_backoff_def FORWARD_REBIND_BASE_BACKOFF_def
      FORWARD_REBIND_MAX_BACKOFF_def from_millis_def from_secs_def)

section \<open>The manager\<close>

text \<open>A task is known by the number the runtime gave it. The runtime's part of the state is the
  next number and the tasks that were aborted.\<close>

record forward_task =
  ftk_spec :: forward_spec
  ftk_handle :: nat
  ftk_shared :: forward_shared

record forward_manager =
  fm_tasks :: "(string \<times> forward_task) list"
  fm_spawned :: nat
  fm_aborted :: "nat list"

definition spawn_forward :: "forward_spec \<Rightarrow> forward_manager \<Rightarrow> forward_manager" where
  "spawn_forward spec m =
     m\<lparr>fm_tasks := AList.update (fs_id spec)
         \<lparr>ftk_spec = spec, ftk_handle = fm_spawned m, ftk_shared = forward_shared_new (fs_local_port spec)\<rparr> (fm_tasks m),
       fm_spawned := Suc (fm_spawned m)\<rparr>"

definition spawn_missing :: "forward_spec \<Rightarrow> forward_manager \<Rightarrow> forward_manager" where
  "spawn_missing spec m =
     (if map_of (fm_tasks m) (fs_id spec) \<noteq> None then m else spawn_forward spec m)"

definition apply_forwards :: "forward_spec list \<Rightarrow> forward_manager \<Rightarrow> forward_manager" where
  "apply_forwards forwards m =
     (let desired = map_of (rev (map (\<lambda>f. (fs_id f, f)) forwards));
          keep = (\<lambda>(i, task). desired i = Some (ftk_spec task));
          m = m\<lparr>fm_tasks := filter keep (fm_tasks m),
                fm_aborted := fm_aborted m @ map (ftk_handle \<circ> snd) (filter (Not \<circ> keep) (fm_tasks m))\<rparr> in
      fold spawn_missing forwards m)"

definition forward_manager_new :: "forward_spec list \<Rightarrow> forward_manager" where
  "forward_manager_new forwards =
     apply_forwards forwards \<lparr>fm_tasks = [], fm_spawned = 0, fm_aborted = []\<rparr>"

definition forward_statuses :: "forward_manager \<Rightarrow> forward_status list" where
  "forward_statuses m =
     map (\<lambda>(i, task). \<lparr>fst_id = i, fst_state = fh_state (ftk_shared task), fst_active = fh_active (ftk_shared task),
       fst_last_conn_error = fh_last_conn_error (ftk_shared task)\<rparr>) (fm_tasks m)"

definition forward_manager_drop :: "forward_manager \<Rightarrow> forward_manager" where
  "forward_manager_drop m =
     m\<lparr>fm_tasks := [], fm_aborted := fm_aborted m @ map (ftk_handle \<circ> snd) (fm_tasks m)\<rparr>"

text \<open>The tasks that still run, and what the manager keeps true of them: it knows each running
  task under the identifier of its forward.\<close>

definition running_tasks :: "forward_manager \<Rightarrow> nat set" where
  "running_tasks m = {h. h < fm_spawned m \<and> h \<notin> set (fm_aborted m)}"

definition wf_manager :: "forward_manager \<Rightarrow> bool" where
  "wf_manager m \<longleftrightarrow>
     distinct (map fst (fm_tasks m)) \<and> distinct (map (ftk_handle \<circ> snd) (fm_tasks m)) \<and>
     (\<forall>(i, task) \<in> set (fm_tasks m). fs_id (ftk_spec task) = i) \<and>
     (\<forall>h \<in> set (fm_aborted m). h < fm_spawned m) \<and>
     (ftk_handle \<circ> snd) ` set (fm_tasks m) = running_tasks m"

section \<open>Reconciliation\<close>

definition drop_unwanted :: "forward_spec list \<Rightarrow> forward_manager \<Rightarrow> forward_manager" where
  "drop_unwanted forwards m =
     m\<lparr>fm_tasks := filter (\<lambda>(i, task). ftk_spec task \<in> set forwards) (fm_tasks m),
       fm_aborted := fm_aborted m @
         map (ftk_handle \<circ> snd) (filter (\<lambda>(i, task). ftk_spec task \<notin> set forwards) (fm_tasks m))\<rparr>"

lemma apply_forwards_split:
  assumes "wf_manager m" and "distinct (map fs_id forwards)"
  shows "apply_forwards forwards m = fold spawn_missing forwards (drop_unwanted forwards m)"
proof -
  have "map_of (rev (map (\<lambda>f. (fs_id f, f)) forwards)) i = Some f \<longleftrightarrow> f \<in> set forwards \<and> fs_id f = i" for i f
    using assms(2) by (subst map_of_eq_Some_iff) (auto simp: rev_map [symmetric] comp_def distinct_rev)
  then have "map_of (rev (map (\<lambda>f. (fs_id f, f)) forwards)) i = Some (ftk_spec task) \<longleftrightarrow> ftk_spec task \<in> set forwards"
    if "(i, task) \<in> set (fm_tasks m)" for i task
    using that assms(1) by (auto simp: wf_manager_def)
  then have "filter (\<lambda>(i, task). map_of (rev (map (\<lambda>f. (fs_id f, f)) forwards)) i = Some (ftk_spec task)) (fm_tasks m)
        = filter (\<lambda>(i, task). ftk_spec task \<in> set forwards) (fm_tasks m)"
    and "filter (Not \<circ> (\<lambda>(i, task). map_of (rev (map (\<lambda>f. (fs_id f, f)) forwards)) i = Some (ftk_spec task))) (fm_tasks m)
        = filter (\<lambda>(i, task). ftk_spec task \<notin> set forwards) (fm_tasks m)"
    by (auto intro!: filter_cong)
  then show ?thesis by (simp add: apply_forwards_def Let_def drop_unwanted_def)
qed

lemma distinct_map_partition: "distinct (map f xs) \<Longrightarrow> f ` set (filter P xs) \<inter> f ` set (filter (Not \<circ> P) xs) = {}"
  by (auto simp: distinct_map inj_on_def)

lemma wf_drop_unwanted:
  assumes "wf_manager m"
  shows "wf_manager (drop_unwanted forwards m)"
proof -
  let ?h = "ftk_handle \<circ> snd" and ?P = "\<lambda>(i, task). ftk_spec task \<in> set forwards"
  have neg: "(\<lambda>(i, task). ftk_spec task \<notin> set forwards) = Not \<circ> ?P" by auto
  have d: "distinct (map ?h (fm_tasks m))" using assms by (simp add: wf_manager_def)
  have img: "?h ` set (fm_tasks m) = ?h ` set (filter ?P (fm_tasks m)) \<union> ?h ` set (filter (Not \<circ> ?P) (fm_tasks m))"
    by auto
  have "?h ` set (filter ?P (fm_tasks m)) = running_tasks (drop_unwanted forwards m)"
    using assms distinct_map_partition [OF d, of ?P] img
    by (auto simp: wf_manager_def running_tasks_def drop_unwanted_def neg)
  moreover have "?h ` set (filter (Not \<circ> ?P) (fm_tasks m)) \<subseteq> running_tasks m"
    using assms by (auto simp: wf_manager_def)
  ultimately show ?thesis
    using assms by (auto simp: wf_manager_def drop_unwanted_def neg running_tasks_def distinct_map_filter)
qed

lemma update_new: "k \<notin> fst ` set xs \<Longrightarrow> AList.update k v xs = xs @ [(k, v)]"
  by (induction xs) auto

lemma wf_spawn_forward:
  assumes "wf_manager m" and "map_of (fm_tasks m) (fs_id spec) = None"
  shows "wf_manager (spawn_forward spec m)"
proof -
  have fresh: "fs_id spec \<notin> fst ` set (fm_tasks m)" using assms(2) by (simp add: map_of_eq_None_iff)
  have old: "(ftk_handle \<circ> snd) ` set (fm_tasks m) = running_tasks m" using assms(1) by (simp add: wf_manager_def)
  have "running_tasks (spawn_forward spec m) = insert (fm_spawned m) (running_tasks m)"
    using assms(1) by (auto simp: running_tasks_def spawn_forward_def wf_manager_def)
  moreover have "fm_spawned m \<notin> running_tasks m" by (simp add: running_tasks_def)
  ultimately show ?thesis
    using assms(1) fresh old by (auto simp: wf_manager_def spawn_forward_def update_new less_Suc_eq)
qed

text \<open>What the loop over the wanted forwards adds: the tasks it finds stay as they are, and
  every forward without one gets a new task.\<close>

lemma fold_spawn_missing:
  assumes "wf_manager m" and "distinct (map fs_id specs)"
    and "\<forall>(i, task) \<in> set (fm_tasks m). i \<in> fs_id ` set specs \<longrightarrow> ftk_spec task \<in> set specs"
  shows "wf_manager (fold spawn_missing specs m)
    \<and> set (fm_tasks m) \<subseteq> set (fm_tasks (fold spawn_missing specs m))
    \<and> (ftk_spec \<circ> snd) ` set (fm_tasks (fold spawn_missing specs m)) = (ftk_spec \<circ> snd) ` set (fm_tasks m) \<union> set specs
    \<and> fm_aborted (fold spawn_missing specs m) = fm_aborted m"
  using assms
proof (induction specs arbitrary: m)
  case (Cons spec specs)
  let ?m = "spawn_missing spec m"
  have wf: "wf_manager ?m" using Cons.prems(1) by (simp add: spawn_missing_def wf_spawn_forward)
  have known: "ftk_spec task = spec" if "(fs_id spec, task) \<in> set (fm_tasks m)" for task
  proof -
    have "ftk_spec task \<in> set (spec # specs)" "fs_id (ftk_spec task) = fs_id spec"
      using that Cons.prems(1,3) by (auto simp: wf_manager_def)
    with Cons.prems(2) show ?thesis by (auto simp: image_iff)
  qed
  have add: "set (fm_tasks m) \<subseteq> set (fm_tasks ?m)"
    "(ftk_spec \<circ> snd) ` set (fm_tasks ?m) = (ftk_spec \<circ> snd) ` set (fm_tasks m) \<union> {spec}" "fm_aborted ?m = fm_aborted m"
    using known
    by (auto simp: spawn_missing_def spawn_forward_def update_new map_of_eq_None_iff image_iff dest!: map_of_SomeD split: if_splits)
       (metis comp_apply snd_conv)+
  have "ftk_spec task \<in> set specs" if "(i, task) \<in> set (fm_tasks ?m)" "i \<in> fs_id ` set specs" for i task
  proof -
    have "ftk_spec task \<in> set (spec # specs) \<and> fs_id (ftk_spec task) = i"
      using that wf Cons.prems(3) by (auto simp: wf_manager_def spawn_missing_def spawn_forward_def update_new
          map_of_eq_None_iff split: if_splits)
    with that(2) Cons.prems(2) show ?thesis by auto
  qed
  then have "\<forall>(i, task) \<in> set (fm_tasks ?m). i \<in> fs_id ` set specs \<longrightarrow> ftk_spec task \<in> set specs" by blast
  from Cons.IH [OF wf _ this] Cons.prems(2) add show ?case by auto
qed simp

text \<open>After an update exactly the wanted forwards run.\<close>

lemma apply_forwards_specs:
  assumes "wf_manager m" and "distinct (map fs_id forwards)"
  shows "wf_manager (apply_forwards forwards m)"
    and "(ftk_spec \<circ> snd) ` set (fm_tasks (apply_forwards forwards m)) = set forwards"
    and "set (fm_tasks (drop_unwanted forwards m)) \<subseteq> set (fm_tasks (apply_forwards forwards m))"
    and "fm_aborted (apply_forwards forwards m) = fm_aborted (drop_unwanted forwards m)"
proof -
  let ?d = "drop_unwanted forwards m"
  have eq: "apply_forwards forwards m = fold spawn_missing forwards ?d" by (rule apply_forwards_split [OF assms])
  have pre: "ftk_spec task \<in> set forwards" if "(i, task) \<in> set (fm_tasks ?d)" for i task
    using that by (auto simp: drop_unwanted_def)
  then have "\<forall>(i, task) \<in> set (fm_tasks ?d). i \<in> fs_id ` set forwards \<longrightarrow> ftk_spec task \<in> set forwards" by blast
  note fold = fold_spawn_missing [OF wf_drop_unwanted [OF assms(1)] assms(2) this, folded eq]
  show "wf_manager (apply_forwards forwards m)"
    "set (fm_tasks ?d) \<subseteq> set (fm_tasks (apply_forwards forwards m))"
    "fm_aborted (apply_forwards forwards m) = fm_aborted ?d" using fold by blast+
  show "(ftk_spec \<circ> snd) ` set (fm_tasks (apply_forwards forwards m)) = set forwards" using fold pre by auto
qed

text \<open>C24: Applying a list of forwards does exactly what changed. Afterwards the running tasks are
  those of the wanted forwards, one each; a task whose forward is wanted unchanged is the
  same task as before, undisturbed, and every other one is aborted. Applying the same list
  again changes nothing, and dropping the manager leaves no task running.\<close>

theorem apply_reconciles:
  assumes "wf_manager m" and "distinct (map fs_id forwards)"
  shows "wf_manager (apply_forwards forwards m) \<and>
    (ftk_spec \<circ> snd) ` set (fm_tasks (apply_forwards forwards m)) = set forwards \<and>
    (\<forall>(i, task) \<in> set (fm_tasks m).
       (if ftk_spec task \<in> set forwards then (i, task) \<in> set (fm_tasks (apply_forwards forwards m))
        else ftk_handle task \<notin> running_tasks (apply_forwards forwards m))) \<and>
    apply_forwards forwards (apply_forwards forwards m) = apply_forwards forwards m \<and>
    running_tasks (forward_manager_drop (apply_forwards forwards m)) = {}"
proof -
  let ?d = "drop_unwanted forwards m" and ?m = "apply_forwards forwards m"
  note wf = apply_forwards_specs(1) [OF assms] and specs = apply_forwards_specs(2) [OF assms]
    and keep = apply_forwards_specs(3) [OF assms] and ab = apply_forwards_specs(4) [OF assms]
  have "if ftk_spec task \<in> set forwards then (i, task) \<in> set (fm_tasks ?m) else ftk_handle task \<notin> running_tasks ?m"
    if "(i, task) \<in> set (fm_tasks m)" for i task
    using that keep ab by (auto simp: drop_unwanted_def running_tasks_def image_iff)
  moreover have "apply_forwards forwards ?m = ?m"
  proof -
    have "ftk_spec task \<in> set forwards" if "(i, task) \<in> set (fm_tasks ?m)" for i task
      using specs that by force
    then have "filter (\<lambda>(i, task). ftk_spec task \<in> set forwards) (fm_tasks ?m) = fm_tasks ?m"
      "filter (\<lambda>(i, task). ftk_spec task \<notin> set forwards) (fm_tasks ?m) = []"
      by (auto simp: filter_id_conv filter_empty_conv)
    then have "drop_unwanted forwards ?m = ?m" by (simp add: drop_unwanted_def)
    moreover have "fold spawn_missing fs ?m = ?m" if "set fs \<subseteq> set forwards" for fs
      using that
    proof (induction fs)
      case (Cons f fs)
      then have "f \<in> (ftk_spec \<circ> snd) ` set (fm_tasks ?m)" using specs by auto
      then have "map_of (fm_tasks ?m) (fs_id f) \<noteq> None"
        using wf by (fastforce simp: wf_manager_def map_of_eq_None_iff)
      with Cons show ?case by (simp add: spawn_missing_def)
    qed simp
    ultimately show ?thesis by (simp add: apply_forwards_split [OF wf assms(2)])
  qed
  moreover have "running_tasks (forward_manager_drop ?m) = {}"
    using wf by (auto simp: wf_manager_def forward_manager_drop_def running_tasks_def)
  ultimately show ?thesis using wf specs by blast
qed

text \<open>A manager starts well formed.\<close>

lemma wf_manager_empty: "wf_manager \<lparr>fm_tasks = [], fm_spawned = 0, fm_aborted = []\<rparr>"
  by (simp add: wf_manager_def running_tasks_def)

lemma wf_forward_manager_new: "distinct (map fs_id forwards) \<Longrightarrow> wf_manager (forward_manager_new forwards)"
  unfolding forward_manager_new_def apply_forwards_split [OF wf_manager_empty]
  by (rule conjunct1 [OF fold_spawn_missing [OF wf_drop_unwanted [OF wf_manager_empty]]])
    (simp_all add: drop_unwanted_def)

definition sample_forward :: forward_spec where
  "sample_forward = \<lparr>fs_id = ''a'', fs_local_port = 8080, fs_target = TDomain ''wiki'' 80\<rparr>"

theorem apply_reconciles_witness:
  "let m = forward_manager_new [sample_forward, sample_forward\<lparr>fs_id := ''b''\<rparr>];
       new = [sample_forward, sample_forward\<lparr>fs_id := ''b'', fs_local_port := 81\<rparr>];
       m' = apply_forwards new m in
   (ftk_spec \<circ> snd) ` set (fm_tasks m') = set new \<and> running_tasks m' = {0, 2} \<and>
   running_tasks (forward_manager_drop m') = {}"
proof -
  let ?m = "forward_manager_new [sample_forward, sample_forward\<lparr>fs_id := ''b''\<rparr>]"
  let ?new = "[sample_forward, sample_forward\<lparr>fs_id := ''b'', fs_local_port := 81\<rparr>]"
  have d: "distinct (map fs_id ?new)" and wf: "wf_manager ?m"
    by (simp_all add: sample_forward_def wf_forward_manager_new)
  have "fm_spawned (apply_forwards ?new ?m) = 3" "fm_aborted (apply_forwards ?new ?m) = [1]"
    unfolding forward_manager_new_def apply_forwards_def sample_forward_def spawn_missing_def spawn_forward_def
    by (simp_all add: Let_def)
  then have "running_tasks (apply_forwards ?new ?m) = {0, 2}" by (auto simp: running_tasks_def)
  with apply_reconciles [OF wf d] show ?thesis unfolding Let_def by blast
qed

section \<open>The listeners and relays of a forward\<close>

text \<open>Where the task of one stack is: about to bind for the given attempt, sleeping after a
  failed one, accepting, sleeping after a failed accept, handing over a connection, ended
  abnormally, or reaped by the supervising task.\<close>

datatype stack_pc = SBind u32 | SBackoff u32 | SAccept | SSleep | SSend | SCrashed msg | SGone

record stack_task =
  sk_pc :: stack_pc
  sk_retry :: accept_retry

datatype forward_pc = FRecv | FPermit | FEnded

text \<open>The forward's task, its two stacks, the channel of capacity one between them, and its
  relays: the spawned ones that have not run yet hold a permit but are not counted as active.\<close>

record forward_run =
  fr_pc :: forward_pc
  fr_shared :: forward_shared
  fr_stacks :: "stack_task list"
  fr_queue :: nat
  fr_permits :: nat
  fr_spawned :: nat

definition forward_start :: "forward_spec \<Rightarrow> forward_run" where
  "forward_start spec =
     \<lparr>fr_pc = FRecv, fr_shared = forward_shared_new (fs_local_port spec),
      fr_stacks = [\<lparr>sk_pc = SBind 0, sk_retry = accept_retry_new\<rparr>, \<lparr>sk_pc = SBind 0, sk_retry = accept_retry_new\<rparr>],
      fr_queue = 0, fr_permits = MAX_ACTIVE_RELAYS_PER_FORWARD, fr_spawned = 0\<rparr>"

abbreviation stack_at :: "forward_run \<Rightarrow> nat \<Rightarrow> stack_pc" where
  "stack_at s i \<equiv> sk_pc (fr_stacks s ! i)"

definition set_task :: "nat \<Rightarrow> stack_pc \<Rightarrow> accept_retry \<Rightarrow> forward_run \<Rightarrow> forward_run" where
  "set_task i pc r s = s\<lparr>fr_stacks := (fr_stacks s)[i := \<lparr>sk_pc = pc, sk_retry = r\<rparr>]\<rparr>"

definition report :: "nat \<Rightarrow> stack_health \<Rightarrow> forward_run \<Rightarrow> forward_run" where
  "report i h s = s\<lparr>fr_shared := set_stack i h (fr_shared s)\<rparr>"

definition relays :: "forward_run \<Rightarrow> nat" where
  "relays s = fr_spawned s + fh_active (fr_shared s)"

definition stack_label :: "nat \<Rightarrow> string" where
  "stack_label i = (if i = STACK_V4 then ''IPv4'' else ''IPv6'')"

text \<open>Ending the task, by returning or by being aborted, aborts its relays and stacks.\<close>

definition end_forward :: "forward_run \<Rightarrow> forward_run" where
  "end_forward s = s\<lparr>fr_pc := FEnded, fr_shared := (fr_shared s)\<lparr>fh_active := 0\<rparr>,
     fr_stacks := map (\<lambda>t. t\<lparr>sk_pc := SGone\<rparr>) (fr_stacks s), fr_queue := 0,
     fr_permits := fr_permits s + relays s, fr_spawned := 0\<rparr>"

inductive forward_step :: "forward_run \<Rightarrow> forward_run \<Rightarrow> bool" where
  bind_failed: "i < 2 \<Longrightarrow> stack_at s i = SBind a \<Longrightarrow>
    forward_step s (set_task i (SBackoff a) (sk_retry (fr_stacks s ! i)) (report i (health_down e) s))"
| backed_off: "i < 2 \<Longrightarrow> stack_at s i = SBackoff a \<Longrightarrow>
    forward_step s (set_task i (SBind (saturating_inc a)) (sk_retry (fr_stacks s ! i)) s)"
| bound: "i < 2 \<Longrightarrow> stack_at s i = SBind a \<Longrightarrow>
    forward_step s (set_task i SAccept (record_rebind (sk_retry (fr_stacks s ! i))) (report i health_up s))"
| accepted: "i < 2 \<Longrightarrow> stack_at s i = SAccept \<Longrightarrow>
    forward_step s (set_task i SSend (record_success (sk_retry (fr_stacks s ! i))) s)"
| sent: "i < 2 \<Longrightarrow> stack_at s i = SSend \<Longrightarrow> fr_queue s = 0 \<Longrightarrow>
    forward_step s (set_task i SAccept (sk_retry (fr_stacks s ! i)) (s\<lparr>fr_queue := 1\<rparr>))"
| retry: "i < 2 \<Longrightarrow> stack_at s i = SAccept \<Longrightarrow> record_error e (sk_retry (fr_stacks s ! i)) = (Retry, r) \<Longrightarrow>
    forward_step s (set_task i SSleep (wait_retry r) s)"
| slept: "i < 2 \<Longrightarrow> stack_at s i = SSleep \<Longrightarrow>
    forward_step s (set_task i SAccept (sk_retry (fr_stacks s ! i)) s)"
| dead: "i < 2 \<Longrightarrow> stack_at s i = SAccept \<Longrightarrow> record_error (raw, e) (sk_retry (fr_stacks s ! i)) = (Rebind, r) \<Longrightarrow>
    forward_step s (set_task i (SBind 0) r (report i (health_down e) s))"
| crashed: "i < 2 \<Longrightarrow> stack_at s i \<noteq> SGone \<Longrightarrow>
    forward_step s (set_task i (SCrashed detail) (sk_retry (fr_stacks s ! i)) s)"
| reaped: "i < 2 \<Longrightarrow> stack_at s i = SCrashed detail \<Longrightarrow> fr_pc s = FRecv \<Longrightarrow>
    forward_step s (set_task i SGone (sk_retry (fr_stacks s ! i))
      (report i (health_down (io_other (stack_label i @ '' listener task {detail}'') (snd detail))) s))"
| received: "fr_pc s = FRecv \<Longrightarrow> fr_queue s = Suc n \<Longrightarrow>
    forward_step s (s\<lparr>fr_queue := n, fr_pc := FPermit\<rparr>)"
| no_senders: "fr_pc s = FRecv \<Longrightarrow> fr_queue s = 0 \<Longrightarrow> \<forall>i < 2. stack_at s i = SGone \<or> (\<exists>d. stack_at s i = SCrashed d) \<Longrightarrow>
    forward_step s (end_forward s)"
| permitted: "fr_pc s = FPermit \<Longrightarrow> fr_permits s = Suc n \<Longrightarrow>
    forward_step s (s\<lparr>fr_permits := n, fr_spawned := Suc (fr_spawned s), fr_pc := FRecv\<rparr>)"
| relay_started: "fr_spawned s = Suc n \<Longrightarrow>
    forward_step s (s\<lparr>fr_spawned := n, fr_shared := (fr_shared s)\<lparr>fh_active := Suc (fh_active (fr_shared s))\<rparr>\<rparr>)"
| relay_ended: "fh_active (fr_shared s) = Suc n \<Longrightarrow>
    forward_step s (s\<lparr>fr_permits := Suc (fr_permits s),
      fr_shared := (fr_shared s)\<lparr>fh_active := n, fh_last_conn_error := outcome\<rparr>\<rparr>)"
| aborted: "forward_step s (end_forward s)"

inductive_cases forward_stepE: "forward_step s s'"

lemma relays_simps [simp]:
  "relays (set_task i pc r s) = relays s" "relays (report i h s) = relays s"
  "fr_permits (set_task i pc r s) = fr_permits s" "fr_permits (report i h s) = fr_permits s"
  "fr_pc (set_task i pc r s) = fr_pc s" "fr_pc (report i h s) = fr_pc s"
  by (simp_all add: relays_def set_task_def report_def set_stack_def Let_def)

interpretation forward_relays: permit_pool "\<lambda>s. \<exists>spec. s = forward_start spec" forward_step fr_permits
  relays MAX_ACTIVE_RELAYS_PER_FORWARD
proof unfold_locales
  fix s :: forward_run
  assume "\<exists>spec. s = forward_start spec"
  then show "fr_permits s + relays s = MAX_ACTIVE_RELAYS_PER_FORWARD"
    by (auto simp: forward_start_def relays_def forward_shared_new_def)
next
  fix s s' assume "forward_step s s'"
  then show "fr_permits s' + relays s' = fr_permits s + relays s"
    by cases (simp_all, simp_all add: relays_def end_forward_def)
qed

text \<open>The socket of a stack is open exactly in these places of its task.\<close>

definition listens :: "forward_run \<Rightarrow> nat \<Rightarrow> bool" where
  "listens s i \<longleftrightarrow> stack_at s i \<in> {SAccept, SSleep, SSend}"

definition crashed :: "forward_run \<Rightarrow> nat \<Rightarrow> bool" where
  "crashed s i \<longleftrightarrow> (\<exists>d. stack_at s i = SCrashed d)"

text \<open>What \<^verbatim>\<open>set_stack\<close> keeps: the state shown is the one of the recorded healths.\<close>

definition folded :: "forward_shared \<Rightarrow> bool" where
  "folded sh \<longleftrightarrow> length (fh_stacks sh) = 2 \<and>
     (fh_state sh = Listening \<longleftrightarrow> sh_up (fh_stacks sh ! 0) \<or> sh_up (fh_stacks sh ! 1)) \<and>
     (\<forall>m. fh_state sh = Failed m \<longrightarrow> (\<forall>i < 2. \<not> sh_up (fh_stacks sh ! i) \<and> sh_error (fh_stacks sh ! i) \<noteq> None))"

definition forward_inv :: "forward_run \<Rightarrow> bool" where
  "forward_inv s \<longleftrightarrow> length (fr_stacks s) = 2 \<and> folded (fr_shared s) \<and>
     (fr_pc s \<noteq> FEnded \<longrightarrow> (\<forall>i < 2.
       (listens s i \<longrightarrow> sh_up (fh_stacks (fr_shared s) ! i)) \<and>
       (sh_up (fh_stacks (fr_shared s) ! i) \<longrightarrow> listens s i \<or> crashed s i)))"

lemma set_stack_simps [simp]:
  "fh_stacks (set_stack i h sh) = (fh_stacks sh)[i := h]" "fh_active (set_stack i h sh) = fh_active sh"
  by (simp_all add: set_stack_def Let_def)

lemma set_stack_state:
  "fh_state (set_stack i h sh) = Listening \<longleftrightarrow> list_ex sh_up ((fh_stacks sh)[i := h])"
  "fh_state (set_stack i h sh) = Failed m \<Longrightarrow>
     \<not> list_ex sh_up ((fh_stacks sh)[i := h]) \<and> list_all (\<lambda>s. sh_error s \<noteq> None) ((fh_stacks sh)[i := h])"
  by (simp_all add: set_stack_def Let_def split: if_splits)

lemma folded_set_stack:
  assumes "length (fh_stacks sh) = 2"
  shows "folded (set_stack i h sh)"
proof -
  let ?st = "(fh_stacks sh)[i := h]"
  have len: "length ?st = 2" using assms by simp
  then have two: "list_ex P ?st \<longleftrightarrow> P (?st ! 0) \<or> P (?st ! 1)" for P
    by (auto simp: list_ex_length less_2_cases_iff)
  have "fh_state (set_stack i h sh) = Listening \<longleftrightarrow> sh_up (?st ! 0) \<or> sh_up (?st ! 1)"
    unfolding set_stack_state(1) two ..
  moreover have "\<not> sh_up (?st ! j) \<and> sh_error (?st ! j) \<noteq> None"
    if "fh_state (set_stack i h sh) = Failed m" "j < 2" for m j
    using set_stack_state(2) [OF that(1)] that(2) len by (simp add: list_all_length list_ex_length)
  ultimately show ?thesis unfolding folded_def by (simp add: assms)
qed

lemma folded_frame [simp]:
  "folded (sh\<lparr>fh_active := n\<rparr>) = folded sh" "folded (sh\<lparr>fh_last_conn_error := e\<rparr>) = folded sh"
  by (simp_all add: folded_def)

lemma forward_inv_quiet:
  assumes "forward_inv s" and "fr_stacks s' = fr_stacks s" and "fh_stacks (fr_shared s') = fh_stacks (fr_shared s)"
    and "fh_state (fr_shared s') = fh_state (fr_shared s)" and "fr_pc s = FEnded \<longrightarrow> fr_pc s' = FEnded"
  shows "forward_inv s'"
  using assms unfolding forward_inv_def folded_def listens_def crashed_def by auto

text \<open>A step of one stack: its task moves and possibly reports, in a way that fits its place.\<close>

lemma stack_at_set_task:
  "length (fr_stacks s) = 2 \<Longrightarrow> j < 2 \<Longrightarrow> stack_at (set_task i pc r s) j = (if j = i then pc else stack_at s j)"
  by (simp add: set_task_def nth_list_update)

lemma set_task_shared [simp]: "fr_shared (set_task i pc r s) = fr_shared s"
  by (simp add: set_task_def)

lemma forward_inv_stack:
  assumes "forward_inv s" and "i < 2" and "sh_up h \<longleftrightarrow> pc \<in> {SAccept, SSleep, SSend}"
  shows "forward_inv (set_task i pc r (report i h s))"
proof -
  have len: "length (fr_stacks s) = 2" "length (fh_stacks (fr_shared s)) = 2"
    using assms(1) by (simp_all add: forward_inv_def folded_def)
  let ?s = "set_task i pc r (report i h s)"
  have at: "stack_at ?s j = (if j = i then pc else stack_at s j)"
    and up: "fh_stacks (fr_shared ?s) ! j = (if j = i then h else fh_stacks (fr_shared s) ! j)" if "j < 2" for j
    using len that by (simp_all add: set_task_def report_def nth_list_update)
  have "(listens ?s j \<longrightarrow> sh_up (fh_stacks (fr_shared ?s) ! j)) \<and>
      (sh_up (fh_stacks (fr_shared ?s) ! j) \<longrightarrow> listens ?s j \<or> crashed ?s j)" if "fr_pc s \<noteq> FEnded" "j < 2" for j
  proof (cases "j = i")
    case True
    with assms(3) show ?thesis unfolding listens_def at [OF that(2)] up [OF that(2)] by simp
  next
    case False
    with assms(1) that show ?thesis
      unfolding listens_def crashed_def at [OF that(2)] up [OF that(2)] by (simp add: forward_inv_def listens_def crashed_def)
  qed
  moreover have "folded (fr_shared ?s)" using folded_set_stack [OF len(2)] by (simp add: report_def)
  ultimately show ?thesis using len(1) by (simp add: forward_inv_def) (simp add: set_task_def report_def)
qed

lemma forward_inv_move:
  assumes "forward_inv s" and "i < 2"
    and "listens s i \<or> crashed s i \<Longrightarrow> pc \<in> {SAccept, SSleep, SSend} \<or> (\<exists>d. pc = SCrashed d)"
    and "pc \<in> {SAccept, SSleep, SSend} \<Longrightarrow> listens s i"
  shows "forward_inv (set_task i pc r s)"
proof -
  have len: "length (fr_stacks s) = 2" using assms(1) by (simp add: forward_inv_def)
  let ?s = "set_task i pc r s"
  have "(listens ?s j \<longrightarrow> sh_up (fh_stacks (fr_shared s) ! j)) \<and>
      (sh_up (fh_stacks (fr_shared s) ! j) \<longrightarrow> listens ?s j \<or> crashed ?s j)" if "fr_pc s \<noteq> FEnded" "j < 2" for j
  proof (cases "j = i")
    case True
    have "(listens s j \<longrightarrow> sh_up (fh_stacks (fr_shared s) ! j)) \<and>
      (sh_up (fh_stacks (fr_shared s) ! j) \<longrightarrow> listens s j \<or> crashed s j)"
      using assms(1) that by (simp add: forward_inv_def)
    with True assms(3,4) show ?thesis
      unfolding listens_def [of ?s] crashed_def [of ?s] stack_at_set_task [OF len that(2)] by auto
  next
    case False
    with assms(1) that show ?thesis
      unfolding listens_def crashed_def stack_at_set_task [OF len that(2)]
      by (simp add: forward_inv_def listens_def crashed_def)
  qed
  then show ?thesis using assms(1) by (simp add: forward_inv_def) (simp add: set_task_def)
qed

lemma forward_inv_end: "forward_inv s \<Longrightarrow> forward_inv (end_forward s)"
  by (simp add: forward_inv_def end_forward_def)

interpretation forwards: invariant_system "\<lambda>s. \<exists>spec. s = forward_start spec" forward_step forward_inv
proof unfold_locales
  fix s :: forward_run
  assume "\<exists>spec. s = forward_start spec"
  then show "forward_inv s"
    by (auto simp: forward_start_def forward_inv_def folded_def forward_shared_new_def stack_health_default_def
        listens_def less_2_cases_iff)
next
  fix s s' :: forward_run
  assume inv: "forward_inv s" and step: "forward_step s s'"
  note move = forward_inv_move [OF inv] and report = forward_inv_stack [OF inv]
  from step show "forward_inv s'"
  proof cases
    case (sent i)
    have "forward_inv (s\<lparr>fr_queue := 1\<rparr>)" by (rule forward_inv_quiet [OF inv]) simp_all
    then show ?thesis unfolding sent(1)
      by (rule forward_inv_move) (use sent in \<open>simp_all add: listens_def\<close>)
  next
    case (crashed i detail)
    show ?thesis unfolding crashed(1) by (rule move) (use crashed in simp_all)
  next
    case (no_senders)
    then show ?thesis using forward_inv_end [OF inv] by simp
  next
    case aborted
    then show ?thesis using forward_inv_end [OF inv] by simp
  next
    case (backed_off i a)
    show ?thesis unfolding backed_off(1) by (rule move) (use backed_off in \<open>simp_all add: listens_def crashed_def\<close>)
  next
    case (accepted i)
    show ?thesis unfolding accepted(1) by (rule move) (use accepted in \<open>simp_all add: listens_def crashed_def\<close>)
  next
    case (retry i e r)
    show ?thesis unfolding retry(1) by (rule move) (use retry in \<open>simp_all add: listens_def crashed_def\<close>)
  next
    case (slept i)
    show ?thesis unfolding slept(1) by (rule move) (use slept in \<open>simp_all add: listens_def crashed_def\<close>)
  qed (auto intro!: report forward_inv_quiet [OF inv] simp: health_up_def health_down_def)
qed

text \<open>A stack that is not bound needs only its own next attempt.\<close>

lemma stack_recovers:
  assumes "length (fr_stacks s) = 2" and "i < 2" and "stack_at s i \<in> {SBind a, SBackoff a, SSleep}"
  shows "\<exists>s'. forward_step\<^sup>*\<^sup>* s s' \<and> stack_at s' i = SAccept \<and> (\<forall>j < 2. j \<noteq> i \<longrightarrow> stack_at s' j = stack_at s j) \<and> relays s' = relays s"
proof -
  have bound: "\<exists>s'. forward_step\<^sup>*\<^sup>* t s' \<and> stack_at s' i = SAccept \<and> (\<forall>j < 2. j \<noteq> i \<longrightarrow> stack_at s' j = stack_at t j) \<and> relays s' = relays t"
    if "length (fr_stacks t) = 2" "stack_at t i = SBind b" for t b
  proof -
    let ?u = "report i health_up t"
    let ?t = "set_task i SAccept (record_rebind (sk_retry (fr_stacks t ! i))) ?u"
    have "forward_step t ?t" by (rule forward_step.bound [OF assms(2) that(2)])
    moreover have "stack_at ?t j = (if j = i then SAccept else stack_at t j)" if "j < 2" for j
      using stack_at_set_task [of ?u] that \<open>length (fr_stacks t) = 2\<close> by (simp add: report_def)
    ultimately show ?thesis using assms(2) by (intro exI [of _ ?t]) auto
  qed
  consider (bind) "stack_at s i = SBind a" | (backoff) "stack_at s i = SBackoff a" | (sleep) "stack_at s i = SSleep"
    using assms(3) by blast
  then show ?thesis
  proof cases
    case bind
    then show ?thesis by (rule bound [OF assms(1)])
  next
    case backoff
    let ?t = "set_task i (SBind (saturating_inc a)) (sk_retry (fr_stacks s ! i)) s"
    have st: "forward_step s ?t" by (rule forward_step.backed_off [OF assms(2) backoff])
    have len: "length (fr_stacks ?t) = 2" using assms(1) by (simp add: set_task_def)
    note at = stack_at_set_task [OF assms(1)]
    from bound [OF len, of "saturating_inc a"] obtain s' where
      "forward_step\<^sup>*\<^sup>* ?t s'" "stack_at s' i = SAccept" "\<forall>j < 2. j \<noteq> i \<longrightarrow> stack_at s' j = stack_at ?t j" "relays s' = relays ?t"
      by (auto simp: at assms(2))
    with st show ?thesis by (intro exI [of _ s']) (auto simp: at intro: converse_rtranclp_into_rtranclp)
  next
    case sleep
    let ?t = "set_task i SAccept (sk_retry (fr_stacks s ! i)) s"
    have "forward_step s ?t" by (rule forward_step.slept [OF assms(2) sleep])
    then show ?thesis using assms(2) by (intro exI [of _ ?t]) (auto simp: stack_at_set_task [OF assms(1)])
  qed
qed

text \<open>C25: What a forward shows is true, it is bounded, and its listeners never give up. In every
  reachable state of a forward that has not ended, at most 128 relays run, one of its two
  sockets is open only if it shows as listening, it shows as listening only if a socket is
  open or a listener task crashed that is about to be reaped, and it shows as failed only if
  no socket is open. A listener that is not bound sleeps at most five seconds before it
  tries again, and whatever the other listener does it can get to accepting on its own.\<close>

theorem forward_state_is_live:
  assumes "forward_step\<^sup>*\<^sup>* (forward_start spec) s" and "fr_pc s \<noteq> FEnded"
  shows "fh_active (fr_shared s) \<le> MAX_ACTIVE_RELAYS_PER_FORWARD \<and>
    (fh_state (fr_shared s) = Listening \<longrightarrow> (\<exists>i < 2. listens s i \<or> crashed s i)) \<and>
    (\<forall>i < 2. listens s i \<longrightarrow> fh_state (fr_shared s) = Listening) \<and>
    (\<forall>m i. fh_state (fr_shared s) = Failed m \<longrightarrow> i < 2 \<longrightarrow> \<not> listens s i) \<and>
    (\<forall>i a. i < 2 \<longrightarrow> stack_at s i \<in> {SBind a, SBackoff a, SSleep} \<longrightarrow>
       rebind_backoff a \<le> from_secs 5 \<and>
       (\<exists>s'. forward_step\<^sup>*\<^sup>* s s' \<and> stack_at s' i = SAccept \<and> (\<forall>j < 2. j \<noteq> i \<longrightarrow> stack_at s' j = stack_at s j) \<and> relays s' = relays s))"
proof -
  have inv: "forward_inv s" by (rule forwards.reachable_inv [OF _ assms(1)]) blast
  have "relays s \<le> MAX_ACTIVE_RELAYS_PER_FORWARD" by (rule forward_relays.bounded [OF _ assms(1)]) blast
  then have "fh_active (fr_shared s) \<le> MAX_ACTIVE_RELAYS_PER_FORWARD" by (simp add: relays_def)
  moreover have up: "listens s i \<Longrightarrow> sh_up (fh_stacks (fr_shared s) ! i)"
      "sh_up (fh_stacks (fr_shared s) ! i) \<Longrightarrow> listens s i \<or> crashed s i" if "i < 2" for i
    using inv assms(2) that by (auto simp: forward_inv_def)
  have f: "folded (fr_shared s)" using inv by (simp add: forward_inv_def)
  have "fh_state (fr_shared s) = Listening \<longrightarrow> (\<exists>i < 2. listens s i \<or> crashed s i)"
    using f up(2) [of 0] up(2) [of 1] unfolding folded_def by auto
  moreover have "\<forall>i < 2. listens s i \<longrightarrow> fh_state (fr_shared s) = Listening"
    using f up(1) unfolding folded_def by (auto simp: less_2_cases_iff)
  moreover have "\<forall>m i. fh_state (fr_shared s) = Failed m \<longrightarrow> i < 2 \<longrightarrow> \<not> listens s i"
    using f up(1) unfolding folded_def by blast
  moreover have "length (fr_stacks s) = 2" using inv by (simp add: forward_inv_def)
  note stack_recovers [OF this] forward_bind.base_hi
  ultimately show ?thesis by blast
qed

theorem forward_state_is_live_witness:
  "\<exists>s s'. forward_step\<^sup>*\<^sup>* (forward_start sample_forward) s \<and> stack_at s 0 = SBackoff 0 \<and>
     forward_step\<^sup>*\<^sup>* s s' \<and> stack_at s' 0 = SAccept \<and> stack_at s' 1 = stack_at s 1"
proof -
  let ?s = "forward_start sample_forward"
  let ?s1 = "set_task 0 (SBackoff 0) accept_retry_new (report 0 (health_down (IoError AddrInUse ([], []))) ?s)"
  have "forward_step ?s ?s1" using forward_step.bind_failed [of 0 ?s 0] by (simp add: forward_start_def)
  then have run: "forward_step\<^sup>*\<^sup>* ?s ?s1" by simp
  have pc: "fr_pc ?s1 \<noteq> FEnded" and at: "stack_at ?s1 0 = SBackoff 0"
    by (simp_all add: forward_start_def set_task_def report_def)
  note live = forward_state_is_live [OF run pc, THEN conjunct2, THEN conjunct2, THEN conjunct2, THEN conjunct2, rule_format, of 0 0]
  from live at obtain s' where
    "forward_step\<^sup>*\<^sup>* ?s1 s'" "stack_at s' 0 = SAccept" "\<forall>j < 2. j \<noteq> 0 \<longrightarrow> stack_at s' j = stack_at ?s1 j"
    by auto
  with run at show ?thesis by (intro exI [of _ ?s1] exI [of _ s']) simp
qed

end
