(* ===== verification/Port_Forward.thy ===== *)
theory Port_Forward
  imports Forward
begin

text \<open>
  The port forwards the user configures, \<^verbatim>\<open>src/crates/flextunnel-core/src/forwards.rs\<close>: their record
  and how they are shown, the validation of what the user types, the facade over the
  manager that runs the enabled ones, and switching off the ones that failed. The lemmas
  show that a validated host is in a normal form that fits on the wire and is shown without
  ambiguity, and that a failed forward is switched off and its task ended.
\<close>

section \<open>Configured forwards\<close>

record port_forward =
  pf_id :: string
  pf_label :: string
  pf_local_port :: u16
  pf_remote_host :: string
  pf_remote_port :: u16
  pf_enabled :: bool

text \<open>A number in sixteen hexadecimal digits, \<^verbatim>\<open>{:016x}\<close>.\<close>

definition hex_digit :: "nat \<Rightarrow> char" where
  "hex_digit d = char_of (if d < 10 then 48 + d else 87 + d)"

definition pf_new_id :: "u64 \<Rightarrow> string" where
  "pf_new_id r = map (\<lambda>k. hex_digit (unat r div 16 ^ k mod 16)) (rev [0..<16])"

definition format_host_port :: "string \<Rightarrow> u16 \<Rightarrow> string" where
  "format_host_port host port =
     (if CHR '':'' \<in> set host then ''['' @ host @ '']:'' @ show_nat (unat port)
      else host @ '':'' @ show_nat (unat port))"

definition pf_local_endpoint :: "port_forward \<Rightarrow> string" where
  "pf_local_endpoint f = ''localhost:'' @ show_nat (unat (pf_local_port f))"

definition pf_remote_endpoint :: "port_forward \<Rightarrow> string" where
  "pf_remote_endpoint f = format_host_port (pf_remote_host f) (pf_remote_port f)"

definition pf_display_name :: "port_forward \<Rightarrow> string" where
  "pf_display_name f =
     (let label = trim (pf_label f) in if label = [] then pf_remote_endpoint f else label)"

definition pf_spec :: "port_forward \<Rightarrow> forward_spec" where
  "pf_spec f = \<lparr>fs_id = pf_id f, fs_local_port = pf_local_port f,
     fs_target = TDomain (pf_remote_host f) (pf_remote_port f)\<rparr>"

definition enabled_specs :: "port_forward list \<Rightarrow> forward_spec list" where
  "enabled_specs forwards = map pf_spec (filter pf_enabled forwards)"

text \<open>The facade of the manager.\<close>

definition pf_manager_new :: "port_forward list \<Rightarrow> forward_manager" where
  "pf_manager_new forwards = forward_manager_new (enabled_specs forwards)"

definition pf_apply :: "port_forward list \<Rightarrow> forward_manager \<Rightarrow> forward_manager" where
  "pf_apply forwards m = apply_forwards (enabled_specs forwards) m"

section \<open>Validation\<close>

definition MAX_LABEL_LEN :: nat where "MAX_LABEL_LEN = 64"

text \<open>\<^verbatim>\<open>chars().count()\<close>: every code point has one byte that is not a continuation byte.\<close>

definition chars_count :: "string \<Rightarrow> nat" where
  "chars_count s = length (filter (\<lambda>c. \<not> utf8_cont (byte_of_char c)) s)"

definition validate_label :: "string \<Rightarrow> msg + string" where
  "validate_label input =
     (let label = trim input in
      if MAX_LABEL_LEN < chars_count label
      then Inl (''Label must be {MAX_LABEL_LEN} characters or fewer'', [FNat MAX_LABEL_LEN])
      else Inr label)"

definition parse_port :: "string \<Rightarrow> string \<Rightarrow> msg + u16" where
  "parse_port input what =
     (case parse_u16 (trim input) of
        Some p \<Rightarrow> if p \<noteq> 0 then Inr p else Inl (''{what} must be 1-65535'', [FStr what])
      | None \<Rightarrow> Inl (''{what} must be 1-65535'', [FStr what]))"

definition is_ascii_alphanumeric :: "char \<Rightarrow> bool" where
  "is_ascii_alphanumeric c \<longleftrightarrow> is_digit c \<or>
     65 \<le> (of_char c :: nat) \<and> (of_char c :: nat) \<le> 90 \<or> 97 \<le> (of_char c :: nat) \<and> (of_char c :: nat) \<le> 122"

definition host_label_char :: "char \<Rightarrow> bool" where
  "host_label_char c \<longleftrightarrow> is_ascii_alphanumeric c \<or> c = CHR ''-'' \<or> c = CHR ''_''"

fun check_host_labels :: "string list \<Rightarrow> msg + unit" where
  "check_host_labels [] = Inr ()"
| "check_host_labels (label # rest) =
     (if label = [] then Inl (''Remote host has an empty label '' @ em_dash @ '' check the dots'', [])
      else if 63 < length label then Inl (''Remote host has a label longer than 63 characters'', [])
      else if prefix ''-'' label \<or> suffix ''-'' label
      then Inl (''Remote host labels can't start or end with a hyphen'', [])
      else if \<not> list_all host_label_char label
      then Inl (''Remote host may only contain letters, digits, dots, hyphens and underscores'', [])
      else check_host_labels rest)"

definition validate_remote_host :: "string \<Rightarrow> msg + string" where
  "validate_remote_host input =
     (let host = trim input in
      if host = [] then Inl (''Remote host is required'', [])
      else
        let bare = (case Option.bind (strip_prefix ''['' host) (strip_suffix '']'') of Some b \<Rightarrow> b | None \<Rightarrow> host) in
        if parse_ip bare \<noteq> None then Inr bare
        else if 253 < length host then Inl (''Remote host is too long (253 characters max)'', [])
        else result_bind (check_host_labels (split_on CHR ''.'' host)) (\<lambda>_. Inr host))"

section \<open>Failed forwards\<close>

text \<open>The first enabled forward with the identifier, switched off.\<close>

primrec switch_off :: "string \<Rightarrow> port_forward list \<Rightarrow> port_forward list option" where
  "switch_off i [] = None"
| "switch_off i (f # fs) =
     (if pf_id f = i \<and> pf_enabled f then Some (f\<lparr>pf_enabled := False\<rparr> # fs)
      else map_option (Cons f) (switch_off i fs))"

definition disable_step ::
  "forward_status \<Rightarrow> port_forward list \<times> (string \<times> msg) list \<Rightarrow> port_forward list \<times> (string \<times> msg) list" where
  "disable_step status = (\<lambda>(forwards, disabled).
     case fst_state status of
       Failed reason \<Rightarrow>
         (case switch_off (fst_id status) forwards of
            Some forwards' \<Rightarrow> (forwards', disabled @ [(fst_id status, reason)])
          | None \<Rightarrow> (forwards, disabled))
     | _ \<Rightarrow> (forwards, disabled))"

definition disable_failed_forwards ::
  "port_forward list \<Rightarrow> forward_status list \<Rightarrow> port_forward list \<times> (string \<times> msg) list" where
  "disable_failed_forwards forwards statuses = fold disable_step statuses (forwards, [])"

section \<open>Hosts in normal form\<close>

text \<open>How much a parser of addresses reads at most.\<close>

definition reads_at_most :: "nat \<Rightarrow> 'a parser \<Rightarrow> bool" where
  "reads_at_most k p \<longleftrightarrow> (\<forall>s a r. p s = Some (a, r) \<longrightarrow> length s \<le> length r + k)"

lemma reads_number: "reads_at_most m (read_number radix (Some m) z l)"
  unfolding reads_at_most_def
proof (intro allI impI)
  fix s a r
  assume "read_number radix (Some m) z l s = Some (a, r)"
  then have "length (takeWhile (is_radix_digit radix) s) \<le> m" "r = dropWhile (is_radix_digit radix) s"
    by (auto simp: read_number_def Let_def split: if_splits)
  moreover have "length s = length (takeWhile (is_radix_digit radix) s) + length (dropWhile (is_radix_digit radix) s)"
    by (metis length_append takeWhile_dropWhile_id)
  ultimately show "length s \<le> length r + m" by simp
qed

lemma reads_given_char: "reads_at_most 1 (read_given_char c)"
  unfolding reads_at_most_def by (intro allI impI) (case_tac s; simp split: if_splits)

lemma reads_bind:
  "reads_at_most k p \<Longrightarrow> (\<And>x. reads_at_most l (q x)) \<Longrightarrow> reads_at_most (k + l) (\<lambda>s. Option.bind (p s) (\<lambda>(x, r). q x r))"
  unfolding reads_at_most_def by (fastforce simp: bind_eq_Some_conv)

lemma reads_mono: "reads_at_most k p \<Longrightarrow> k \<le> l \<Longrightarrow> reads_at_most l p"
  unfolding reads_at_most_def by fastforce

lemma reads_separator: "reads_at_most k p \<Longrightarrow> reads_at_most (Suc k) (read_separator c i p)"
  using reads_bind [OF reads_given_char, of k "\<lambda>_. p"]
  by (cases "0 < i") (auto simp: read_separator_def [abs_def] intro: reads_mono)

lemma reads_ipv4: "reads_at_most 16 read_ipv4_addr"
proof -
  have o: "reads_at_most 4 (read_octet i)" for i
    unfolding read_octet_def using reads_separator [OF reads_number [of 3]] by simp
  have ret: "reads_at_most 0 (\<lambda>s. Some (x, s))" for x :: u32 by (simp add: reads_at_most_def)
  have "reads_at_most (4 + (4 + (4 + (4 + 0)))) read_ipv4_addr"
    unfolding read_ipv4_addr_def [abs_def] by (intro reads_bind o ret)
  then show ?thesis by simp
qed

lemma reads_groups: "read_groups k i s = (gs, v4, r) \<Longrightarrow> length s \<le> length r + (5 * k + 17)"
proof (induction k arbitrary: i s gs v4 r)
  case (Suc k)
  let ?v4 = "read_separator CHR '':'' i read_ipv4_addr"
  let ?g = "read_separator CHR '':'' i (read_number 16 (Some 4) True 65535)"
  have v4: "reads_at_most 17 ?v4" and g: "reads_at_most 5 ?g"
    using reads_separator [OF reads_ipv4] reads_separator [OF reads_number [of 4]] by simp_all
  consider (v4) a where "?v4 s = Some (a, r)"
    | (group) g' r1 gs' where "?g s = Some (g', r1)" "read_groups k (Suc i) r1 = (gs', v4, r)"
    | (none) "r = s"
    using Suc.prems by (auto split: option.splits prod.splits if_splits)
  then show ?case
  proof cases
    case v4
    with \<open>reads_at_most 17 ?v4\<close> show ?thesis unfolding reads_at_most_def by fastforce
  next
    case group
    with g Suc.IH [OF group(2)] show ?thesis unfolding reads_at_most_def by fastforce
  qed simp
qed simp

lemma reads_ipv6: "reads_at_most 200 read_ipv6_addr"
  unfolding reads_at_most_def
proof (intro allI impI)
  fix s a r
  assume run: "read_ipv6_addr s = Some (a, r)"
  obtain hs v4 r0 where h: "read_groups 8 0 s = (hs, v4, r0)" by (metis prod_cases3)
  note h' = reads_groups [OF h]
  show "length s \<le> length r + 200"
  proof (cases "length hs = 8")
    case True
    with run h h' show ?thesis by (auto simp: read_ipv6_addr_def)
  next
    case False
    with run h obtain r1 r2 where
      c: "read_given_char CHR '':'' r0 = Some ((), r1)" "read_given_char CHR '':'' r1 = Some ((), r2)"
      and r: "(case read_groups (8 - (length hs + 1)) 0 r2 of (ts, v, r3) \<Rightarrow> r3) = r"
      by (auto simp: read_ipv6_addr_def bind_eq_Some_conv split_def split: if_splits)
    from r obtain ts v where "read_groups (8 - (length hs + 1)) 0 r2 = (ts, v, r)"
      by (auto simp: split_def prod_eq_iff)
    from reads_groups [OF this] have "length r2 \<le> length r + 57" by simp
    moreover have "length r0 \<le> length r1 + 1" "length r1 \<le> length r2 + 1"
      using c reads_given_char [of "CHR '':''"] unfolding reads_at_most_def by blast+
    ultimately show ?thesis using h' by simp
  qed
qed

lemma parse_ip_length: "parse_ip s = Some a \<Longrightarrow> length s \<le> 200"
proof -
  assume "parse_ip s = Some a"
  then have "(\<exists>a. read_ipv4_addr s = Some (a, [])) \<or> (\<exists>a. read_ipv6_addr s = Some (a, []))"
    by (auto simp: parse_ip_def parse_all_def read_ip_addr_def split: option.splits prod.splits list.splits)
  then show ?thesis using reads_ipv4 reads_ipv6 unfolding reads_at_most_def by fastforce
qed

definition host_char :: "char \<Rightarrow> bool" where
  "host_char c \<longleftrightarrow> host_label_char c \<or> ip_char c"

lemma host_char_range:
  assumes "host_char c"
  shows "(of_char c :: nat) \<in> {45, 46, 95} \<union> {48..58} \<union> {65..90} \<union> {97..122}"
proof -
  consider "is_ascii_alphanumeric c" | "c = CHR ''-''" | "c = CHR ''_''" | "is_radix_digit 16 c" | "c = CHR '':''" | "c = CHR ''.''"
    using assms by (auto simp: host_char_def host_label_char_def ip_char_def)
  then show ?thesis
    by cases (auto simp: is_ascii_alphanumeric_def is_digit_def is_radix_digit_def to_digit_def Let_def split: if_splits)
qed

lemma host_char_not [simp]: "\<not> host_char CHR ''[''" "\<not> host_char CHR '']''"
  using host_char_range [of "CHR ''[''"] host_char_range [of "CHR '']''"] by auto

lemma host_chars_plain:
  assumes "list_all host_char h"
  shows "no_white_space h" "list_all (\<lambda>c. (of_char c :: nat) < 128) h"
  using assms by (fastforce simp: no_white_space_def list_all_iff dest!: host_char_range)+

lemma valid_str_ascii: "list_all (\<lambda>c. (of_char c :: nat) < 128) s \<Longrightarrow> valid_str s"
proof (induction s)
  case (Cons c s)
  then have "byte_of_char c \<le> 0x7F"
    by (simp add: byte_of_char_def word_le_nat_alt unat_of_nat take_bit_eq_mod)
  with Cons show ?case by (simp add: valid_str_def as_bytes_def)
qed (simp add: valid_str_def as_bytes_def)

lemma split_on_covers: "x \<in> set s \<Longrightarrow> x = c \<or> (\<exists>l \<in> set (split_on c s). x \<in> set l)"
  by (induction s rule: split_on.induct) (auto split: if_splits list.splits)

lemma check_host_labels_Inr_iff:
  "check_host_labels ls = Inr () \<longleftrightarrow> (\<forall>l \<in> set ls. l \<noteq> [] \<and> length l \<le> 63 \<and> \<not> prefix ''-'' l \<and> \<not> suffix ''-'' l \<and> list_all host_label_char l)"
  by (induction ls) auto

lemma check_host_labels_chars: "check_host_labels (split_on CHR ''.'' h) = Inr () \<Longrightarrow> list_all host_char h"
  unfolding check_host_labels_Inr_iff list_all_iff
  using split_on_covers [of _ h "CHR ''.''"] by (fastforce simp: host_char_def list_all_iff)

lemma parse_ip_Nil: "parse_ip [] = None"
  by code_simp

lemma validated_host:
  assumes "validate_remote_host input = Inr h"
  shows "h \<noteq> [] \<and> length h \<le> 253 \<and> list_all host_char h \<and>
    (parse_ip h \<noteq> None \<or> check_host_labels (split_on CHR ''.'' h) = Inr ())"
proof -
  let ?host = "trim input"
  let ?bare = "case Option.bind (strip_prefix ''['' ?host) (strip_suffix '']'') of Some b \<Rightarrow> b | None \<Rightarrow> ?host"
  from assms consider (ip) a where "h = ?bare" "parse_ip h = Some a"
    | (name) "h = ?host" "h \<noteq> []" "length h \<le> 253" "check_host_labels (split_on CHR ''.'' h) = Inr ()"
    by (auto simp: validate_remote_host_def Let_def result_bind_Inr_iff split: if_splits)
  then show ?thesis
  proof cases
    case ip
    then have "list_all ip_char h" "h \<noteq> []" "length h \<le> 200"
      using parse_ip_chars parse_ip_length parse_ip_Nil by auto
    with ip(2) show ?thesis by (auto simp: host_char_def list_all_iff)
  next
    case name
    with check_host_labels_chars show ?thesis by blast
  qed
qed

lemma validate_normal:
  assumes "h \<noteq> []" and "length h \<le> 253" and "list_all host_char h"
    and "parse_ip h \<noteq> None \<or> check_host_labels (split_on CHR ''.'' h) = Inr ()"
  shows "validate_remote_host h = Inr h"
proof -
  have "trim h = h" by (rule trim_no_white_space [OF host_chars_plain(1) [OF assms(3)]])
  moreover have "strip_prefix ''['' h = None" using assms(1,3) by (cases h) auto
  ultimately show ?thesis using assms by (auto simp: validate_remote_host_def Let_def)
qed

lemma show_nat_no_colon: "CHR '':'' \<notin> set (show_nat n)"
  using show_nat_digits [of n] by (auto simp: list_all_iff is_digit_def)

lemma split_at_colon:
  assumes "a @ CHR '':'' # show_nat m = b @ CHR '':'' # show_nat n"
  shows "a = b \<and> m = n"
proof -
  have split: "rsplit_once CHR '':'' (x @ CHR '':'' # show_nat k) = Some (x, show_nat k)" for x k
    by (simp add: rsplit_once_Some_iff show_nat_no_colon)
  have "Some (a, show_nat m) = Some (b, show_nat n)" unfolding split [symmetric] assms ..
  then have "a = b" and "digits_val (show_nat m) = digits_val (show_nat n)" by simp_all
  then show ?thesis by simp
qed

lemma format_host_port_inj:
  assumes "list_all host_char h" and "list_all host_char h'" and "h \<noteq> []" and "h' \<noteq> []"
    and "format_host_port h p = format_host_port h' p'"
  shows "h = h' \<and> p = p'"
proof -
  have "hd h \<noteq> CHR ''[''" "hd h' \<noteq> CHR ''[''" using assms(1-4) by (cases h; cases h'; auto)+
  then have br: "CHR '':'' \<in> set h \<longleftrightarrow> CHR '':'' \<in> set h'"
    using assms(3-5) by (cases h; cases h') (auto simp: format_host_port_def split: if_splits)
  show ?thesis
  proof (cases "CHR '':'' \<in> set h")
    case True
    with br assms(5) have "(CHR ''['' # h @ '']'') @ CHR '':'' # show_nat (unat p) = (CHR ''['' # h' @ '']'') @ CHR '':'' # show_nat (unat p')"
      by (simp add: format_host_port_def)
    from split_at_colon [OF this] show ?thesis by (simp add: word_unat_eq_iff)
  next
    case False
    with br assms(5) have "h @ CHR '':'' # show_nat (unat p) = h' @ CHR '':'' # show_nat (unat p')"
      by (simp add: format_host_port_def)
    from split_at_colon [OF this] show ?thesis by (simp add: word_unat_eq_iff)
  qed
qed

text \<open>C26: A host the user entered is stored in a normal form: validating the stored form gives it
  back, it is never empty and always fits the request header, so the request for it is
  written and read back as the same name, and the endpoint that is shown for it determines
  the host and the port, although an IPv6 address contains colons itself.\<close>

theorem validated_host_is_normal:
  assumes "validate_remote_host input = Inr h"
  shows "validate_remote_host h = Inr h \<and> h \<noteq> [] \<and> wire_target (fs_target (pf_spec (f\<lparr>pf_remote_host := h\<rparr>))) \<and>
    (\<forall>input' h' p p'. validate_remote_host input' = Inr h' \<longrightarrow> format_host_port h p = format_host_port h' p' \<longrightarrow>
       h = h' \<and> p = p')"
proof -
  note h = validated_host [OF assms]
  have "wire_target (TDomain h p)" for p
    using h host_chars_plain(2) valid_str_ascii by (auto simp: wire_target_def)
  then have "wire_target (fs_target (pf_spec (f\<lparr>pf_remote_host := h\<rparr>)))" by (simp add: pf_spec_def)
  moreover have "h = h' \<and> p = p'" if "validate_remote_host input' = Inr h'" "format_host_port h p = format_host_port h' p'" for input' h' p p'
    using format_host_port_inj [OF _ _ _ _ that(2)] h validated_host [OF that(1)] by blast
  ultimately show ?thesis using h validate_normal by blast
qed

definition sample_port_forward :: port_forward where
  "sample_port_forward = \<lparr>pf_id = ''a'', pf_label = [], pf_local_port = 8080, pf_remote_host = ''wiki'',
     pf_remote_port = 80, pf_enabled = True\<rparr>"

theorem validated_host_is_normal_witness:
  "validate_remote_host '' [::1] '' = Inr ''::1'' \<and> validate_remote_host ''::1'' = Inr ''::1'' \<and>
   validate_remote_host ''db.corp'' = Inr ''db.corp'' \<and> format_host_port ''::1'' 80 \<noteq> format_host_port ''db.corp'' 80"
proof -
  have a: "validate_remote_host '' [::1] '' = Inr ''::1''" by code_simp
  have b: "validate_remote_host ''db.corp'' = Inr ''db.corp''" by code_simp
  note n = validated_host_is_normal [OF a, of sample_port_forward]
  have "format_host_port ''::1'' 80 \<noteq> format_host_port ''db.corp'' 80"
  proof
    assume "format_host_port ''::1'' 80 = format_host_port ''db.corp'' 80"
    with n b have "''::1'' = ''db.corp''" by blast
    then show False by simp
  qed
  with n a b show ?thesis by blast
qed

section \<open>Switching off\<close>

abbreviation switched_off :: "port_forward \<Rightarrow> port_forward" where
  "switched_off f \<equiv> f\<lparr>pf_enabled := False\<rparr>"

definition failed_with :: "forward_status list \<Rightarrow> string \<Rightarrow> msg \<Rightarrow> bool" where
  "failed_with statuses i reason \<longleftrightarrow> (\<exists>st \<in> set statuses. fst_id st = i \<and> fst_state st = Failed reason)"

lemma switched_off_id [simp]: "\<not> pf_enabled f \<Longrightarrow> switched_off f = f"
  by (cases f) simp

lemma switch_off_eq:
  assumes "distinct (map pf_id fs)"
  shows "switch_off i fs =
    (if \<exists>f \<in> set fs. pf_id f = i \<and> pf_enabled f then Some (map (\<lambda>f. if pf_id f = i then switched_off f else f) fs) else None)"
  using assms
proof (induction fs)
  case (Cons f fs)
  have "map (\<lambda>f. if pf_id f = i then switched_off f else f) fs = fs" if "pf_id f = i"
    using Cons.prems that by (intro map_idI) (auto simp: image_iff)
  with Cons show ?case by auto
qed simp

lemma disable_step_eq:
  assumes "distinct (map pf_id fs)"
  shows "disable_step st (fs, off) =
    (case fst_state st of
       Failed r \<Rightarrow> (map (\<lambda>f. if pf_id f = fst_id st then switched_off f else f) fs,
         off @ (if \<exists>f \<in> set fs. pf_id f = fst_id st \<and> pf_enabled f then [(fst_id st, r)] else []))
     | _ \<Rightarrow> (fs, off))"
proof (cases "\<exists>f \<in> set fs. pf_id f = fst_id st \<and> pf_enabled f")
  case False
  then have "map (\<lambda>f. if pf_id f = fst_id st then switched_off f else f) fs = fs"
    by (intro map_idI) auto
  with False show ?thesis by (auto simp: disable_step_def switch_off_eq [OF assms] split: forward_state.splits)
qed (auto simp: disable_step_def switch_off_eq [OF assms] split: forward_state.splits)

lemma fold_disable:
  assumes "distinct (map pf_id fs)" and "distinct (map fst_id sts)"
  shows "fst (fold disable_step sts (fs, off)) = map (\<lambda>f. if \<exists>r. failed_with sts (pf_id f) r then switched_off f else f) fs
    \<and> set (snd (fold disable_step sts (fs, off))) =
        set off \<union> {(pf_id f, r) | f r. f \<in> set fs \<and> pf_enabled f \<and> failed_with sts (pf_id f) r}"
  using assms
proof (induction sts arbitrary: fs off)
  case (Cons st sts)
  have fw: "failed_with (st # sts) i r \<longleftrightarrow> (fst_id st = i \<and> fst_state st = Failed r) \<or> failed_with sts i r" for i r
    by (auto simp: failed_with_def)
  have once: "\<not> failed_with sts (fst_id st) r" for r
    using Cons.prems(2) by (auto simp: failed_with_def image_iff)
  show ?case
  proof (cases "fst_state st")
    case (Failed r)
    let ?fs = "map (\<lambda>f. if pf_id f = fst_id st then switched_off f else f) fs"
    let ?off = "off @ (if \<exists>f \<in> set fs. pf_id f = fst_id st \<and> pf_enabled f then [(fst_id st, r)] else [])"
    have "map pf_id ?fs = map pf_id fs" by simp
    then have d: "distinct (map pf_id ?fs)" using Cons.prems(1) by metis
    have step: "fold disable_step (st # sts) (fs, off) = fold disable_step sts (?fs, ?off)"
      by (simp add: disable_step_eq [OF Cons.prems(1)] Failed)
    note IH = Cons.IH [OF d, of ?off]
    have one: "fst (fold disable_step (st # sts) (fs, off)) = map (\<lambda>f. if \<exists>r. failed_with (st # sts) (pf_id f) r then switched_off f else f) fs"
      unfolding step using IH Cons.prems(2) Failed by (cases r) (auto simp: fw)
    have "{(pf_id f, r) | f r. f \<in> set ?fs \<and> pf_enabled f \<and> failed_with sts (pf_id f) r} =
        {(pf_id f, r) | f r. f \<in> set fs \<and> pf_enabled f \<and> failed_with sts (pf_id f) r}"
      using once by (auto simp: image_iff split: if_splits) metis+
    moreover have "set ?off = set off \<union> {(pf_id f, r) | f r. f \<in> set fs \<and> pf_enabled f \<and> fst_id st = pf_id f \<and> fst_state st = Failed r}"
      using Failed by (cases r) force
    ultimately have "set (snd (fold disable_step (st # sts) (fs, off))) =
        set off \<union> {(pf_id f, r) | f r. f \<in> set fs \<and> pf_enabled f \<and> failed_with (st # sts) (pf_id f) r}"
      unfolding step using IH Cons.prems(2) by (auto simp: fw)
    with one show ?thesis ..
  qed (use Cons in \<open>simp_all add: disable_step_eq [OF Cons.prems(1)] fw\<close>)
qed (simp add: failed_with_def)

lemma spawned_tasks_starting:
  "set (fm_tasks (fold spawn_missing specs m)) \<subseteq> set (fm_tasks m) \<union> {(i, t). fh_state (ftk_shared t) = Starting}"
proof (induction specs arbitrary: m)
  case (Cons spec specs)
  have "set (fm_tasks (spawn_missing spec m)) \<subseteq> set (fm_tasks m) \<union> {(i, t). fh_state (ftk_shared t) = Starting}"
    by (auto simp: spawn_missing_def spawn_forward_def update_new map_of_eq_None_iff forward_shared_new_def)
  with Cons [of "spawn_missing spec m"] show ?case by auto
qed simp

lemma failed_with_statuses:
  "failed_with (forward_statuses m) i r \<longleftrightarrow> (\<exists>t. (i, t) \<in> set (fm_tasks m) \<and> fh_state (ftk_shared t) = Failed r)"
  by (force simp: failed_with_def forward_statuses_def)

text \<open>C27: A forward that failed does not stay on. Switching off what the manager shows as failed
  turns off exactly those forwards, reports each one that was on with its reason, and leaves
  every other one as it was; when the new list is applied, the tasks of the failed ones are
  gone, so nothing the manager then shows has failed.\<close>

theorem failed_forwards_are_switched_off:
  assumes "wf_manager m" and "distinct (map pf_id forwards)"
    and "disable_failed_forwards forwards (forward_statuses m) = (forwards', off)"
  shows "forwards' = map (\<lambda>f. if \<exists>r. failed_with (forward_statuses m) (pf_id f) r then f\<lparr>pf_enabled := False\<rparr> else f) forwards \<and>
    set off = {(pf_id f, r) | f r. f \<in> set forwards \<and> pf_enabled f \<and> failed_with (forward_statuses m) (pf_id f) r} \<and>
    (\<forall>st \<in> set (forward_statuses (pf_apply forwards' m)). \<forall>r. fst_state st \<noteq> Failed r)"
proof -
  let ?sts = "forward_statuses m"
  have "map fst_id ?sts = map fst (fm_tasks m)" by (auto simp: forward_statuses_def)
  then have d: "distinct (map fst_id ?sts)" using assms(1) by (simp add: wf_manager_def)
  have one: "forwards' = map (\<lambda>f. if \<exists>r. failed_with ?sts (pf_id f) r then switched_off f else f) forwards"
    and two: "set off = {(pf_id f, r) | f r. f \<in> set forwards \<and> pf_enabled f \<and> failed_with ?sts (pf_id f) r}"
    using fold_disable [OF assms(2) d, of "[]"] assms(3) by (simp_all add: disable_failed_forwards_def)
  have "map pf_id forwards' = map pf_id forwards" unfolding one by simp
  then have ids: "distinct (map fs_id (enabled_specs forwards'))"
    using assms(2) by (simp add: enabled_specs_def pf_spec_def comp_def distinct_map_filter)
  have "fh_state (ftk_shared t) \<noteq> Failed r" if t: "(i, t) \<in> set (fm_tasks (pf_apply forwards' m))" for i t r
  proof
    assume failed: "fh_state (ftk_shared t) = Failed r"
    with t have "(i, t) \<in> set (fm_tasks m)" "ftk_spec t \<in> set (enabled_specs forwards')"
      using spawned_tasks_starting [of "enabled_specs forwards'" "drop_unwanted (enabled_specs forwards') m"]
      by (auto simp: pf_apply_def apply_forwards_split [OF assms(1) ids] drop_unwanted_def)
    moreover have "failed_with ?sts i r" using calculation(1) failed by (auto simp: failed_with_statuses)
    moreover have "fs_id (ftk_spec t) = i" using calculation(1) assms(1) by (auto simp: wf_manager_def)
    ultimately obtain f where "f \<in> set forwards'" "pf_enabled f" "pf_id f = i" "failed_with ?sts i r"
      by (auto simp: enabled_specs_def pf_spec_def)
    then show False unfolding one by (cases r) (auto split: if_splits)
  qed
  then have "\<forall>st \<in> set (forward_statuses (pf_apply forwards' m)). \<forall>r. fst_state st \<noteq> Failed r"
    by (auto simp: forward_statuses_def)
  with one two show ?thesis by blast
qed

definition failed_manager :: forward_manager where
  "failed_manager =
     \<lparr>fm_tasks = [(''a'', \<lparr>ftk_spec = pf_spec sample_port_forward, ftk_handle = 0,
        ftk_shared = set_stack 1 (health_down (IoError AddrInUse ([], [])))
          (set_stack 0 (health_down (IoError AddrInUse ([], []))) (forward_shared_new 8080))\<rparr>)],
      fm_spawned = 1, fm_aborted = []\<rparr>"

theorem failed_forwards_are_switched_off_witness:
  "disable_failed_forwards [sample_port_forward] (forward_statuses failed_manager) =
     ([sample_port_forward\<lparr>pf_enabled := False\<rparr>], [(''a'', (''port {} is in use'', [FNat 8080]))]) \<and>
   fm_tasks (pf_apply [sample_port_forward\<lparr>pf_enabled := False\<rparr>] failed_manager) = []"
proof -
  have wf: "wf_manager failed_manager"
    by (auto simp: wf_manager_def failed_manager_def running_tasks_def pf_spec_def sample_port_forward_def)
  have "distinct (map pf_id [sample_port_forward])" by simp
  moreover have run: "disable_failed_forwards [sample_port_forward] (forward_statuses failed_manager) =
     ([sample_port_forward\<lparr>pf_enabled := False\<rparr>], [(''a'', (''port {} is in use'', [FNat 8080]))])"
    by (simp add: disable_failed_forwards_def forward_statuses_def failed_manager_def disable_step_def set_stack_def
        health_down_def forward_shared_new_def stack_health_default_def sample_port_forward_def)
  ultimately have "\<forall>st \<in> set (forward_statuses (pf_apply [sample_port_forward\<lparr>pf_enabled := False\<rparr>] failed_manager)). \<forall>r. fst_state st \<noteq> Failed r"
    using failed_forwards_are_switched_off [OF wf] by blast
  moreover have "fm_tasks (pf_apply [sample_port_forward\<lparr>pf_enabled := False\<rparr>] failed_manager) = []"
    by (simp add: pf_apply_def apply_forwards_def enabled_specs_def failed_manager_def)
  ultimately show ?thesis using run by blast
qed

end
