(* ===== verification/Control.thy ===== *)
theory Control
  imports Port_Forward Config
begin

text \<open>
  The control channel between a running client and the commands that attach to it,
  \<^verbatim>\<open>src/crates/flextunnel-cli/src/ipc.rs\<close>: its messages, the reading of a bounded line, the
  frames that carry a tunnel's upload, the connection's loop in the session, and the
  attaching side. JSON is a parameter, and the session answers through a record of what it
  would reply. The lemmas show that a line is cut exactly, that frames give back the bytes
  that went in whatever their chunks, that requests are answered one line each and in order,
  and that what is sent right behind a connect request reaches the target.
\<close>

section \<open>Messages\<close>

definition MAX_LINE :: nat where "MAX_LINE = 1024 * 1024"

definition REQUEST_TIMEOUT :: duration where "REQUEST_TIMEOUT = from_secs 2"

definition IPC_CONNECT_TIMEOUT :: duration where "IPC_CONNECT_TIMEOUT = from_secs 35"

definition MAX_FRAME :: nat where "MAX_FRAME = 64 * 1024"

datatype ipc_request = RqStatus | RqConnPath | RqConnect string u16

record wire_forward =
  wf_label :: string
  wf_local_port :: u16
  wf_remote_host :: string
  wf_remote_port :: u16

definition wire_display_name :: "wire_forward \<Rightarrow> string" where
  "wire_display_name f =
     (let label = trim (wf_label f) in
      if label = [] then format_host_port (wf_remote_host f) (wf_remote_port f) else label)"

datatype phase = PhConnecting | PhConnected | PhReconnecting | PhFailed

fun phase_label :: "phase \<Rightarrow> string" where
  "phase_label PhConnecting = ''connecting''"
| "phase_label PhConnected = ''connected''"
| "phase_label PhReconnecting = ''reconnecting''"
| "phase_label PhFailed = ''failed''"

record wire_bridge =
  wb_name :: string
  wb_endpoint_id :: string
  wb_domains :: "string list"
  wb_cidrs :: "string list"

record wire_routes =
  wr_domains :: "string list"
  wr_cidrs :: "string list"
  wr_host_aliases :: "(string \<times> string) list"
  wr_dns_forwards :: "(string \<times> string list) list"
  wr_bridges :: "wire_bridge list"

record wire_conn_path =
  wcp_kind :: string
  wcp_display :: msg
  wcp_selected :: bool

record wire_custom_relay =
  wcr_url :: string
  wcr_working :: "bool option"
  wcr_error :: "msg option"

record wire_conn_snapshot =
  wcs_paths :: "wire_conn_path list"
  wcs_custom_relays :: "wire_custom_relay list"

datatype forward_row_state = RowStopped | RowStarting | RowListening | RowFailed

record forward_row =
  row_forward :: wire_forward
  row_state :: forward_row_state
  row_error :: "msg option"
  row_active :: nat
  row_last_conn_error :: "msg option"

record status_snapshot =
  sn_instance :: string
  sn_name :: "string option"
  sn_phase :: phase
  sn_connected_secs :: "nat option"
  sn_server_node_id :: string
  sn_client_node_id :: string
  sn_socks_addr :: "socket_addr option"
  sn_http_addr :: "socket_addr option"
  sn_status_page_host :: string
  sn_localhost_host :: string
  sn_failed_attempts :: u32
  sn_next_attempt_secs :: "nat option"
  sn_last_error :: "proxy_error option"
  sn_routes :: wire_routes
  sn_forwards :: "forward_row list"

datatype ipc_response = RsStatus status_snapshot | RsConnPath wire_conn_snapshot | RsConnected | RsError msg

section \<open>Lines\<close>

text \<open>\<^verbatim>\<open>read_until\<close> on a reader limited to \<open>n\<close> bytes: up to and with the first newline, or all
  there is.\<close>

definition read_until_newline :: "nat \<Rightarrow> bytes \<Rightarrow> bytes \<times> bytes" where
  "read_until_newline n bs =
     (let t = take n bs in
      if 10 \<in> set t then let k = Suc (length (takeWhile (\<lambda>b. b \<noteq> 10) t)) in (take k bs, drop k bs)
      else (t, drop n bs))"

definition strip_line_end :: "bytes \<Rightarrow> bytes" where
  "strip_line_end bs = rev (dropWhile (\<lambda>b. b = 10 \<or> b = 13) (rev bs))"

text \<open>The kind \<^verbatim>\<open>InvalidData\<close>.\<close>

abbreviation invalid_data :: "string \<Rightarrow> fmt_arg list \<Rightarrow> io_error" where
  "invalid_data t args \<equiv> IoError (OtherKind 0) (t, args)"

lemma read_until_newline_append:
  "read_until_newline n bs = (r, rest) \<Longrightarrow> bs = r @ rest"
  by (auto simp: read_until_newline_def Let_def split: if_splits)

lemma read_until_newline_shorter:
  "(r, rest) = read_until_newline n bs \<Longrightarrow> r \<noteq> [] \<Longrightarrow> length rest < length bs"
  using read_until_newline_append [of n bs r rest] by (cases r) auto

function read_line_loop :: "bytes \<Rightarrow> nat \<Rightarrow> stream \<Rightarrow> (io_error + bytes \<times> nat) \<times> stream" where
  "read_line_loop buf tot s =
     (case read_until_newline (MAX_LINE + 1 - length buf) (rx s) of (r, rest) \<Rightarrow>
        let buf = buf @ r; tot = tot + length r; s = s\<lparr>rx := rest\<rparr> in
        if r = [] \<or> (buf \<noteq> [] \<and> last buf = 10) then (Inr (strip_line_end buf, tot), s)
        else if MAX_LINE < length buf then (Inl (invalid_data ''control message exceeds the 1 MiB line cap'' []), s)
        else read_line_loop buf tot s)"
  by pat_completeness auto
termination
  by (relation "measure (\<lambda>(buf, tot, s). length (rx s))") (auto dest!: read_until_newline_shorter)

declare read_line_loop.simps [simp del]

definition read_line_capped :: "stream \<Rightarrow> (io_error + bytes \<times> nat) \<times> stream" where
  "read_line_capped s = read_line_loop [] 0 s"

lemma strip_line_end_newline [simp]: "strip_line_end (line @ [10]) = strip_line_end line" "strip_line_end [] = []"
  by (simp_all add: strip_line_end_def)

lemma strip_line_end_id: "line = [] \<or> last line \<notin> {10, 13} \<Longrightarrow> strip_line_end line = line"
  by (cases line rule: rev_cases) (simp_all add: strip_line_end_def)

lemma read_until_newline_line:
  "10 \<notin> set line \<Longrightarrow> length line < n \<Longrightarrow> read_until_newline n (line @ 10 # rest) = (line @ [10], rest)"
proof -
  assume a: "10 \<notin> set line" "length line < n"
  then have t: "take n (line @ 10 # rest) = line @ 10 # take (n - Suc (length line)) rest"
    by (simp add: take_Cons')
  have "takeWhile (\<lambda>b. b \<noteq> 10) (line @ 10 # ys) = line" for ys
    using a(1) by (induction line) auto
  then show ?thesis unfolding read_until_newline_def t by (simp add: Let_def)
qed

lemma read_until_newline_none: "10 \<notin> set (take n bs) \<Longrightarrow> read_until_newline n bs = (take n bs, drop n bs)"
  by (simp add: read_until_newline_def Let_def)

text \<open>The four outcomes of reading a line.\<close>

lemma read_line_line:
  assumes "rx s = line @ 10 # rest" and "10 \<notin> set line" and "length line \<le> MAX_LINE"
  shows "read_line_capped s = (Inr (strip_line_end line, Suc (length line)), s\<lparr>rx := rest\<rparr>)"
  using read_until_newline_line [OF assms(2), of "MAX_LINE + 1" rest] assms(1,3)
  by (simp add: read_line_capped_def read_line_loop.simps)

lemma read_line_eof: "rx s = [] \<Longrightarrow> read_line_capped s = (Inr ([], 0), s)"
  by (simp add: read_line_capped_def read_line_loop.simps read_until_newline_def)

lemma read_line_partial:
  assumes "10 \<notin> set (rx s)" and "rx s \<noteq> []" and "length (rx s) \<le> MAX_LINE"
  shows "read_line_capped s = (Inr (strip_line_end (rx s), length (rx s)), s\<lparr>rx := []\<rparr>)"
proof -
  have "read_until_newline (MAX_LINE + 1) (rx s) = (rx s, [])"
    using read_until_newline_none [of "MAX_LINE + 1" "rx s"] assms by simp
  moreover have "last (rx s) \<noteq> 10" using assms(1,2) by (metis last_in_set)
  moreover have "read_until_newline n [] = ([], [])" for n by (simp add: read_until_newline_def)
  ultimately show ?thesis using assms
    by (simp add: read_line_capped_def read_line_loop.simps [of "[]"] read_line_loop.simps [of "rx s"])
qed

lemma read_line_too_long:
  assumes "10 \<notin> set (take (MAX_LINE + 1) (rx s))" and "MAX_LINE < length (rx s)"
  shows "read_line_capped s =
    (Inl (invalid_data ''control message exceeds the 1 MiB line cap'' []), s\<lparr>rx := drop (MAX_LINE + 1) (rx s)\<rparr>)"
proof -
  let ?t = "take (MAX_LINE + 1) (rx s)"
  have "?t \<noteq> []" "length ?t = MAX_LINE + 1" using assms(2) by auto
  moreover have "last ?t \<noteq> 10" using assms(1) calculation(1) by (metis last_in_set)
  ultimately show ?thesis using read_until_newline_none [OF assms(1)]
    by (simp add: read_line_capped_def read_line_loop.simps [of "[]"])
qed

section \<open>Frames\<close>

text \<open>The upload of a tunnel: what successive reads gave, until one gives nothing, each as its
  length and its bytes.\<close>

fun copy_to_frames :: "bytes list \<Rightarrow> unit io" where
  "copy_to_frames [] = write_all (u32_to_be_bytes 0)"
| "copy_to_frames (chunk # chunks) =
     io_bind (write_all (u32_to_be_bytes (of_nat (length chunk)) @ chunk)) (\<lambda>_.
       if length chunk = 0 then io_return () else copy_to_frames chunks)"

definition read_u32 :: "u32 io" where
  "read_u32 = io_bind (read_exact 4) (\<lambda>bs. io_return (u32_from_be_bytes bs))"

lemma read_u32_shorter: "read_u32 s = (Inr n, s') \<Longrightarrow> length (rx s') < length (rx s)"
  by (auto simp: read_u32_def io_inv)

lemma frame_shorter:
  "(Inr n, s1) = read_u32 s \<Longrightarrow> (Inr bs, s2) = read_exact k s1 \<Longrightarrow> length (rx s2) < length (rx s)"
  using read_u32_shorter [of s n s1] read_exact_Inr_iff [of k s1 bs s2] by auto

function copy_from_frames :: "stream \<Rightarrow> stream \<Rightarrow> (io_error + unit) \<times> stream \<times> stream" where
  "copy_from_frames reader writer =
     (case read_u32 reader of
        (Inl e, reader') \<Rightarrow> (Inl e, reader', writer)
      | (Inr n, reader') \<Rightarrow>
          let len = unat n in
          if len = 0 then (Inr (), reader', writer)
          else if MAX_FRAME < len
          then (Inl (invalid_data ''tunnel frame of {len} bytes exceeds {MAX_FRAME}'' [FNat len, FNat MAX_FRAME]), reader', writer)
          else (case read_exact len reader' of
              (Inl e, reader'') \<Rightarrow> (Inl e, reader'', writer)
            | (Inr bs, reader'') \<Rightarrow>
                (case write_all bs writer of
                   (Inl e, writer') \<Rightarrow> (Inl e, reader'', writer')
                 | (Inr _, writer') \<Rightarrow> copy_from_frames reader'' writer')))"
  by pat_completeness auto
termination
  by (relation "measure (\<lambda>(reader, writer). length (rx reader))")
    (auto dest!: frame_shorter)

declare copy_from_frames.simps [simp del]

definition enc_frames :: "bytes list \<Rightarrow> bytes" where
  "enc_frames chunks = concat (map (\<lambda>c. u32_to_be_bytes (of_nat (length c)) @ c) chunks) @ u32_to_be_bytes 0"

definition chunks_ok :: "bytes list \<Rightarrow> bool" where
  "chunks_ok chunks \<longleftrightarrow> (\<forall>c \<in> set chunks. c \<noteq> [] \<and> length c \<le> MAX_FRAME)"

lemma copy_to_frames_enc:
  assumes "tx_open w" and "chunks_ok chunks"
  shows "copy_to_frames chunks w = (Inr (), w\<lparr>tx := tx w @ enc_frames chunks\<rparr>)"
  using assms
proof (induction chunks arbitrary: w)
  case (Cons c cs)
  then show ?case by (simp add: chunks_ok_def enc_frames_def io_simps)
qed (simp add: enc_frames_def io_simps)

lemma read_u32_append: "rx s = u32_to_be_bytes n @ rest \<Longrightarrow> read_u32 s = (Inr n, s\<lparr>rx := rest\<rparr>)"
  by (simp add: read_u32_def io_simps)

lemma copy_from_frames_enc:
  assumes "rx r = enc_frames chunks @ rest" and "chunks_ok chunks" and "tx_open w"
  shows "copy_from_frames r w = (Inr (), r\<lparr>rx := rest\<rparr>, w\<lparr>tx := tx w @ concat chunks\<rparr>)"
  using assms
proof (induction chunks arbitrary: r w)
  case Nil
  then show ?case
    using read_u32_append [of r 0 rest] by (simp add: copy_from_frames.simps [of r] enc_frames_def)
next
  case (Cons c cs)
  have len: "unat (of_nat (length c) :: u32) = length c" "length c \<noteq> 0" "length c \<le> MAX_FRAME"
    using Cons.prems(2) by (auto simp: chunks_ok_def MAX_FRAME_def unat_of_nat take_bit_nat_eq_self)
  have rd: "read_u32 r = (Inr (of_nat (length c)), r\<lparr>rx := c @ enc_frames cs @ rest\<rparr>)"
    using Cons.prems(1) by (intro read_u32_append) (simp add: enc_frames_def)
  have "copy_from_frames (r\<lparr>rx := enc_frames cs @ rest\<rparr>) (w\<lparr>tx := tx w @ c\<rparr>) =
      (Inr (), r\<lparr>rx := rest\<rparr>, w\<lparr>tx := (tx w @ c) @ concat cs\<rparr>)"
    using Cons.IH [of "r\<lparr>rx := enc_frames cs @ rest\<rparr>" "w\<lparr>tx := tx w @ c\<rparr>"] Cons.prems by (simp add: chunks_ok_def)
  then show ?case
    using len Cons.prems(3) by (simp add: copy_from_frames.simps [of r] rd io_simps)
qed

text \<open>C28: Whatever chunks the input comes in, the frames of a tunnel's upload give back exactly
  its bytes: they are written until the input ends, the reader stops at the empty frame, and
  what follows it stays unread. No frame is larger than the reader accepts.\<close>

theorem frames_round_trip:
  assumes "chunks_ok chunks" and "tx_open w" and "copy_to_frames chunks w = (r, w')"
    and "tx w = []" and "rx reader = tx w' @ rest" and "tx_open target"
  shows "r = Inr () \<and>
    copy_from_frames reader target = (Inr (), reader\<lparr>rx := rest\<rparr>, target\<lparr>tx := tx target @ concat chunks\<rparr>)"
proof -
  have "r = Inr ()" "tx w' = enc_frames chunks"
    using copy_to_frames_enc [OF assms(2,1)] assms(3,4) by auto
  with copy_from_frames_enc [of reader chunks rest, OF _ assms(1,6)] assms(5) show ?thesis by simp
qed

theorem frames_round_trip_witness:
  "copy_from_frames \<lparr>rx = enc_frames [[1, 2], [3]] @ [7], tx = [], tx_open = True\<rparr> \<lparr>rx = [], tx = [9], tx_open = True\<rparr> =
     (Inr (), \<lparr>rx = [7], tx = [], tx_open = True\<rparr>, \<lparr>rx = [], tx = [9, 1, 2, 3], tx_open = True\<rparr>)"
proof -
  have ok: "chunks_ok [[1, 2], [3]]" by (simp add: chunks_ok_def MAX_FRAME_def)
  have "copy_to_frames [[1, 2], [3]] \<lparr>rx = [], tx = [], tx_open = True\<rparr> =
      (Inr (), \<lparr>rx = [], tx = enc_frames [[1, 2], [3]], tx_open = True\<rparr>)"
    using copy_to_frames_enc [of "\<lparr>rx = [], tx = [], tx_open = True\<rparr>", OF _ ok] by simp
  from frames_round_trip [OF ok _ this, of "\<lparr>rx = enc_frames [[1, 2], [3]] @ [7], tx = [], tx_open = True\<rparr>" "[7]"
      "\<lparr>rx = [], tx = [9], tx_open = True\<rparr>"]
  show ?thesis by simp
qed

section \<open>The session's side\<close>

record ipc_env =
  ie_request :: "bytes \<Rightarrow> msg + ipc_request"
  ie_response :: "ipc_response \<Rightarrow> msg + bytes"

datatype ipc_cmd = CmdStatus | CmdConnPath

fun build_cmd :: "ipc_request \<Rightarrow> ipc_cmd option" where
  "build_cmd RqStatus = Some CmdStatus"
| "build_cmd RqConnPath = Some CmdConnPath"
| "build_cmd (RqConnect _ _) = None"

text \<open>What the session loop does with one command: whether it takes it off the channel, and
  what it sends back, if it lives to do so.\<close>

record session_reply =
  sr_accepts :: bool
  sr_status :: "status_snapshot option"
  sr_conn_path :: "wire_conn_snapshot option"

fun into_response :: "ipc_cmd \<Rightarrow> session_reply \<Rightarrow> ipc_response option" where
  "into_response CmdStatus sr = map_option RsStatus (sr_status sr)"
| "into_response CmdConnPath sr = map_option RsConnPath (sr_conn_path sr)"

definition dispatch :: "ipc_request \<Rightarrow> session_reply \<Rightarrow> ipc_response option" where
  "dispatch request sr =
     (case build_cmd request of
        None \<Rightarrow> None
      | Some cmd \<Rightarrow> if sr_accepts sr then into_response cmd sr else None)"

definition write_response :: "ipc_env \<Rightarrow> ipc_response \<Rightarrow> unit io" where
  "write_response env response s =
     (case ie_response env response of
        Inl e \<Rightarrow> (Inl (IoError Other e), s)
      | Inr buf \<Rightarrow> write_all (buf @ [10]) s)"

datatype tunnel_outcome = TunnelRefused | CallerGone io_error | Relaying stream

definition serve_tunnel ::
  "ipc_env \<Rightarrow> (target \<Rightarrow> msg + stream) \<Rightarrow> string \<Rightarrow> u16 \<Rightarrow> stream \<Rightarrow> tunnel_outcome \<times> stream" where
  "serve_tunnel env opener host port s =
     (let opened = (case validate_remote_host host of
          Inl e \<Rightarrow> Inl e
        | Inr h \<Rightarrow> if port = 0 then Inl (''port must be 1-65535'', []) else opener (TDomain h port)) in
      case opened of
        Inl e \<Rightarrow> (TunnelRefused, snd (write_response env
          (RsError (''{host}:{port}: {e:#}'', FStr host # FNat (unat port) # FStr (fst e) # snd e)) s))
      | Inr tunnel \<Rightarrow>
          (case write_response env RsConnected s of
             (Inl e, s) \<Rightarrow> (CallerGone e, s)
           | (Inr _, s) \<Rightarrow> (Relaying tunnel, s)))"

text \<open>The two directions of the relay. The caller's end of input closes the tunnel's sending
  half only.\<close>

definition tunnel_upload :: "stream \<Rightarrow> stream \<Rightarrow> (io_error + unit) \<times> stream \<times> stream" where
  "tunnel_upload caller tunnel =
     (case copy_from_frames caller tunnel of
        (Inl e, caller, tunnel) \<Rightarrow> (Inl e, caller, tunnel)
      | (Inr _, caller, tunnel) \<Rightarrow> (Inr (), caller, tunnel\<lparr>tx_open := False\<rparr>))"

definition tunnel_download :: "stream \<Rightarrow> stream \<Rightarrow> (io_error + unit) \<times> stream \<times> stream" where
  "tunnel_download caller tunnel =
     (case write_all (rx tunnel) caller of (r, caller) \<Rightarrow> (r, caller, tunnel\<lparr>rx := []\<rparr>))"

lemma read_line_loop_counts:
  "read_line_loop buf tot s = (Inr (line, n), s') \<Longrightarrow> n + length (rx s') = tot + length (rx s) \<and> tot \<le> n \<and> tx s' = tx s \<and> tx_open s' = tx_open s"
proof (induction buf tot s arbitrary: line n s' rule: read_line_loop.induct)
  case (1 buf tot s)
  obtain r rest where rr: "read_until_newline (MAX_LINE + 1 - length buf) (rx s) = (r, rest)" by fastforce
  then have app: "rx s = r @ rest" by (rule read_until_newline_append)
  note step = 1(2) [unfolded read_line_loop.simps [of buf] rr prod.case Let_def]
  show ?case
  proof (cases "r = [] \<or> (buf @ r \<noteq> [] \<and> last (buf @ r) = 10) \<or> MAX_LINE < length (buf @ r)")
    case True
    then show ?thesis using step app by (auto split: if_splits)
  next
    case False
    then have "read_line_loop (buf @ r) (tot + length r) (s\<lparr>rx := rest\<rparr>) = (Inr (line, n), s')"
      using step by (auto split: if_splits)
    from 1(1) [OF rr [symmetric] refl refl refl _ _ this] False app show ?thesis by auto
  qed
qed

lemma read_line_shorter:
  "(Inr (line, n), s') = read_line_capped s \<Longrightarrow> 0 < n \<Longrightarrow> length (rx s') < length (rx s)"
  using read_line_loop_counts [of "[]" 0 s line n s'] by (auto simp: read_line_capped_def)

lemma write_response_rx: "(r, s') = write_response env response s \<Longrightarrow> rx s' = rx s"
  by (auto simp: write_response_def write_all_def split: sum.splits if_splits)

datatype control_end = Detached | ReadFailed io_error | SessionGone | WriteFailed io_error | TunnelEnd tunnel_outcome

function serve_connection ::
  "ipc_env \<Rightarrow> (target \<Rightarrow> msg + stream) \<Rightarrow> (nat \<Rightarrow> session_reply) \<Rightarrow> nat \<Rightarrow> stream \<Rightarrow> control_end \<times> stream" where
  "serve_connection env opener replies k s =
     (case read_line_capped s of
        (Inl e, s1) \<Rightarrow> (ReadFailed e, s1)
      | (Inr (line, n), s1) \<Rightarrow>
          if n = 0 then (Detached, s1)
          else
          let next_request = (\<lambda>response.
            case write_response env response s1 of
              (Inl e, s2) \<Rightarrow> (WriteFailed e, s2)
            | (Inr _, s2) \<Rightarrow> serve_connection env opener replies (Suc k) s2) in
          (case ie_request env line of
             Inl e \<Rightarrow> next_request (RsError (''Bad request: {e}'', snd e))
           | Inr (RqConnect host port) \<Rightarrow>
               (case serve_tunnel env opener host port s1 of (outcome, s2) \<Rightarrow> (TunnelEnd outcome, s2))
           | Inr request \<Rightarrow>
               (case dispatch request (replies k) of
                  Some response \<Rightarrow> next_request response
                | None \<Rightarrow> (SessionGone, s1))))"
  by pat_completeness auto
termination
  by (relation "measure (\<lambda>(env, opener, replies, k, s). length (rx s))")
    (auto dest!: write_response_rx read_line_shorter)

declare serve_connection.simps [simp del]

section \<open>Requests and answers\<close>

text \<open>The answer to one line that is not a connect request.\<close>

definition answer :: "ipc_env \<Rightarrow> session_reply \<Rightarrow> bytes \<Rightarrow> ipc_response option" where
  "answer env sr line =
     (case ie_request env line of
        Inl e \<Rightarrow> Some (RsError (''Bad request: {e}'', snd e))
      | Inr request \<Rightarrow> dispatch request sr)"

definition line_ok :: "bytes \<Rightarrow> bool" where
  "line_ok line \<longleftrightarrow> 10 \<notin> set line \<and> length line \<le> MAX_LINE \<and> (line = [] \<or> last line \<noteq> 13)"

lemma read_line_ok:
  assumes "rx s = line @ 10 # rest" and "line_ok line"
  shows "read_line_capped s = (Inr (line, Suc (length line)), s\<lparr>rx := rest\<rparr>)"
proof -
  have "strip_line_end line = line"
    using assms(2) by (intro strip_line_end_id) (auto simp: line_ok_def dest: last_in_set)
  with read_line_line [OF assms(1)] assms(2) show ?thesis by (simp add: line_ok_def)
qed

lemma serve_connection_answers:
  assumes "rx s = line @ 10 # rest" and "line_ok line" and "\<forall>h p. ie_request env line \<noteq> Inr (RqConnect h p)"
    and "answer env (replies k) line = Some resp" and "ie_response env resp = Inr out" and "tx_open s"
  shows "serve_connection env opener replies k s =
    serve_connection env opener replies (Suc k) (s\<lparr>rx := rest, tx := tx s @ out @ [10]\<rparr>)"
  using assms(3-6) by (subst serve_connection.simps)
    (auto simp: read_line_ok [OF assms(1,2)] answer_def write_response_def io_simps Let_def
      split: sum.splits ipc_request.splits option.splits)

lemma answers_in_order:
  assumes "rx s = concat (map (\<lambda>line. line @ [10]) lines)" and "\<forall>line \<in> set lines. line_ok line"
    and "\<forall>line \<in> set lines. \<forall>h p. ie_request env line \<noteq> Inr (RqConnect h p)"
    and "length outs = length lines"
    and "\<forall>i < length lines. \<exists>resp. answer env (replies (k + i)) (lines ! i) = Some resp \<and> ie_response env resp = Inr (outs ! i)"
    and "tx_open s"
  shows "serve_connection env opener replies k s =
    (Detached, s\<lparr>rx := [], tx := tx s @ concat (map (\<lambda>out. out @ [10]) outs)\<rparr>)"
  using assms
proof (induction lines arbitrary: k s outs)
  case Nil
  then show ?case by (simp add: serve_connection.simps [of env opener replies k s] read_line_eof)
next
  case (Cons line lines)
  then obtain out outs' where outs: "outs = out # outs'" by (cases outs) auto
  from Cons.prems(5) [rule_format, of 0] outs obtain resp where
    resp: "answer env (replies k) line = Some resp" "ie_response env resp = Inr out" by auto
  let ?s = "s\<lparr>rx := concat (map (\<lambda>line. line @ [10]) lines), tx := tx s @ out @ [10]\<rparr>"
  have "serve_connection env opener replies k s = serve_connection env opener replies (Suc k) ?s"
    using Cons.prems resp by (intro serve_connection_answers [where line = line and resp = resp]) auto
  also have "\<dots> = (Detached, ?s\<lparr>rx := [], tx := tx ?s @ concat (map (\<lambda>out. out @ [10]) outs')\<rparr>)"
    using Cons.prems outs by (intro Cons.IH) (auto dest: spec [where x = "Suc _"])
  finally show ?case by (simp add: outs)
qed

text \<open>C29: The control channel is strict request and response. A connection that sends lines, none
  of them a connect request, gets one line back for each, in the same order, malformed ones
  included, and is then served until it detaches. The line that comes back for a line is
  the answer of the session at that moment, or the error that names what was wrong.\<close>

theorem control_lines_answered_in_order:
  assumes "rx s = concat (map (\<lambda>line. line @ [10]) lines)" and "\<forall>line \<in> set lines. line_ok line"
    and "\<forall>line \<in> set lines. \<forall>h p. ie_request env line \<noteq> Inr (RqConnect h p)"
    and "\<forall>i < length lines. \<exists>resp. answer env (replies i) (lines ! i) = Some resp \<and> ie_response env resp = Inr (outs ! i)"
    and "length outs = length lines" and "tx_open s"
  shows "serve_connection env opener replies 0 s =
    (Detached, s\<lparr>rx := [], tx := tx s @ concat (map (\<lambda>out. out @ [10]) outs)\<rparr>)"
  using answers_in_order [OF assms(1,2,3,5) _ assms(6), of replies 0] assms(4) by simp

definition sample_ipc :: ipc_env where
  "sample_ipc = \<lparr>ie_request = (\<lambda>line. if line = [1] then Inr RqConnPath
       else if line = [2] then Inr (RqConnect '' [::1] '' 22) else Inl (''bad'', [])),
     ie_response = (\<lambda>r. Inr (case r of RsConnPath _ \<Rightarrow> [5] | RsConnected \<Rightarrow> [6] | _ \<Rightarrow> [7]))\<rparr>"

theorem control_lines_answered_in_order_witness:
  "serve_connection sample_ipc (\<lambda>_. Inl ([], []))
     (\<lambda>_. \<lparr>sr_accepts = True, sr_status = None, sr_conn_path = Some \<lparr>wcs_paths = [], wcs_custom_relays = []\<rparr>\<rparr>) 0
     \<lparr>rx = [1, 10, 9, 10, 1, 10], tx = [], tx_open = True\<rparr> =
   (Detached, \<lparr>rx = [], tx = [5, 10, 7, 10, 5, 10], tx_open = True\<rparr>)"
  by (subst control_lines_answered_in_order [where lines = "[[1], [9], [1]]" and outs = "[[5], [7], [5]]"])
    (auto simp: line_ok_def MAX_LINE_def sample_ipc_def answer_def dispatch_def less_Suc_eq numeral_3_eq_3)



section \<open>The attaching side\<close>

definition is_not_running :: "io_error \<Rightarrow> bool" where
  "is_not_running e \<longleftrightarrow> err_kind e = NotFound \<or> err_kind e = ConnectionRefused"

text \<open>\<open>None\<close> in the outcome of opening is the passed deadline.\<close>

record ipc_client =
  ic_key :: string
  ic_stream :: "stream option"

definition ipc_connect :: "string \<Rightarrow> (io_error + stream) option \<Rightarrow> msg + ipc_client option" where
  "ipc_connect key opened =
     (case opened of
        Some (Inr stream) \<Rightarrow> Inr (Some \<lparr>ic_key = key, ic_stream = Some stream\<rparr>)
      | Some (Inl e) \<Rightarrow>
          if is_not_running e then Inr None
          else Inl (wrap (''Failed to connect to the control socket'', []) (err_msg e))
      | None \<Rightarrow> Inl (''Timed out connecting to the control socket'', []))"

text \<open>One round trip: the session's answer has arrived on the stream by the time it is read.\<close>

record attach_env =
  at_request :: "ipc_request \<Rightarrow> msg + bytes"
  at_response :: "bytes \<Rightarrow> msg + ipc_response"

definition round_trip :: "attach_env \<Rightarrow> ipc_request \<Rightarrow> stream \<Rightarrow> (msg + ipc_response) \<times> stream" where
  "round_trip env request s =
     (case at_request env request of
        Inl e \<Rightarrow> (Inl e, s)
      | Inr buf \<Rightarrow>
          (case write_all (buf @ [10]) s of
             (Inl e, s) \<Rightarrow> (Inl (err_msg e), s)
           | (Inr _, s) \<Rightarrow>
               (case read_line_capped s of
                  (Inl e, s) \<Rightarrow> (Inl (err_msg e), s)
                | (Inr (line, n), s) \<Rightarrow>
                    if n = 0 then (Inl (''The client closed the control connection'', []), s)
                    else (with_context (''Malformed control response'', []) (at_response env line), s))))"

definition ipc_reconnect :: "(io_error + stream) option \<Rightarrow> ipc_client \<Rightarrow> (msg + unit) \<times> ipc_client" where
  "ipc_reconnect opened c =
     (case opened of
        Some (Inr stream) \<Rightarrow> (Inr (), c\<lparr>ic_stream := Some stream\<rparr>)
      | Some (Inl e) \<Rightarrow> (Inl (wrap (''Failed to reconnect to the control socket'', []) (err_msg e)), c)
      | None \<Rightarrow> (Inl (''Timed out reconnecting to the control socket'', []), c))"

text \<open>A request whose answer takes longer than the deadline drops the stream; \<open>delay\<close> is how
  long the round trip takes.\<close>

definition ipc_client_request ::
  "attach_env \<Rightarrow> (io_error + stream) option \<Rightarrow> duration \<Rightarrow> ipc_request \<Rightarrow> ipc_client \<Rightarrow> (msg + ipc_response) \<times> ipc_client" where
  "ipc_client_request env opened delay request c =
     (case (if ic_stream c = None then ipc_reconnect opened c else (Inr (), c)) of
        (Inl e, c) \<Rightarrow> (Inl e, c)
      | (Inr _, c) \<Rightarrow>
          (case ic_stream c of
             None \<Rightarrow> (Inl (''stream reconnected before round_trip'', []), c)
           | Some s \<Rightarrow>
               if delay < REQUEST_TIMEOUT
               then (case round_trip env request s of (r, s) \<Rightarrow> (r, c\<lparr>ic_stream := Some s\<rparr>))
               else (Inl (''Timed out waiting for the client's response'', []), c\<lparr>ic_stream := None\<rparr>)))"

definition ipc_open_tunnel ::
  "attach_env \<Rightarrow> (io_error + stream) \<Rightarrow> duration \<Rightarrow> string \<Rightarrow> u16 \<Rightarrow> ipc_client \<Rightarrow> msg + stream" where
  "ipc_open_tunnel env opened delay host port c =
     (case (case ic_stream c of Some s \<Rightarrow> Inr s | None \<Rightarrow> opened) of
        Inl e \<Rightarrow> Inl (err_msg e)
      | Inr s \<Rightarrow>
          if delay < IPC_CONNECT_TIMEOUT
          then (case round_trip env (RqConnect host port) s of
              (Inl e, _) \<Rightarrow> Inl e
            | (Inr RsConnected, s) \<Rightarrow> Inr s
            | (Inr (RsError message), _) \<Rightarrow> Inl message
            | (Inr _, _) \<Rightarrow> Inl (''Unexpected response to a connect request: {other:?}'', []))
          else Inl (''Timed out waiting for the client to open the tunnel'', []))"

end
