(* ===== verification/Session.thy ===== *)
theory Session
  imports Control Identity
begin

text \<open>
  The client process of the command line tool: its identity and locks
  (\<^verbatim>\<open>src/crates/flextunnel-cli/src/instance.rs\<close>, \<^verbatim>\<open>lock.rs\<close>), the prompts of the quick mode
  (\<^verbatim>\<open>prompt.rs\<close>) and the session with its forwards and status (\<^verbatim>\<open>client_session.rs\<close>). The
  lemmas show that the forwards taken from the configuration are valid and distinct, that
  the session's ticker keeps what the user sees true, and when the prompts end.
\<close>

section \<open>The instance\<close>

definition KEY_LEN :: nat where "KEY_LEN = 16"

definition instance_key :: "string \<Rightarrow> msg + string" where
  "instance_key server_node_id =
     (let i = trim server_node_id in
      if length i < KEY_LEN \<or> \<not> list_all is_ascii_alphanumeric i
      then Inl (''server_node_id {id:?} does not look like a server EndpointId'', [FStr i])
      else Inr (to_ascii_lowercase (take KEY_LEN i)))"

definition instance_dir :: "string option \<Rightarrow> msg + string" where
  "instance_dir home =
     (case home of
        None \<Rightarrow> Inl (''Could not determine the home directory'', [])
      | Some h \<Rightarrow> Inr (path_join (path_join h ''.config'') ''flextunnel''))"

definition socket_path :: "string option \<Rightarrow> string \<Rightarrow> msg + string" where
  "socket_path home key = result_bind (instance_dir home) (\<lambda>dir. Inr (path_join dir (''client-'' @ key @ ''.sock'')))"

definition acquire_client ::
  "lock_calls \<Rightarrow> string option \<Rightarrow> nat \<Rightarrow> string \<Rightarrow> lock_world \<Rightarrow> (msg + nat) \<times> lock_world" where
  "acquire_client lc home handle key w =
     (case with_context (''The client single-instance lock cannot be enforced'', []) (instance_dir home) of
        Inl e \<Rightarrow> (Inl e, w)
      | Inr dir \<Rightarrow>
          lock_acquire lc handle (path_join dir (''client-'' @ key @ ''.lock''))
            (''Another flextunnel client is already running for this server (id prefix {key}). Only one client per server is allowed.'',
             [FStr key]) w)"

section \<open>Prompts\<close>

text \<open>The lines the user enters; after the last one the input is at its end, and reading gives
  an empty line. \<^verbatim>\<open>prompt_endpoint_id\<close> asks again for as long as it has to: the prompt is given
  a number of tries, and \<open>None\<close> is that it still asks after them.\<close>

definition input_line :: "string list \<Rightarrow> string" where
  "input_line input = (case input of [] \<Rightarrow> [] | line # _ \<Rightarrow> line)"

fun prompt_endpoint_id :: "nat \<Rightarrow> (string \<Rightarrow> msg + 'i) \<Rightarrow> string list \<Rightarrow> ('i \<times> string list) option" where
  "prompt_endpoint_id 0 parse input = None"
| "prompt_endpoint_id (Suc fuel) parse input =
     (let entered = trim (input_line input); input = tl input in
      if entered = [] then prompt_endpoint_id fuel parse input
      else case parse entered of
        Inr i \<Rightarrow> Some (i, input)
      | Inl _ \<Rightarrow> prompt_endpoint_id fuel parse input)"

fun prompt_optional_port :: "string list \<Rightarrow> u16 option \<times> string list" where
  "prompt_optional_port [] = (None, [])"
| "prompt_optional_port (line # input) =
     (let entered = trim line in
      if entered = [] then (None, input)
      else case parse_u16 entered of
        Some p \<Rightarrow> (Some p, input)
      | None \<Rightarrow> prompt_optional_port input)"

definition fill_client_config ::
  "nat \<Rightarrow> (string \<Rightarrow> msg + string) \<Rightarrow> client_toml \<Rightarrow> string list \<Rightarrow> client_toml option" where
  "fill_client_config fuel parse cli input =
     Option.bind (if ct_server_node_id cli = None
        then map_option (\<lambda>(i, input). (cli\<lparr>ct_server_node_id := Some i\<rparr>, input)) (prompt_endpoint_id fuel parse input)
        else Some (cli, input)) (\<lambda>(cli, input).
       let (cli, input) = (if ct_socks_port cli = None
             then (case prompt_optional_port input of (p, input) \<Rightarrow> (cli\<lparr>ct_socks_port := p\<rparr>, input)) else (cli, input));
           (cli, input) = (if ct_http_port cli = None
             then (case prompt_optional_port input of (p, input) \<Rightarrow> (cli\<lparr>ct_http_port := p\<rparr>, input)) else (cli, input))
       in Some cli)"

lemma trim_Nil [simp]: "trim [] = []"
  by (simp add: trim_def trim_start.simps [of "[]"] trim_end.simps [of "[]"]) code_simp

text \<open>C31: The prompt for an endpoint id returns exactly when some line of the input is a valid id:
  with the first such line, within as many tries as there are lines. When the input ends
  before that it never returns, however often it asks, because the end of the input is
  taken for an empty line. The prompt for a port always returns, having read some of the lines.\<close>

theorem prompt_ends_iff_valid_line:
  "(case find (\<lambda>line. trim line \<noteq> [] \<and> (\<exists>i. parse (trim line) = Inr i)) input of
      None \<Rightarrow> (\<forall>fuel. prompt_endpoint_id fuel parse input = None)
    | Some line \<Rightarrow> (\<exists>i rest. parse (trim line) = Inr i \<and> suffix rest input \<and>
        (\<forall>k. prompt_endpoint_id (length input + k) parse input = Some (i, rest)))) \<and>
   suffix (snd (prompt_optional_port input)) input"
proof -
  let ?valid = "\<lambda>line. trim line \<noteq> [] \<and> (\<exists>i. parse (trim line) = Inr i)"
  have none: "prompt_endpoint_id fuel parse input = None" if "find ?valid input = None" for fuel
    using that
  proof (induction fuel arbitrary: input)
    case (Suc fuel)
    show ?case
    proof (cases input)
      case Nil
      then show ?thesis using Suc.IH [of "[]"] by (simp add: input_line_def)
    next
      case (Cons line rest)
      then show ?thesis using Suc by (auto simp: input_line_def Let_def split: if_splits sum.splits)
    qed
  qed simp
  have some: "\<exists>i rest. parse (trim line) = Inr i \<and> suffix rest input \<and>
      (\<forall>k. prompt_endpoint_id (length input + k) parse input = Some (i, rest))" if "find ?valid input = Some line" for line
    using that
  proof (induction input)
    case (Cons l input)
    show ?case
    proof (cases "?valid l")
      case True
      then obtain i where "parse (trim l) = Inr i" by blast
      with True Cons.prems show ?thesis
        by (intro exI [of _ i] exI [of _ input]) (auto simp: input_line_def Let_def suffix_ConsI)
    next
      case False
      with Cons obtain i rest where "parse (trim line) = Inr i" "suffix rest input"
        "\<forall>k. prompt_endpoint_id (length input + k) parse input = Some (i, rest)" by auto
      with False show ?thesis
        by (intro exI [of _ i] exI [of _ rest]) (auto simp: input_line_def Let_def suffix_ConsI split: sum.splits)
    qed
  qed simp
  have "suffix (snd (prompt_optional_port input)) input"
    by (induction input rule: prompt_optional_port.induct) (auto simp: Let_def suffix_ConsI split: option.splits)
  with none some show ?thesis by (cases "find ?valid input") simp_all
qed

section \<open>The session's configuration\<close>

text \<open>The client's key comes from exactly one place; parsing a secret and loading a key file are
  operations of the key library.\<close>

definition resolve_client_key ::
  "(string \<Rightarrow> msg + 'k) \<Rightarrow> (string \<Rightarrow> msg + 'k) \<Rightarrow> resolved_client \<Rightarrow> msg + 'k" where
  "resolve_client_key from_secret_str load_key_file r =
     (if rc_auth_key r \<noteq> None \<and> rc_auth_key_file r \<noteq> None
      then Inl (''Provide only one of auth_key or auth_key_file, not both'', [])
      else case rc_auth_key r of
        Some secret \<Rightarrow> with_context (''Invalid client secret key'', []) (from_secret_str (trim secret))
      | None \<Rightarrow>
          (case rc_auth_key_file r of
             Some path \<Rightarrow> with_context (''Failed to load the client key file'', []) (load_key_file path)
           | None \<Rightarrow> Inl (''The client requires an authentication keypair.'' @ [CHR 0x0A] @
               ''Generate one with: flexaccess-keys generate-auth-key -o <FILE>'' @ [CHR 0x0A] @
               ''Then pass --auth-key-file <FILE> (or --auth-key <SECRET>), or set '' @
               ''auth_key_file/auth_key in the config, and put the key's public half '' @
               ''(`flexaccess-keys show-auth-key --private-key-file <FILE>`) on the '' @
               ''server's authorized_keys_file.'', [])))"

definition bind_local :: "string \<Rightarrow> u16 \<Rightarrow> io_error + 'l \<Rightarrow> msg + 'l" where
  "bind_local label port bound =
     map_err (\<lambda>e. if err_kind e = AddrInUse
       then (''{label} port {} is already in use '' @ em_dash @ '' another flextunnel?'', [FStr label, FNat (unat port)])
       else (''Failed to bind the {label} listener on {addr}: {e}'',
         FStr label # FStr (''127.0.0.1:'' @ show_nat (unat port)) # snd (err_msg e))) bound"

fun forwards_loop :: "nat \<Rightarrow> port_forward list \<Rightarrow> forward_config list \<Rightarrow> msg + port_forward list" where
  "forwards_loop i forwards [] = Inr forwards"
| "forwards_loop i forwards (entry # entries) =
     (let n = i + 1 in
      result_bind (map_err (\<lambda>e. (''forward #{n}: {e}'', FNat n # snd e)) (validate_label (fc_label entry))) (\<lambda>label.
      result_bind (map_err (\<lambda>e. (''forward #{n}: {e}'', FNat n # snd e)) (validate_remote_host (fc_remote_host entry))) (\<lambda>remote_host.
      if fc_local_port entry = 0 then Inl (''forward #{n}: local_port must be 1-65535'', [FNat n])
      else if fc_remote_port entry = 0 then Inl (''forward #{n}: remote_port must be 1-65535'', [FNat n])
      else case find (\<lambda>f. pf_local_port f = fc_local_port entry) forwards of
        Some owner \<Rightarrow> Inl (''forward #{n}: local_port {} is already used by {}'',
          [FNat n, FNat (unat (fc_local_port entry)), FStr (pf_display_name owner)])
      | None \<Rightarrow> forwards_loop (Suc i) (forwards @
          [\<lparr>pf_id = show_nat (unat (fc_local_port entry)), pf_label = label, pf_local_port = fc_local_port entry,
            pf_remote_host = remote_host, pf_remote_port = fc_remote_port entry, pf_enabled = True\<rparr>]) entries)))"

definition forwards_from_config :: "forward_config list \<Rightarrow> msg + port_forward list" where
  "forwards_from_config entries = forwards_loop 0 [] entries"

section \<open>What the session shows\<close>

record session_state =
  st_instance :: string
  st_name :: "string option"
  st_server_node_id :: string
  st_client_node_id :: string
  st_socks_addr :: "socket_addr option"
  st_http_addr :: "socket_addr option"
  st_ever_connected :: bool
  st_connected_since :: "instant option"
  st_reconnect :: reconnect_status
  st_disabled_reasons :: "(string \<times> msg) list"

definition observe_connection :: "instant \<Rightarrow> bool \<Rightarrow> session_state \<Rightarrow> session_state" where
  "observe_connection now connected st =
     (if connected
      then (let st = st\<lparr>st_ever_connected := True\<rparr> in
            if st_connected_since st = None then st\<lparr>st_connected_since := Some now\<rparr> else st)
      else st\<lparr>st_connected_since := None\<rparr>)"

definition session_phase :: "session_state \<Rightarrow> bool \<Rightarrow> phase" where
  "session_phase st connected =
     (if connected then PhConnected else if st_ever_connected st then PhReconnecting else PhConnecting)"

definition wire_forward_of :: "port_forward \<Rightarrow> wire_forward" where
  "wire_forward_of f = \<lparr>wf_label = pf_label f, wf_local_port = pf_local_port f,
     wf_remote_host = pf_remote_host f, wf_remote_port = pf_remote_port f\<rparr>"

definition wire_conn_path_of :: "conn_path \<Rightarrow> wire_conn_path" where
  "wire_conn_path_of p =
     \<lparr>wcp_kind = (case cp_kind p of PkDirect \<Rightarrow> ''direct'' | PkRelay \<Rightarrow> ''relay'' | PkOther \<Rightarrow> ''other''),
      wcp_display = cp_display p, wcp_selected = cp_selected p\<rparr>"

definition wire_routes_of :: "tunnel_routes \<Rightarrow> wire_routes" where
  "wire_routes_of routes =
     \<lparr>wr_domains = tr_domains routes, wr_cidrs = tr_cidrs routes, wr_host_aliases = tr_host_aliases routes,
      wr_dns_forwards = tr_dns_forwards routes,
      wr_bridges = map (\<lambda>b. \<lparr>wb_name = summary_name b, wb_endpoint_id = summary_endpoint_id b,
        wb_domains = summary_domains b, wb_cidrs = summary_cidrs b\<rparr>) (tr_bridges routes)\<rparr>"

definition forward_row_of :: "session_state \<Rightarrow> port_forward \<Rightarrow> forward_status list \<Rightarrow> forward_row" where
  "forward_row_of st f statuses =
     (case (if \<not> pf_enabled f then (RowStopped, map_of (st_disabled_reasons st) (pf_id f), 0, None)
            else case find (\<lambda>s. fst_id s = pf_id f) statuses of
              None \<Rightarrow> (RowStarting, None, 0, None)
            | Some s \<Rightarrow>
                (case fst_state s of
                   Starting \<Rightarrow> (RowStarting, None, fst_active s, fst_last_conn_error s)
                 | Listening \<Rightarrow> (RowListening, None, fst_active s, fst_last_conn_error s)
                 | Failed reason \<Rightarrow> (RowFailed, Some reason, fst_active s, fst_last_conn_error s))) of
        (state, error, active, last_conn_error) \<Rightarrow>
          \<lparr>row_forward = wire_forward_of f, row_state = state, row_error = error, row_active = active,
           row_last_conn_error = last_conn_error\<rparr>)"

definition session_snapshot ::
  "instant \<Rightarrow> session_state \<Rightarrow> tunnel_routes \<Rightarrow> port_forward list \<Rightarrow> forward_manager \<Rightarrow> status_snapshot" where
  "session_snapshot now st routes forwards m =
     (let statuses = forward_statuses m in
      \<lparr>sn_instance = st_instance st, sn_name = st_name st, sn_phase = session_phase st (tr_connected routes),
       sn_connected_secs = map_option (\<lambda>t. as_secs (now - t)) (st_connected_since st),
       sn_server_node_id = st_server_node_id st, sn_client_node_id = st_client_node_id st,
       sn_socks_addr = st_socks_addr st, sn_http_addr = st_http_addr st,
       sn_status_page_host = STATUS_HOST, sn_localhost_host = LOCALHOST_HOST,
       sn_failed_attempts = failed_attempts (st_reconnect st),
       sn_next_attempt_secs = map_option (\<lambda>at. as_secs (at - now)) (next_attempt_at (st_reconnect st)),
       sn_last_error = last_error (st_reconnect st), sn_routes = wire_routes_of routes,
       sn_forwards = map (\<lambda>f. forward_row_of st f statuses) forwards\<rparr>)"

section \<open>The session loop\<close>

text \<open>The ticker's arm: forwards that failed are switched off with their reason kept, and the
  connection, the reconnect progress and the node id are read.\<close>

record session_run =
  sx_forwards :: "port_forward list"
  sx_manager :: forward_manager
  sx_state :: session_state

definition session_begin :: "port_forward list \<Rightarrow> session_state \<Rightarrow> session_run" where
  "session_begin forwards st =
     \<lparr>sx_forwards = forwards, sx_manager = pf_manager_new forwards, sx_state = st\<lparr>st_disabled_reasons := []\<rparr>\<rparr>"

definition session_tick :: "instant \<Rightarrow> bool \<Rightarrow> reconnect_status \<Rightarrow> string \<Rightarrow> session_run \<Rightarrow> session_run" where
  "session_tick now connected status node_id r =
     (case disable_failed_forwards (sx_forwards r) (forward_statuses (sx_manager r)) of (forwards, failed) \<Rightarrow>
        let st = (sx_state r)\<lparr>st_disabled_reasons :=
              fold (\<lambda>(i, reason). AList.update i reason) failed (st_disabled_reasons (sx_state r))\<rparr>;
            st = (observe_connection now connected st)\<lparr>st_reconnect := status, st_client_node_id := node_id\<rparr> in
        \<lparr>sx_forwards = forwards, sx_manager = (if failed \<noteq> [] then pf_apply forwards (sx_manager r) else sx_manager r),
         sx_state = st\<rparr>)"

text \<open>Between ticks the forwards' tasks change their shared state.\<close>

definition tasks_progress :: "(string \<Rightarrow> forward_shared \<Rightarrow> forward_shared) \<Rightarrow> forward_manager \<Rightarrow> forward_manager" where
  "tasks_progress f m =
     m\<lparr>fm_tasks := map (\<lambda>(i, t). (i, t\<lparr>ftk_shared := f i (ftk_shared t)\<rparr>)) (fm_tasks m)\<rparr>"

inductive session_loop :: "session_run \<Rightarrow> session_run \<Rightarrow> bool" where
  ticked: "session_loop r (session_tick now connected status node_id r)"
| progressed: "session_loop r (r\<lparr>sx_manager := tasks_progress f (sx_manager r)\<rparr>)"

inductive_cases session_loopE: "session_loop r r'"

definition valid_forward :: "port_forward \<Rightarrow> bool" where
  "valid_forward f \<longleftrightarrow> pf_id f = show_nat (unat (pf_local_port f)) \<and> pf_local_port f \<noteq> 0 \<and> pf_remote_port f \<noteq> 0 \<and>
     validate_remote_host (pf_remote_host f) = Inr (pf_remote_host f) \<and> chars_count (pf_label f) \<le> MAX_LABEL_LEN"

lemma forwards_loop_valid:
  assumes "forwards_loop i fs entries = Inr fs'" and "distinct (map pf_local_port fs)"
    and "\<forall>f \<in> set fs. valid_forward f \<and> pf_enabled f"
  shows "distinct (map pf_local_port fs') \<and> (\<forall>f \<in> set fs'. valid_forward f \<and> pf_enabled f) \<and>
    map pf_local_port fs' = map pf_local_port fs @ map fc_local_port entries"
  using assms
proof (induction entries arbitrary: i fs)
  case (Cons entry entries)
  let ?g = "\<lambda>label host. \<lparr>pf_id = show_nat (unat (fc_local_port entry)), pf_label = label,
    pf_local_port = fc_local_port entry, pf_remote_host = host, pf_remote_port = fc_remote_port entry, pf_enabled = True\<rparr>"
  obtain label where l: "validate_label (fc_label entry) = Inr label"
    using Cons.prems(1) by (auto simp: Let_def result_bind_Inr_iff)
  obtain host where h: "validate_remote_host (fc_remote_host entry) = Inr host"
    using Cons.prems(1) by (auto simp: Let_def result_bind_Inr_iff)
  note step = Cons.prems(1) [unfolded forwards_loop.simps Let_def l h map_err_simps result_bind_simps]
  have p: "fc_local_port entry \<noteq> 0" "fc_remote_port entry \<noteq> 0" using step by (simp_all split: if_splits)
  have new: "find (\<lambda>f. pf_local_port f = fc_local_port entry) fs = None"
    using step p by (cases "find (\<lambda>f. pf_local_port f = fc_local_port entry) fs") simp_all
  have rest: "forwards_loop (Suc i) (fs @ [?g label host]) entries = Inr fs'" using step p new by simp
  have "validate_remote_host host = Inr host" using validated_host [OF h] validate_normal by blast
  moreover have "chars_count label \<le> MAX_LABEL_LEN"
    using l by (auto simp: validate_label_def Let_def split: if_splits)
  ultimately have valid: "\<forall>f \<in> set (fs @ [?g label host]). valid_forward f \<and> pf_enabled f"
    using Cons.prems(3) p by (simp add: valid_forward_def)
  have "fc_local_port entry \<notin> pf_local_port ` set fs" using new by (auto simp: find_None_iff)
  then have "distinct (map pf_local_port (fs @ [?g label host]))" using Cons.prems(2) by simp
  note IH = Cons.IH [OF rest this valid]
  have "map pf_local_port fs' = map pf_local_port fs @ map fc_local_port (entry # entries)" using IH by simp
  with IH show ?case by blast
qed simp

lemma valid_forward_ids:
  assumes "\<forall>f \<in> set fs. valid_forward f"
  shows "distinct (map pf_id fs) \<longleftrightarrow> distinct (map pf_local_port fs)"
proof -
  have "pf_id f = pf_id g \<longleftrightarrow> pf_local_port f = pf_local_port g" if "f \<in> set fs" "g \<in> set fs" for f g
    using that assms digits_val_show_nat unfolding valid_forward_def by (metis word_unat_eq_iff)
  then show ?thesis by (auto simp: distinct_map inj_on_def)
qed

text \<open>What the loop keeps: the manager is well formed, and a forward that is off has its
  reason recorded.\<close>

definition session_ok :: "session_run \<Rightarrow> bool" where
  "session_ok r \<longleftrightarrow> wf_manager (sx_manager r) \<and> distinct (map pf_id (sx_forwards r)) \<and>
     (\<forall>f \<in> set (sx_forwards r). \<not> pf_enabled f \<longrightarrow> map_of (st_disabled_reasons (sx_state r)) (pf_id f) \<noteq> None)"

lemma distinct_enabled_specs: "distinct (map pf_id fs) \<Longrightarrow> distinct (map fs_id (enabled_specs fs))"
  by (simp add: enabled_specs_def pf_spec_def comp_def distinct_map_filter)

lemma session_ok_begin:
  assumes "distinct (map pf_id fs)" and "\<forall>f \<in> set fs. pf_enabled f"
  shows "session_ok (session_begin fs st)"
  using assms wf_forward_manager_new [OF distinct_enabled_specs]
  by (auto simp: session_ok_def session_begin_def pf_manager_new_def)

lemma wf_tasks_progress:
  assumes "wf_manager m"
  shows "wf_manager (tasks_progress f m)"
proof -
  define g :: "string \<times> forward_task \<Rightarrow> string \<times> forward_task" where "g = (\<lambda>(i, t). (i, t\<lparr>ftk_shared := f i (ftk_shared t)\<rparr>))"
  have g: "fst \<circ> g = fst" "(ftk_handle \<circ> snd) \<circ> g = ftk_handle \<circ> snd" by (auto simp: g_def fun_eq_iff)
  have tasks: "fm_tasks (tasks_progress f m) = map g (fm_tasks m)"
    "running_tasks (tasks_progress f m) = running_tasks m" "fm_aborted (tasks_progress f m) = fm_aborted m"
    "fm_spawned (tasks_progress f m) = fm_spawned m"
    by (simp_all add: tasks_progress_def g_def running_tasks_def)
  have "\<forall>(i, task) \<in> set (map g (fm_tasks m)). fs_id (ftk_spec task) = i"
    using assms by (auto simp: wf_manager_def g_def)
  moreover have "(ftk_handle \<circ> snd) ` set (map g (fm_tasks m)) = running_tasks m"
    unfolding set_map image_comp g(2) using assms by (simp add: wf_manager_def)
  ultimately show ?thesis
    using assms unfolding wf_manager_def tasks map_map g by blast
qed

lemma fold_update_reasons:
  "map_of (fold (\<lambda>(i, reason). AList.update i reason) xs m) i \<noteq> None \<longleftrightarrow> i \<in> fst ` set xs \<or> map_of m i \<noteq> None"
  by (induction xs arbitrary: m) (auto simp: update_conv' split: if_splits)

lemma session_ok_tick:
  assumes "session_ok r"
  shows "session_ok (session_tick now connected status node_id r)"
proof -
  let ?sts = "forward_statuses (sx_manager r)"
  obtain forwards failed where d: "disable_failed_forwards (sx_forwards r) ?sts = (forwards, failed)" by fastforce
  have wf: "wf_manager (sx_manager r)" and ids: "distinct (map pf_id (sx_forwards r))"
    using assms by (simp_all add: session_ok_def)
  have "map fst_id ?sts = map fst (fm_tasks (sx_manager r))" by (auto simp: forward_statuses_def)
  then have dst: "distinct (map fst_id ?sts)" using wf by (simp add: wf_manager_def)
  have fs: "forwards = map (\<lambda>f. if \<exists>x. failed_with ?sts (pf_id f) x then switched_off f else f) (sx_forwards r)"
    and off: "set failed = {(pf_id f, x) | f x. f \<in> set (sx_forwards r) \<and> pf_enabled f \<and> failed_with ?sts (pf_id f) x}"
    using fold_disable [OF ids dst, of "[]"] d by (simp_all add: disable_failed_forwards_def)
  have "map pf_id forwards = map pf_id (sx_forwards r)" unfolding fs by simp
  then have ids': "distinct (map pf_id forwards)" using ids by simp
  have "wf_manager (pf_apply forwards (sx_manager r))"
    unfolding pf_apply_def by (rule apply_forwards_specs(1) [OF wf distinct_enabled_specs [OF ids']])
  moreover have "pf_id f \<in> fst ` set failed \<or> map_of (st_disabled_reasons (sx_state r)) (pf_id f) \<noteq> None"
    if f: "f \<in> set forwards" "\<not> pf_enabled f" for f
  proof -
    from f(1) obtain g where g: "g \<in> set (sx_forwards r)" "f = (if \<exists>x. failed_with ?sts (pf_id g) x then switched_off g else g)"
      unfolding fs set_map image_iff by blast
    then have id: "pf_id f = pf_id g" by simp
    show ?thesis
    proof (cases "pf_enabled g")
      case True
      with g(2) f(2) obtain x where "failed_with ?sts (pf_id g) x" by (auto split: if_splits)
      with True g(1) have "(pf_id g, x) \<in> set failed" unfolding off by blast
      then show ?thesis unfolding id by force
    next
      case False
      with assms g(1) show ?thesis unfolding id session_ok_def by blast
    qed
  qed
  then have "map_of (fold (\<lambda>(i, reason). AList.update i reason) failed (st_disabled_reasons (sx_state r))) (pf_id f) \<noteq> None"
    if "f \<in> set forwards" "\<not> pf_enabled f" for f
    unfolding fold_update_reasons using that by blast
  moreover have "st_disabled_reasons (observe_connection now connected st) = st_disabled_reasons st" for st
    by (simp add: observe_connection_def Let_def)
  ultimately show ?thesis
    using wf ids' unfolding session_ok_def session_tick_def d prod.case Let_def by simp
qed

interpretation session_loops: invariant_system
  "\<lambda>r. \<exists>entries fs st. forwards_from_config entries = Inr fs \<and> r = session_begin fs st" session_loop session_ok
proof unfold_locales
  fix r
  assume "\<exists>entries fs st. forwards_from_config entries = Inr fs \<and> r = session_begin fs st"
  then obtain entries fs st where "forwards_from_config entries = Inr fs" "r = session_begin fs st" by blast
  then show "session_ok r"
    using forwards_loop_valid [of 0 "[]" entries fs] valid_forward_ids [of fs]
    by (auto simp: forwards_from_config_def intro!: session_ok_begin)
next
  fix r r'
  assume "session_ok r" "session_loop r r'"
  then show "session_ok r'"
    by (elim session_loopE) (simp_all add: session_ok_tick, simp add: session_ok_def wf_tasks_progress)
qed

text \<open>C32: A forward that the session switched off always says why. The forwards of a configuration
  that is accepted have distinct nonzero local ports and hosts in normal form, and whatever
  the listeners do and however often the session looks, the status it hands out has one row
  for each of them in the order of the configuration, and every stopped row carries the
  reason.\<close>

theorem stopped_forwards_say_why:
  assumes "forwards_from_config entries = Inr fs" and "session_loop\<^sup>*\<^sup>* (session_begin fs st) r"
  shows "distinct (map pf_local_port fs) \<and> (\<forall>f \<in> set fs. valid_forward f) \<and>
    map (wf_local_port \<circ> row_forward) (sn_forwards (session_snapshot now (sx_state r) routes (sx_forwards r) (sx_manager r))) =
      map fc_local_port entries \<and>
    (\<forall>row \<in> set (sn_forwards (session_snapshot now (sx_state r) routes (sx_forwards r) (sx_manager r))).
       row_state row = RowStopped \<longrightarrow> row_error row \<noteq> None)"
proof -
  have start: "\<exists>entries fs' st'. forwards_from_config entries = Inr fs' \<and> session_begin fs st = session_begin fs' st'"
    using assms(1) by blast
  have ok: "session_ok r" by (rule session_loops.reachable_inv [OF start assms(2)])
  have "forwards_loop 0 [] entries = Inr fs" using assms(1) by (simp add: forwards_from_config_def)
  then have valid: "distinct (map pf_local_port fs) \<and> (\<forall>f \<in> set fs. valid_forward f \<and> pf_enabled f) \<and>
      map pf_local_port fs = map pf_local_port ([] :: port_forward list) @ map fc_local_port entries"
    by (rule forwards_loop_valid) simp_all
  have ports: "map pf_local_port (sx_forwards r) = map pf_local_port fs"
    using assms(2)
  proof (induction rule: rtranclp_induct)
    case base
    then show ?case by (simp add: session_begin_def)
  next
    case (step r r')
    have ok: "session_ok r" by (rule session_loops.reachable_inv [OF start step(1)])
    have "map fst_id (forward_statuses (sx_manager r)) = map fst (fm_tasks (sx_manager r))"
      by (auto simp: forward_statuses_def)
    then have dst: "distinct (map fst_id (forward_statuses (sx_manager r)))" using ok by (simp add: session_ok_def wf_manager_def)
    have ids: "distinct (map pf_id (sx_forwards r))" using ok by (simp add: session_ok_def)
    have "map pf_local_port (fst (disable_failed_forwards (sx_forwards r) (forward_statuses (sx_manager r)))) = map pf_local_port (sx_forwards r)"
      unfolding disable_failed_forwards_def using fold_disable [OF ids dst, of "[]"] by simp
    with step(2,3) show ?case by (auto elim!: session_loopE simp: session_tick_def Let_def split: prod.splits)
  qed
  have why: "row_error row \<noteq> None" if "f \<in> set (sx_forwards r)" "row = forward_row_of (sx_state r) f sts" "row_state row = RowStopped"
    for row f sts
  proof (cases "pf_enabled f")
    case True
    with that(2,3) show ?thesis
      by (cases "find (\<lambda>s. fst_id s = pf_id f) sts") (auto simp: forward_row_of_def split: forward_state.splits)
  next
    case False
    with ok that show ?thesis by (auto simp: session_ok_def forward_row_of_def)
  qed
  let ?rows = "sn_forwards (session_snapshot now (sx_state r) routes (sx_forwards r) (sx_manager r))"
  have "wf_local_port (row_forward (forward_row_of st' f sts)) = pf_local_port f" for st' f sts
    by (simp add: forward_row_of_def wire_forward_of_def split: prod.split)
  then have "map (wf_local_port \<circ> row_forward) ?rows = map pf_local_port (sx_forwards r)"
    by (simp add: session_snapshot_def Let_def comp_def)
  then have "map (wf_local_port \<circ> row_forward) ?rows = map fc_local_port entries" using ports valid by simp
  moreover have "\<forall>row \<in> set ?rows. row_state row = RowStopped \<longrightarrow> row_error row \<noteq> None"
    using why unfolding session_snapshot_def Let_def by auto
  ultimately show ?thesis using valid by blast
qed

theorem stopped_forwards_say_why_witness:
  "\<exists>fs st r row. forwards_from_config [\<lparr>fc_label = '' db '', fc_local_port = 80, fc_remote_host = '' [::1] '', fc_remote_port = 1\<rparr>] = Inr fs \<and>
     session_loop\<^sup>*\<^sup>* (session_begin fs st) r \<and>
     row \<in> set (sn_forwards (session_snapshot 0 (sx_state r) tunnel_routes_default (sx_forwards r) (sx_manager r))) \<and>
     row_state row = RowStopped \<and> row_error row \<noteq> None"
proof -
  let ?es = "[\<lparr>fc_label = '' db '', fc_local_port = 80, fc_remote_host = '' [::1] '', fc_remote_port = 1\<rparr>]"
  let ?fs = "[\<lparr>pf_id = ''80'', pf_label = ''db'', pf_local_port = 80, pf_remote_host = ''::1'', pf_remote_port = 1, pf_enabled = True\<rparr>]"
  let ?st = "\<lparr>st_instance = [], st_name = None, st_server_node_id = [], st_client_node_id = [], st_socks_addr = None,
    st_http_addr = None, st_ever_connected = False, st_connected_since = None, st_reconnect = reconnect_status_default,
    st_disabled_reasons = []\<rparr>"
  have cfg: "forwards_from_config ?es = Inr ?fs" by code_simp
  let ?r0 = "session_begin ?fs ?st"
  let ?r1 = "?r0\<lparr>sx_manager := tasks_progress (\<lambda>_ sh. sh\<lparr>fh_state := Failed ([], [])\<rparr>) (sx_manager ?r0)\<rparr>"
  let ?r2 = "session_tick 0 False reconnect_status_default [] ?r1"
  have "session_loop ?r0 ?r1" "session_loop ?r1 ?r2" by (rule session_loop.intros)+
  then have run: "session_loop\<^sup>*\<^sup>* ?r0 ?r2" by (meson converse_rtranclp_into_rtranclp rtranclp.rtrancl_refl)
  let ?rows = "sn_forwards (session_snapshot 0 (sx_state ?r2) tunnel_routes_default (sx_forwards ?r2) (sx_manager ?r2))"
  have "map row_state ?rows = [RowStopped]" by code_simp
  then obtain row where row: "row \<in> set ?rows" "row_state row = RowStopped" by (cases ?rows) auto
  moreover from stopped_forwards_say_why [OF cfg run] row have "row_error row \<noteq> None" by blast
  ultimately show ?thesis using cfg run by blast
qed

end
