(* ===== verification/Ffi.thy ===== *)
theory Ffi
  imports Port_Forward
begin

text \<open>
  The C interface for the iOS app, \<^verbatim>\<open>src/crates/flextunnel-ffi/src/lib.rs\<close>: the writing of a result
  into the caller's buffer, starting and stopping the one session, and the operations on a
  running one. A buffer is its bytes, a null pointer is \<open>None\<close>, and JSON, the runtime, the
  sockets and the keys are parameters. The lemmas show that no call writes outside its buffer
  and that it always ends in a NUL, that a second session cannot run, and that a new set of
  forwards is either applied as it is or refused without any change.
\<close>

section \<open>The caller's buffer\<close>

type_synonym cbuf = "bytes option"

text \<open>\<^verbatim>\<open>write_cstr\<close> into a buffer of \<open>len\<close> bytes; the buffer is at least that long.\<close>

definition write_cstr :: "cbuf \<Rightarrow> nat \<Rightarrow> string \<Rightarrow> bool \<times> cbuf" where
  "write_cstr buf len s =
     (case buf of
        None \<Rightarrow> (False, None)
      | Some mem \<Rightarrow>
          if len = 0 then (False, Some mem)
          else
            let bs = as_bytes s; copy = min (length bs) (len - 1);
                mem = take copy bs @ drop copy mem; mem = mem[copy := 0] in
            (copy = length bs, Some mem))"

text \<open>What the caller reads: up to the first NUL.\<close>

definition c_string :: "bytes \<Rightarrow> bytes" where
  "c_string mem = takeWhile (\<lambda>b. b \<noteq> 0) mem"

lemma write_cstr_mem:
  assumes "write_cstr (Some mem) len s = (ok, buf)" and "0 < len" and "len \<le> length mem"
  shows "\<exists>mem'. buf = Some mem' \<and> length mem' = length mem \<and> drop len mem' = drop len mem \<and>
    (\<exists>k < len. mem' ! k = 0 \<and> take k mem' = take k (as_bytes s)) \<and> (ok \<longleftrightarrow> length (as_bytes s) < len)"
proof -
  let ?bs = "as_bytes s"
  let ?copy = "min (length ?bs) (len - 1)"
  let ?m = "(take ?copy ?bs @ drop ?copy mem)[?copy := 0]"
  have b: "buf = Some ?m" and ok: "ok \<longleftrightarrow> ?copy = length ?bs"
    using assms(1,2) by (auto simp: write_cstr_def Let_def)
  have lt: "?copy < len" using assms(2) by auto
  have len: "length ?m = length mem" using assms(3) lt by simp
  have "drop len ?m = drop len mem" using lt assms(3) by (simp add: drop_update_cancel)
  moreover have "?m ! ?copy = 0" using lt assms(3) by simp
  moreover have "take ?copy ?m = take ?copy ?bs" by simp
  moreover have "ok \<longleftrightarrow> length ?bs < len" using ok assms(2) by auto
  ultimately show ?thesis using b len lt by blast
qed

lemma length_takeWhile_le_nul: "k < length xs \<Longrightarrow> xs ! k = 0 \<Longrightarrow> length (takeWhile (\<lambda>b. b \<noteq> 0) xs) \<le> k"
proof (induction xs arbitrary: k)
  case (Cons x xs)
  then show ?case by (cases k) auto
qed simp

text \<open>A text that contains no NUL and fits is what the caller reads.\<close>

lemma c_string_written:
  assumes "write_cstr (Some mem) len s = (True, Some mem')" and "0 < len" and "len \<le> length mem" and "0 \<notin> set (as_bytes s)"
  shows "c_string mem' = as_bytes s"
proof -
  let ?bs = "as_bytes s"
  have fits: "length ?bs < len" and m: "mem' = (?bs @ drop (length ?bs) mem)[length ?bs := 0]"
    using assms(1,2) by (auto simp: write_cstr_def Let_def min_def split: if_splits)
  then obtain x ys where "drop (length ?bs) mem = x # ys" using assms(3) by (cases "drop (length ?bs) mem") auto
  then have "mem' = ?bs @ 0 # ys" unfolding m by (simp add: list_update_append)
  moreover have "takeWhile (\<lambda>b. b \<noteq> 0) (?bs @ 0 # ys) = ?bs"
    using assms(4) by (subst takeWhile_append2) auto
  ultimately show ?thesis by (simp add: c_string_def)
qed

section \<open>Configuration and handles\<close>

record ffi_config =
  ffc_server_node_id :: string
  ffc_auth_key :: string
  ffc_socks_port :: "u16 option"
  ffc_relay_urls :: "string list"
  ffc_relay_auth_token :: "string option"

record ffi_forward =
  ff_id :: string
  ff_local_port :: u16
  ff_remote_host :: string
  ff_remote_port :: u16
  ff_enabled :: bool

text \<open>A session: its client with the routes it publishes, whether its loop has ended, the
  manager of the forwards, and whether a panic poisoned one of the two locks.\<close>

record 'n ffi_handle =
  hn_client :: "'n proxy_client"
  hn_finished :: bool
  hn_forwards :: forward_manager
  hn_forwards_poisoned :: bool
  hn_routes_poisoned :: bool

text \<open>The libraries' part: printing and parsing, the runtime, binding and reading the bound
  port, the relay configuration, the keys, the endpoint, and the client's random nonce.\<close>

record ffi_env =
  fe_print :: "json \<Rightarrow> string"
  fe_message :: "msg \<Rightarrow> string"
  fe_config :: "string \<Rightarrow> msg + ffi_config"
  fe_forwards :: "string \<Rightarrow> msg + ffi_forward list"
  fe_runtime :: "msg + unit"
  fe_bind :: "u16 \<Rightarrow> msg + unit"
  fe_bound_port :: "u16 \<Rightarrow> msg + u16"
  fe_relay :: "string list \<Rightarrow> string option \<Rightarrow> msg + unit"
  fe_key :: "string \<Rightarrow> msg + string \<times> (bytes \<Rightarrow> endpoint_id \<Rightarrow> string)"
  fe_generate :: "msg + string \<times> string"
  fe_now :: string
  fe_endpoint :: "msg + unit"
  fe_nonce :: u128

definition prefixed :: "string \<Rightarrow> msg + 'a \<Rightarrow> msg + 'a" where
  "prefixed p r = map_err (\<lambda>e. (p @ '': '' @ fst e, snd e)) r"

definition write_value :: "ffi_env \<Rightarrow> cbuf \<Rightarrow> nat \<Rightarrow> json \<Rightarrow> int \<times> cbuf" where
  "write_value env buf len json = (case write_cstr buf len (fe_print env json) of (ok, buf) \<Rightarrow> (if ok then 1 else 0, buf))"

section \<open>Keys\<close>

definition flextunnel_generate_client_key :: "ffi_env \<Rightarrow> cbuf \<Rightarrow> nat \<Rightarrow> int \<times> cbuf" where
  "flextunnel_generate_client_key env buf len =
     (case fe_generate env of
        Inl e \<Rightarrow> (0, snd (write_cstr buf len (fe_message env e)))
      | Inr (public, secret) \<Rightarrow>
          write_value env buf len (JObj
            [(''created'', JStr (fe_now env)), (''public_key'', JStr public), (''secret_key'', JStr secret)]))"

definition flextunnel_client_public_key :: "ffi_env \<Rightarrow> string option \<Rightarrow> cbuf \<Rightarrow> nat \<Rightarrow> int \<times> cbuf" where
  "flextunnel_client_public_key env secret_key buf len =
     (case secret_key of
        None \<Rightarrow> (0, snd (write_cstr buf len ''secret_key is null''))
      | Some secret \<Rightarrow>
          if \<not> valid_str secret then (0, snd (write_cstr buf len ''secret_key is not valid UTF-8''))
          else case prefixed ''invalid secret key'' (fe_key env (trim secret)) of
            Inr (public, _) \<Rightarrow> (case write_cstr buf len public of (ok, buf) \<Rightarrow> (if ok then 1 else 0, buf))
          | Inl e \<Rightarrow> (0, snd (write_cstr buf len (fe_message env e))))"

section \<open>Starting and stopping\<close>

definition start_inner :: "ffi_env \<Rightarrow> string \<Rightarrow> msg + ('n ffi_handle \<times> string)" where
  "start_inner env json =
     result_bind (prefixed ''invalid config JSON'' (fe_config env json)) (\<lambda>cfg.
     result_bind (prefixed ''failed to build tokio runtime'' (fe_runtime env)) (\<lambda>_.
     result_bind
       (case ffc_socks_port cfg of
          Some requested \<Rightarrow>
            result_bind (prefixed ''failed to bind a loopback SOCKS port'' (fe_bind env requested)) (\<lambda>_.
            result_bind (prefixed ''failed to read bound SOCKS port'' (fe_bound_port env requested)) (\<lambda>port. Inr (Some port)))
        | None \<Rightarrow> Inr None) (\<lambda>port.
     result_bind (prefixed ''invalid relay configuration'' (fe_relay env (ffc_relay_urls cfg) (ffc_relay_auth_token cfg))) (\<lambda>_.
     result_bind (prefixed ''invalid auth key'' (fe_key env (trim (ffc_auth_key cfg)))) (\<lambda>(public, sign).
     result_bind (prefixed ''failed to create iroh endpoint'' (fe_endpoint env)) (\<lambda>_.
     Inr (\<lparr>hn_client = proxy_client_new
             \<lparr>cc_server_node_id = ffc_server_node_id cfg, cc_auth = AuthKey public sign,
              cc_socks_listen = map_option (\<lambda>p. SockV4 ipv4_localhost p) port, cc_http_listen = None,
              cc_relay_urls = ffc_relay_urls cfg, cc_relay_auth_token = ffc_relay_auth_token cfg,
              auto_reconnect = True, max_reconnect_attempts = None\<rparr> (fe_nonce env),
           hn_finished = False, hn_forwards = forward_manager_new [],
           hn_forwards_poisoned = False, hn_routes_poisoned = False\<rparr>,
          fe_print env (JObj [(''socks_port'', case port of None \<Rightarrow> JNull | Some p \<Rightarrow> JNum (unat p))]))))))))"

text \<open>The process: the guard flag, the live sessions by their pointer, and how many calls are
  between claiming the guard and their end, or between ending a session and releasing it.\<close>

record 'n ffi_world =
  fw_running :: bool
  fw_live :: "(nat \<times> 'n ffi_handle) list"
  fw_starting :: nat
  fw_stopping :: nat
  fw_next :: nat

definition ffi_claim :: "'n ffi_world \<Rightarrow> 'n ffi_world option" where
  "ffi_claim w = (if fw_running w then None else Some (w\<lparr>fw_running := True, fw_starting := Suc (fw_starting w)\<rparr>))"

text \<open>The rest of a start that has the guard.\<close>

definition ffi_finish_start ::
  "ffi_env \<Rightarrow> string \<Rightarrow> cbuf \<Rightarrow> nat \<Rightarrow> 'n ffi_world \<Rightarrow> nat option \<times> cbuf \<times> 'n ffi_world" where
  "ffi_finish_start env json buf len w =
     (let w = w\<lparr>fw_starting := fw_starting w - 1\<rparr> in
      case start_inner env json of
        Inr (h, result_json) \<Rightarrow>
          (case write_cstr buf len result_json of
             (True, buf) \<Rightarrow> (Some (fw_next w), buf, w\<lparr>fw_live := (fw_next w, h) # fw_live w, fw_next := Suc (fw_next w)\<rparr>)
           | (False, buf) \<Rightarrow>
               (None, snd (write_cstr buf len ''out_buf too small for result JSON''), w\<lparr>fw_running := False\<rparr>))
      | Inl m \<Rightarrow> (None, snd (write_cstr buf len (fe_message env m)), w\<lparr>fw_running := False\<rparr>))"

definition flextunnel_start ::
  "ffi_env \<Rightarrow> string option \<Rightarrow> cbuf \<Rightarrow> nat \<Rightarrow> 'n ffi_world \<Rightarrow> nat option \<times> cbuf \<times> 'n ffi_world" where
  "flextunnel_start env config_json buf len w =
     (case config_json of
        None \<Rightarrow> (None, snd (write_cstr buf len ''config_json is null''), w)
      | Some json \<Rightarrow>
          if \<not> valid_str json then (None, snd (write_cstr buf len ''config_json is not valid UTF-8''), w)
          else case ffi_claim w of
            None \<Rightarrow> (None, snd (write_cstr buf len ''a flextunnel proxy is already running; stop it first''), w)
          | Some w \<Rightarrow> ffi_finish_start env json buf len w)"

text \<open>Stopping ends the session first and releases the guard afterwards.\<close>

definition ffi_end_session :: "nat \<Rightarrow> 'n ffi_world \<Rightarrow> 'n ffi_world" where
  "ffi_end_session p w = w\<lparr>fw_live := filter (\<lambda>(q, _). q \<noteq> p) (fw_live w), fw_stopping := Suc (fw_stopping w)\<rparr>"

definition ffi_release :: "'n ffi_world \<Rightarrow> 'n ffi_world" where
  "ffi_release w = w\<lparr>fw_running := False, fw_stopping := fw_stopping w - 1\<rparr>"

definition flextunnel_stop :: "nat option \<Rightarrow> 'n ffi_world \<Rightarrow> 'n ffi_world" where
  "flextunnel_stop handle w =
     (case handle of None \<Rightarrow> w | Some p \<Rightarrow> ffi_release (ffi_end_session p w))"

section \<open>Operations on a session\<close>

text \<open>Each takes the session behind the pointer, or \<open>None\<close> for a null pointer, and returns the
  result, the buffer and the session. The check of the forwards keeps the ids and the ports
  it has seen.\<close>

fun ffi_specs :: "string set \<Rightarrow> u16 set \<Rightarrow> ffi_forward list \<Rightarrow> string + forward_spec list" where
  "ffi_specs ids ports [] = Inr []"
| "ffi_specs ids ports (f # fs) =
     (if \<not> ff_enabled f then ffi_specs ids ports fs
      else if ff_id f = [] \<or> ff_id f \<in> ids then Inl ''forward ids must be non-empty and unique''
      else if ff_local_port f = 0 \<or> ff_local_port f \<in> ports
      then Inl ''enabled forward local ports must be nonzero and unique''
      else if trim (ff_remote_host f) = [] \<or> ff_remote_port f = 0
      then Inl ''forward targets require a host and nonzero port''
      else result_bind (ffi_specs (insert (ff_id f) ids) (insert (ff_local_port f) ports) fs) (\<lambda>specs.
        Inr (\<lparr>fs_id = ff_id f, fs_local_port = ff_local_port f,
               fs_target = TDomain (trim (ff_remote_host f)) (ff_remote_port f)\<rparr> # specs)))"

definition flextunnel_set_forwards ::
  "ffi_env \<Rightarrow> 'n ffi_handle option \<Rightarrow> string option \<Rightarrow> cbuf \<Rightarrow> nat \<Rightarrow> int \<times> cbuf \<times> 'n ffi_handle option" where
  "flextunnel_set_forwards env handle forwards_json buf len =
     (case handle of
        None \<Rightarrow> (-1, snd (write_cstr buf len ''null handle or forwards_json''), None)
      | Some h \<Rightarrow>
          (let refuse = (\<lambda>m. (0, snd (write_cstr buf len m), Some h)) in
           case forwards_json of
             None \<Rightarrow> refuse ''null handle or forwards_json''
           | Some json \<Rightarrow>
               if \<not> valid_str json then refuse ''forwards_json is not valid UTF-8''
               else case prefixed ''invalid forwards JSON'' (fe_forwards env json) of
                 Inl e \<Rightarrow> refuse (fe_message env e)
               | Inr configured \<Rightarrow>
                   (case ffi_specs {} {} configured of
                      Inl m \<Rightarrow> refuse m
                    | Inr specs \<Rightarrow>
                        if hn_forwards_poisoned h then refuse ''forward manager lock failed''
                        else (1, snd (write_cstr buf len []),
                              Some (h\<lparr>hn_forwards := apply_forwards specs (hn_forwards h)\<rparr>)))))"

definition status_json :: "forward_status \<Rightarrow> json" where
  "status_json st =
     (let (state, error) = (case fst_state st of
            Starting \<Rightarrow> (''starting'', JNull)
          | Listening \<Rightarrow> (''listening'', JNull)
          | Failed e \<Rightarrow> (''failed'', JMsg e)) in
      JObj [(''id'', JStr (fst_id st)), (''state'', JStr state), (''error'', error),
            (''active'', JNum (fst_active st)),
            (''last_conn_error'', case fst_last_conn_error st of None \<Rightarrow> JNull | Some e \<Rightarrow> JMsg e)])"

definition flextunnel_forward_statuses :: "ffi_env \<Rightarrow> 'n ffi_handle option \<Rightarrow> cbuf \<Rightarrow> nat \<Rightarrow> int \<times> cbuf" where
  "flextunnel_forward_statuses env handle buf len =
     (case handle of
        None \<Rightarrow> (-1, snd (write_cstr buf len []))
      | Some h \<Rightarrow>
          if hn_forwards_poisoned h then (-1, snd (write_cstr buf len []))
          else
            let json = fe_print env (JObj [(''forwards'', JArr (map status_json (forward_statuses (hn_forwards h))))]) in
            (int (length json + 1), snd (write_cstr buf len json)))"

definition flextunnel_close_listeners :: "'n ffi_handle option \<Rightarrow> int \<times> 'n ffi_handle option" where
  "flextunnel_close_listeners handle =
     (case handle of
        None \<Rightarrow> (-1, None)
      | Some h \<Rightarrow>
          (let h = h\<lparr>hn_client := close_local_listeners (hn_client h)\<rparr> in
           if hn_forwards_poisoned h then (0, Some h)
           else (1, Some (h\<lparr>hn_forwards := apply_forwards [] (hn_forwards h)\<rparr>))))"

definition flextunnel_set_background :: "int \<Rightarrow> 'n ffi_handle option \<Rightarrow> int \<times> 'n ffi_handle option" where
  "flextunnel_set_background b handle =
     (case handle of
        None \<Rightarrow> (-1, None)
      | Some h \<Rightarrow> (1, Some (h\<lparr>hn_client := set_background (b \<noteq> 0) (hn_client h)\<rparr>)))"

definition flextunnel_set_network_available :: "int \<Rightarrow> 'n ffi_handle option \<Rightarrow> int \<times> 'n ffi_handle option" where
  "flextunnel_set_network_available b handle =
     (case handle of
        None \<Rightarrow> (-1, None)
      | Some h \<Rightarrow> (1, Some (h\<lparr>hn_client := set_network_available (b \<noteq> 0) (hn_client h)\<rparr>)))"

definition flextunnel_health :: "'n ffi_handle option \<Rightarrow> int" where
  "flextunnel_health handle =
     (case handle of None \<Rightarrow> -1 | Some h \<Rightarrow> if hn_finished h then 0 else 1)"

definition strings_json :: "string list \<Rightarrow> json" where
  "strings_json xs = JArr (map JStr xs)"

definition routes_json :: "tunnel_routes \<Rightarrow> json" where
  "routes_json r = JObj
     [(''connected'', JBool (tr_connected r)), (''domains'', strings_json (tr_domains r)),
      (''cidrs'', strings_json (tr_cidrs r)),
      (''host_aliases'', JArr (map (\<lambda>(a, t). JArr [JStr a, JStr t]) (tr_host_aliases r))),
      (''dns_forwards'', JArr (map (\<lambda>(suffix, servers).
         JObj [(''suffix'', JStr suffix), (''servers'', strings_json servers)]) (tr_dns_forwards r))),
      (''bridges'', JArr (map (\<lambda>b.
         JObj [(''name'', JStr (summary_name b)), (''endpoint_id'', JStr (summary_endpoint_id b)),
               (''domains'', strings_json (summary_domains b)), (''cidrs'', strings_json (summary_cidrs b))]) (tr_bridges r)))]"

definition flextunnel_routes :: "ffi_env \<Rightarrow> 'n ffi_handle option \<Rightarrow> cbuf \<Rightarrow> nat \<Rightarrow> int \<times> cbuf" where
  "flextunnel_routes env handle buf len =
     (case handle of
        None \<Rightarrow> (-1, snd (write_cstr buf len []))
      | Some h \<Rightarrow>
          if hn_routes_poisoned h then (-1, snd (write_cstr buf len []))
          else write_value env buf len (routes_json (pcl_routes (hn_client h))))"

definition snapshot_json :: "connection_snapshot \<Rightarrow> json" where
  "snapshot_json snap = JObj
     [(''paths'', JArr (map (\<lambda>p.
         JObj [(''kind'', JStr (case cp_kind p of PkDirect \<Rightarrow> ''direct'' | PkRelay \<Rightarrow> ''relay'' | PkOther \<Rightarrow> ''other'')),
               (''display'', JMsg (cp_display p)), (''selected'', JBool (cp_selected p))]) (snap_paths snap))),
      (''custom_relays'', JArr (map (\<lambda>r.
         JObj [(''url'', JStr (relay_url r)), (''working'', case relay_working r of None \<Rightarrow> JNull | Some b \<Rightarrow> JBool b),
               (''error'', case relay_error r of None \<Rightarrow> JNull | Some e \<Rightarrow> JMsg e)]) (snap_relays snap))),
      (''udp_tx_datagrams'', JNum (unat (udp_tx_datagrams snap))),
      (''udp_rx_datagrams'', JNum (unat (udp_rx_datagrams snap)))]"

text \<open>The snapshot is what the client's \<^verbatim>\<open>connection_snapshot\<close> gives.\<close>

definition flextunnel_conn_path ::
  "ffi_env \<Rightarrow> ('n proxy_client \<Rightarrow> connection_snapshot) \<Rightarrow> 'n ffi_handle option \<Rightarrow> cbuf \<Rightarrow> nat \<Rightarrow> int \<times> cbuf" where
  "flextunnel_conn_path env snapshot handle buf len =
     (case handle of
        None \<Rightarrow> (-1, snd (write_cstr buf len []))
      | Some h \<Rightarrow> write_value env buf len (snapshot_json (snapshot (hn_client h))))"

section \<open>The caller's buffer is respected\<close>

text \<open>C35: The size contract of the status call holds. With a buffer of \<open>len\<close> bytes nothing behind
  the buffer's end is touched and there is always a NUL in it; the returned size is at most
  \<open>len\<close> if and only if the caller reads the complete text, whose printing contains no NUL,
  and a second call with a buffer of the returned size reads it completely.\<close>

theorem status_size_contract:
  assumes "0 < len" and "len \<le> length mem" and "\<not> hn_forwards_poisoned h"
    and "\<forall>json. 0 \<notin> set (as_bytes (fe_print env json))"
    and "flextunnel_forward_statuses env (Some h) (Some mem) len = (n, Some mem')"
    and "nat n \<le> length big"
  shows "length mem' = length mem \<and> drop len mem' = drop len mem \<and> 0 \<in> set (take len mem') \<and>
    (n \<le> int len \<longleftrightarrow>
       c_string mem' = as_bytes (fe_print env (JObj [(''forwards'', JArr (map status_json (forward_statuses (hn_forwards h))))]))) \<and>
    (\<exists>big'. flextunnel_forward_statuses env (Some h) (Some big) (nat n) = (n, Some big') \<and>
       c_string big' = as_bytes (fe_print env (JObj [(''forwards'', JArr (map status_json (forward_statuses (hn_forwards h))))])))"
proof -
  define s where "s = fe_print env (JObj [(''forwards'', JArr (map status_json (forward_statuses (hn_forwards h))))])"
  have z: "0 \<notin> set (as_bytes s)" using assms(4) by (simp add: s_def)
  have n: "n = int (length s + 1)" and w: "snd (write_cstr (Some mem) len s) = Some mem'"
    using assms(3,5) by (simp_all add: flextunnel_forward_statuses_def s_def Let_def)
  obtain ok where ok: "write_cstr (Some mem) len s = (ok, Some mem')" using w by (cases "write_cstr (Some mem) len s") simp
  obtain k where len: "length mem' = length mem" "drop len mem' = drop len mem" and k: "k < len" "mem' ! k = 0"
      "take k mem' = take k (as_bytes s)" and iff: "ok \<longleftrightarrow> length (as_bytes s) < len"
    using write_cstr_mem [OF ok assms(1,2)] by blast
  have nul: "0 \<in> set (take len mem')"
    using k(1,2) len(1) assms(2) by (metis in_set_conv_nth length_take min.absorb2 nth_take)
  have "n \<le> int len \<longleftrightarrow> c_string mem' = as_bytes s"
  proof
    assume "n \<le> int len"
    then have "ok" using iff n by (simp add: as_bytes_def)
    then show "c_string mem' = as_bytes s" using c_string_written [OF _ assms(1,2) z] ok by simp
  next
    assume c: "c_string mem' = as_bytes s"
    have "length (c_string mem') \<le> k"
      using k(1,2) len(1) assms(2) by (simp add: c_string_def length_takeWhile_le_nul)
    then show "n \<le> int len" using c k(1) n by (simp add: as_bytes_def)
  qed
  moreover obtain big' where b: "write_cstr (Some big) (nat n) s = (True, Some big')"
    using write_cstr_mem [of big "nat n" s] n assms(6) by (cases "write_cstr (Some big) (nat n) s") (auto simp: as_bytes_def)
  moreover have "c_string big' = as_bytes s" using c_string_written [OF b _ assms(6) z] n by simp
  moreover have "flextunnel_forward_statuses env (Some h) (Some big) (nat n) = (n, Some big')"
    using assms(3) b n by (simp add: flextunnel_forward_statuses_def Let_def s_def [symmetric])
  ultimately show ?thesis using len nul unfolding s_def by blast
qed

definition sample_ffi :: ffi_env where
  "sample_ffi = \<lparr>fe_print = (\<lambda>_. ''{}''), fe_message = fst,
     fe_config = (\<lambda>_. Inr \<lparr>ffc_server_node_id = ''s'', ffc_auth_key = ''k'', ffc_socks_port = Some 0, ffc_relay_urls = [],
       ffc_relay_auth_token = None\<rparr>),
     fe_forwards = (\<lambda>_. Inr [\<lparr>ff_id = ''a'', ff_local_port = 80, ff_remote_host = '' h '', ff_remote_port = 22, ff_enabled = True\<rparr>]),
     fe_runtime = Inr (), fe_bind = (\<lambda>_. Inr ()), fe_bound_port = (\<lambda>_. Inr 4000), fe_relay = (\<lambda>_ _. Inr ()),
     fe_key = (\<lambda>_. Inr (''pub'', \<lambda>_ _. ''sig'')), fe_generate = Inr (''pub'', ''sec''), fe_now = ''now'',
     fe_endpoint = Inr (), fe_nonce = 1\<rparr>"

definition sample_handle :: "unit ffi_handle" where
  "sample_handle = \<lparr>hn_client = proxy_client_new
     \<lparr>cc_server_node_id = ''s'', cc_auth = QuickAllowlisted, cc_socks_listen = None, cc_http_listen = None, cc_relay_urls = [],
      cc_relay_auth_token = None, auto_reconnect = True, max_reconnect_attempts = None\<rparr> 1,
     hn_finished = False, hn_forwards = forward_manager_new [], hn_forwards_poisoned = False, hn_routes_poisoned = False\<rparr>"

theorem status_size_contract_witness:
  "\<exists>mem'. flextunnel_forward_statuses sample_ffi (Some sample_handle) (Some [1, 1, 7]) 2 = (3, Some mem') \<and>
     mem' ! 2 = 7 \<and> c_string mem' \<noteq> as_bytes ''{}'' \<and>
     (\<exists>big'. flextunnel_forward_statuses sample_ffi (Some sample_handle) (Some [1, 1, 1]) 3 = (3, Some big') \<and>
        c_string big' = as_bytes ''{}'')"
proof -
  have np: "\<not> hn_forwards_poisoned sample_handle" by (simp add: sample_handle_def)
  have pr: "fe_print sample_ffi json = ''{}''" for json by (simp add: sample_ffi_def)
  have z: "\<forall>json. 0 \<notin> set (as_bytes (fe_print sample_ffi json))" by (simp add: pr as_bytes_def byte_of_char_def)
  obtain mem' where run: "flextunnel_forward_statuses sample_ffi (Some sample_handle) (Some [1, 1, 7]) 2 = (3, Some mem')"
    using np by (simp add: flextunnel_forward_statuses_def Let_def pr write_cstr_def)
  note c = status_size_contract [OF _ _ np z run, of "[1, 1, 1]", unfolded pr]
  have "mem' ! 2 = 7"
  proof -
    have "drop 2 mem' = [7]" "length mem' = 3" using c by simp_all
    then show ?thesis by (metis One_nat_def hd_drop_conv_nth lessI list.sel(1) numeral_3_eq_3 numeral_2_eq_2)
  qed
  moreover have "c_string mem' \<noteq> as_bytes ''{}''" using c by simp
  moreover have "\<exists>big'. flextunnel_forward_statuses sample_ffi (Some sample_handle) (Some [1, 1, 1]) 3 = (3, Some big') \<and>
        c_string big' = as_bytes ''{}''" using c by simp
  ultimately show ?thesis using run by blast
qed

section \<open>One session at a time\<close>

text \<open>The calls of any number of threads, cut where another can come between: the claim of the
  guard, the rest of a start, the end of a session and the release of the guard, and in
  between calls that change a live session.\<close>

inductive ffi_step :: "'n ffi_world \<Rightarrow> 'n ffi_world \<Rightarrow> bool" where
  claimed: "ffi_claim w = Some w' \<Longrightarrow> ffi_step w w'"
| finished: "0 < fw_starting w \<Longrightarrow> ffi_finish_start env json buf len w = (r, buf', w') \<Longrightarrow> ffi_step w w'"
| ended: "p \<in> fst ` set (fw_live w) \<Longrightarrow> ffi_step w (ffi_end_session p w)"
| released: "0 < fw_stopping w \<Longrightarrow> ffi_step w (ffi_release w)"
| used: "ffi_step w (w\<lparr>fw_live := map (\<lambda>(q, h). (q, if q = p then f h else h)) (fw_live w)\<rparr>)"

inductive_cases ffi_stepE: "ffi_step w w'"

definition ffi_idle :: "'n ffi_world" where
  "ffi_idle = \<lparr>fw_running = False, fw_live = [], fw_starting = 0, fw_stopping = 0, fw_next = 0\<rparr>"

definition ffi_sessions :: "'n ffi_world \<Rightarrow> nat" where
  "ffi_sessions w = length (fw_live w) + fw_starting w + fw_stopping w"

definition ffi_guarded :: "'n ffi_world \<Rightarrow> bool" where
  "ffi_guarded w \<longleftrightarrow> ffi_sessions w = (if fw_running w then 1 else 0)"

lemma ffi_finish_start_cases:
  assumes "ffi_finish_start env json buf len w = (r, buf', w')"
  shows "(r = None \<and> w' = w\<lparr>fw_starting := fw_starting w - 1, fw_running := False\<rparr>) \<or>
    (\<exists>h. r = Some (fw_next w) \<and>
      w' = w\<lparr>fw_starting := fw_starting w - 1, fw_live := (fw_next w, h) # fw_live w, fw_next := Suc (fw_next w)\<rparr>)"
  using assms unfolding ffi_finish_start_def Let_def by (auto split: sum.splits prod.splits bool.splits)

lemma ffi_guarded_step:
  assumes "ffi_step w w'" and "ffi_guarded w"
  shows "ffi_guarded w'"
  using assms
proof (cases rule: ffi_step.cases)
  case (finished env json buf len r buf')
  then have "fw_running w" and one: "length (fw_live w) + fw_starting w + fw_stopping w = 1"
    using assms(2) by (simp_all add: ffi_guarded_def ffi_sessions_def split: if_splits)
  moreover have "fw_starting w = 1" "fw_stopping w = 0" "fw_live w = []"
    using finished(1) one unfolding length_0_conv [symmetric] by linarith+
  ultimately show ?thesis
    using ffi_finish_start_cases [OF finished(2)] by (auto simp: ffi_guarded_def ffi_sessions_def)
next
  case (ended p)
  then obtain h where "fw_live w = [(p, h)]"
    using assms(2) by (cases "fw_live w") (auto simp: ffi_guarded_def ffi_sessions_def split: if_splits)
  then show ?thesis using assms(2) ended by (simp add: ffi_guarded_def ffi_sessions_def ffi_end_session_def)
qed (auto simp: ffi_guarded_def ffi_sessions_def ffi_claim_def ffi_release_def split: if_splits)

interpretation ffi_calls: invariant_system "(=) ffi_idle" ffi_step ffi_guarded
proof unfold_locales
  show "ffi_guarded w" if "ffi_idle = w" for w :: "'a ffi_world"
    using that by (auto simp: ffi_guarded_def ffi_idle_def ffi_sessions_def)
qed (rule ffi_guarded_step)

text \<open>A call is a sequence of these steps.\<close>

lemma flextunnel_start_steps:
  assumes "flextunnel_start env config buf len w = (r, buf', w')"
  shows "ffi_step\<^sup>*\<^sup>* w w'"
proof (cases "\<exists>json w1. config = Some json \<and> valid_str json \<and> ffi_claim w = Some w1")
  case True
  then obtain json w1 where c: "config = Some json" "valid_str json" "ffi_claim w = Some w1" by blast
  then have "0 < fw_starting w1" by (auto simp: ffi_claim_def split: if_splits)
  moreover have "ffi_finish_start env json buf len w1 = (r, buf', w')" using assms c by (simp add: flextunnel_start_def)
  ultimately have "ffi_step w1 w'" by (rule ffi_step.finished)
  then show ?thesis using ffi_step.claimed [OF c(3)] by simp
next
  case False
  then show ?thesis using assms by (auto simp: flextunnel_start_def split: option.splits if_splits)
qed

lemma flextunnel_stop_steps:
  assumes "p \<in> fst ` set (fw_live w)"
  shows "ffi_step\<^sup>*\<^sup>* w (flextunnel_stop (Some p) w)"
proof -
  have "ffi_step w (ffi_end_session p w)" by (rule ffi_step.ended [OF assms])
  moreover have "ffi_step (ffi_end_session p w) (ffi_release (ffi_end_session p w))"
    by (rule ffi_step.released) (simp add: ffi_end_session_def)
  ultimately show ?thesis by (simp add: flextunnel_stop_def)
qed

text \<open>C33: The process runs at most one session, whatever calls on whatever threads came before: at
  most one is starting, live or being torn down, and the guard is set exactly then. A start
  while it is set is refused and changes nothing. A start while it is free either fails and
  leaves it free, on every failure path, or hands out the only live session, and stopping
  that session frees it again.\<close>

theorem one_session_at_a_time:
  assumes "ffi_step\<^sup>*\<^sup>* ffi_idle w" and "valid_str json"
    and "flextunnel_start env (Some json) buf len w = (r, buf', w')"
  shows "length (fw_live w) + fw_starting w + fw_stopping w = (if fw_running w then 1 else 0) \<and>
    (if fw_running w then r = None \<and> w' = w
     else case r of
       None \<Rightarrow> w' = w
     | Some p \<Rightarrow> (\<exists>h. fw_live w' = [(p, h)]) \<and> fw_running w' \<and>
         flextunnel_stop r w' = w\<lparr>fw_next := Suc (fw_next w)\<rparr>)"
proof -
  have g: "ffi_guarded w" by (rule ffi_calls.reachable_inv [OF refl assms(1)])
  have "r = None \<and> w' = w" if "fw_running w"
    using that assms(2,3) by (auto simp: flextunnel_start_def ffi_claim_def)
  moreover have "case r of None \<Rightarrow> w' = w
     | Some p \<Rightarrow> (\<exists>h. fw_live w' = [(p, h)]) \<and> fw_running w' \<and> flextunnel_stop r w' = w\<lparr>fw_next := Suc (fw_next w)\<rparr>"
    if n: "\<not> fw_running w"
  proof -
    have e: "fw_live w = []" "fw_starting w = 0" "fw_stopping w = 0"
      using g n by (simp_all add: ffi_guarded_def ffi_sessions_def)
    have "ffi_finish_start env json buf len (w\<lparr>fw_running := True, fw_starting := 1\<rparr>) = (r, buf', w')"
      using assms(2,3) n e by (simp add: flextunnel_start_def ffi_claim_def)
    then show ?thesis
      using ffi_finish_start_cases [of env json buf len "w\<lparr>fw_running := True, fw_starting := 1\<rparr>"] e n
      by (cases w) (auto simp: flextunnel_stop_def ffi_release_def ffi_end_session_def)
  qed
  ultimately show ?thesis using g by (simp add: ffi_guarded_def ffi_sessions_def)
qed

theorem one_session_at_a_time_witness:
  "let w0 = ffi_idle :: unit ffi_world; (r, _, w1) = flextunnel_start sample_ffi (Some ''{}'') (Some [0, 0, 0]) 3 w0;
       (r', _, w2) = flextunnel_start sample_ffi (Some ''{}'') (Some [0, 0, 0]) 3 w1 in
   r = Some 0 \<and> r' = None \<and> w2 = w1 \<and> \<not> fw_running (flextunnel_stop r w1)"
proof -
  have v: "valid_str ''{}''" by (rule valid_str_ascii) simp
  obtain r b w1 where a: "flextunnel_start sample_ffi (Some ''{}'') (Some [0, 0, 0]) 3 (ffi_idle :: unit ffi_world) = (r, b, w1)"
    by (metis prod_cases3)
  obtain r' b' w2 where a': "flextunnel_start sample_ffi (Some ''{}'') (Some [0, 0, 0]) 3 w1 = (r', b', w2)"
    by (metis prod_cases3)
  have r: "r = Some 0" "fw_running w1"
    using a v by (auto simp: flextunnel_start_def ffi_claim_def ffi_idle_def ffi_finish_start_def start_inner_def sample_ffi_def
      prefixed_def write_cstr_def as_bytes_def)
  have "fw_next (ffi_idle :: unit ffi_world) = 0" "\<not> fw_running (ffi_idle :: unit ffi_world)" by (simp_all add: ffi_idle_def)
  then have "flextunnel_stop r w1 = ffi_idle\<lparr>fw_next := Suc 0\<rparr>"
    using one_session_at_a_time [OF _ v a] r(1) by simp
  then have "\<not> fw_running (flextunnel_stop r w1)" by (simp add: ffi_idle_def)
  moreover have "r' = None \<and> w2 = w1" using one_session_at_a_time [OF flextunnel_start_steps [OF a] v a'] r(2) by simp
  ultimately show ?thesis using a a' r(1) by (simp add: Let_def)
qed

section \<open>A new set of forwards\<close>

text \<open>The specifications of an accepted set, in order.\<close>

definition spec_of :: "ffi_forward \<Rightarrow> forward_spec" where
  "spec_of f = \<lparr>fs_id = ff_id f, fs_local_port = ff_local_port f, fs_target = TDomain (trim (ff_remote_host f)) (ff_remote_port f)\<rparr>"

lemma ffi_specs_sound:
  assumes "ffi_specs ids ports fs = Inr specs"
  shows "specs = map spec_of (filter ff_enabled fs) \<and>
     distinct (map ff_id (filter ff_enabled fs)) \<and> ff_id ` set (filter ff_enabled fs) \<inter> ids = {} \<and>
     distinct (map ff_local_port (filter ff_enabled fs)) \<and> ff_local_port ` set (filter ff_enabled fs) \<inter> ports = {} \<and>
     (\<forall>f \<in> set (filter ff_enabled fs).
        ff_id f \<noteq> [] \<and> ff_local_port f \<noteq> 0 \<and> trim (ff_remote_host f) \<noteq> [] \<and> ff_remote_port f \<noteq> 0)"
  using assms
proof (induction fs arbitrary: ids ports specs)
  case (Cons f fs)
  show ?case
  proof (cases "ff_enabled f")
    case True
    with Cons.prems have ok: "ff_id f \<noteq> [] \<and> ff_id f \<notin> ids \<and> ff_local_port f \<noteq> 0 \<and> ff_local_port f \<notin> ports \<and>
      trim (ff_remote_host f) \<noteq> [] \<and> ff_remote_port f \<noteq> 0" by (auto split: if_splits)
    with True Cons.prems obtain specs' where "specs = spec_of f # specs'"
      and "ffi_specs (insert (ff_id f) ids) (insert (ff_local_port f) ports) fs = Inr specs'"
      by (cases "ffi_specs (insert (ff_id f) ids) (insert (ff_local_port f) ports) fs") (auto simp: spec_of_def)
    with Cons.IH [OF this(2)] True ok show ?thesis by simp
  next
    case False
    then show ?thesis using Cons.IH [of ids ports specs] Cons.prems by simp
  qed
qed simp

lemma set_forwards_cases:
  assumes "flextunnel_set_forwards env (Some h) json buf len = (n, buf', h')"
  shows "(n = 0 \<and> h' = Some h) \<or>
    (\<exists>src fs. n = 1 \<and> json = Some src \<and> valid_str src \<and> fe_forwards env src = Inr fs \<and> \<not> hn_forwards_poisoned h \<and>
       ffi_specs {} {} fs = Inr (map spec_of (filter ff_enabled fs)) \<and>
       h' = Some (h\<lparr>hn_forwards := apply_forwards (map spec_of (filter ff_enabled fs)) (hn_forwards h)\<rparr>))"
proof (cases "\<exists>src fs specs. json = Some src \<and> valid_str src \<and> fe_forwards env src = Inr fs \<and> ffi_specs {} {} fs = Inr specs \<and>
    \<not> hn_forwards_poisoned h")
  case True
  then obtain src fs specs where t: "json = Some src" "valid_str src" "fe_forwards env src = Inr fs"
    "ffi_specs {} {} fs = Inr specs" "\<not> hn_forwards_poisoned h" by blast
  moreover have "specs = map spec_of (filter ff_enabled fs)" using ffi_specs_sound [OF t(4)] by blast
  ultimately show ?thesis using assms by (auto simp: flextunnel_set_forwards_def prefixed_def Let_def)
next
  case False
  then show ?thesis
    using assms by (auto simp: flextunnel_set_forwards_def prefixed_def Let_def map_err_def split: option.splits sum.splits if_splits)
qed

text \<open>C34: A new set of forwards is applied as a whole or not at all. The call answers 1 only for a
  text whose enabled forwards have distinct nonempty ids, distinct nonzero local ports, a
  host and a port; then exactly they run, each to its trimmed host, and a forward that is in
  the old and the new set keeps its task. Otherwise the session is unchanged. After closing
  the listeners no forward runs.\<close>

theorem forwards_set_as_a_whole:
  assumes "wf_manager (hn_forwards h)" and "flextunnel_set_forwards env (Some h) json buf len = (n, buf', Some h')"
  shows "wf_manager (hn_forwards h') \<and> (n = 0 \<longrightarrow> h' = h) \<and>
    (n \<noteq> 0 \<longrightarrow> (\<exists>src fs. n = 1 \<and> json = Some src \<and> fe_forwards env src = Inr fs \<and>
       distinct (map ff_local_port (filter ff_enabled fs)) \<and> distinct (map ff_id (filter ff_enabled fs)) \<and>
       (\<forall>f \<in> set (filter ff_enabled fs). ff_id f \<noteq> [] \<and> ff_local_port f \<noteq> 0 \<and> trim (ff_remote_host f) \<noteq> [] \<and> ff_remote_port f \<noteq> 0) \<and>
       (ftk_spec \<circ> snd) ` set (fm_tasks (hn_forwards h')) = spec_of ` set (filter ff_enabled fs) \<and>
       (\<forall>(i, task) \<in> set (fm_tasks (hn_forwards h)).
          ftk_spec task \<in> spec_of ` set (filter ff_enabled fs) \<longrightarrow> (i, task) \<in> set (fm_tasks (hn_forwards h'))))) \<and>
    (\<exists>h''. snd (flextunnel_close_listeners (Some h')) = Some h'' \<and> local_close (hn_client h'') \<and>
       (\<not> hn_forwards_poisoned h' \<longrightarrow> fm_tasks (hn_forwards h'') = []))"
proof -
  have close: "\<exists>h''. snd (flextunnel_close_listeners (Some h')) = Some h'' \<and> local_close (hn_client h'') \<and>
       (\<not> hn_forwards_poisoned h' \<longrightarrow> fm_tasks (hn_forwards h'') = [])" if "wf_manager (hn_forwards h')"
    using apply_forwards_specs(2) [OF that, of "[]"]
    by (auto simp: flextunnel_close_listeners_def Let_def close_local_listeners_def)
  consider "n = 0" "h' = h"
    | src fs where "n = 1" "json = Some src" "fe_forwards env src = Inr fs"
      "ffi_specs {} {} fs = Inr (map spec_of (filter ff_enabled fs))"
      "h' = h\<lparr>hn_forwards := apply_forwards (map spec_of (filter ff_enabled fs)) (hn_forwards h)\<rparr>"
    using set_forwards_cases [OF assms(2)] by auto
  then show ?thesis
  proof cases
    case 1
    then show ?thesis using assms(1) close by simp
  next
    case 2
    let ?on = "filter ff_enabled fs"
    note sp = ffi_specs_sound [OF 2(4)]
    have "map fs_id (map spec_of ?on) = map ff_id ?on" by (simp add: spec_of_def)
    then have ids: "distinct (map fs_id (map spec_of ?on))" using sp by presburger
    note ap = apply_forwards_specs [OF assms(1) ids]
    have keep: "(i, task) \<in> set (fm_tasks (hn_forwards h'))"
      if "(i, task) \<in> set (fm_tasks (hn_forwards h))" "ftk_spec task \<in> spec_of ` set ?on" for i task
      using that ap(3) 2(5) by (auto simp: drop_unwanted_def)
    have "wf_manager (hn_forwards h')" "(ftk_spec \<circ> snd) ` set (fm_tasks (hn_forwards h')) = spec_of ` set ?on"
      using ap(1,2) 2(5) by simp_all
    then show ?thesis using close 2(1-3) sp keep by fastforce
  qed
qed

theorem forwards_set_as_a_whole_witness:
  "\<exists>h'. flextunnel_set_forwards sample_ffi (Some sample_handle) (Some ''[]'') None 0 = (1, None, Some h') \<and>
     (ftk_spec \<circ> snd) ` set (fm_tasks (hn_forwards h')) = {\<lparr>fs_id = ''a'', fs_local_port = 80, fs_target = TDomain ''h'' 22\<rparr>}"
proof -
  let ?fs = "[\<lparr>ff_id = ''a'', ff_local_port = 80, ff_remote_host = '' h '', ff_remote_port = 22, ff_enabled = True\<rparr>]"
  have wf: "wf_manager (hn_forwards sample_handle)" and np: "\<not> hn_forwards_poisoned sample_handle"
    by (simp_all add: sample_handle_def wf_forward_manager_new)
  have v: "valid_str ''[]''" by (rule valid_str_ascii) simp
  have t: "trim '' h '' = ''h''" by code_simp
  have fs: "fe_forwards sample_ffi src = Inr ?fs" for src by (simp add: sample_ffi_def)
  have sp: "ffi_specs {} {} ?fs = Inr (map spec_of ?fs)" using t by (simp add: spec_of_def)
  obtain h' where run: "flextunnel_set_forwards sample_ffi (Some sample_handle) (Some ''[]'') None 0 = (1, None, Some h')"
    using np v unfolding flextunnel_set_forwards_def prefixed_def fs by (simp del: ffi_specs.simps add: sp write_cstr_def)
  have "(ftk_spec \<circ> snd) ` set (fm_tasks (hn_forwards h')) = spec_of ` set (filter ff_enabled ?fs)"
  proof -
    obtain fs' where "fe_forwards sample_ffi ''[]'' = Inr fs'"
      and "(ftk_spec \<circ> snd) ` set (fm_tasks (hn_forwards h')) = spec_of ` set (filter ff_enabled fs')"
      using forwards_set_as_a_whole [OF wf run] one_neq_zero [where 'a = int] by blast
    then show ?thesis by (simp add: fs)
  qed
  also have "\<dots> = {\<lparr>fs_id = ''a'', fs_local_port = 80, fs_target = TDomain ''h'' 22\<rparr>}" using t by (simp add: spec_of_def)
  finally show ?thesis using run by blast
qed

end
