(* ===== verification/Desktop_Store.thy ===== *)
theory Desktop_Store
  imports Port_Forward Config Blocklist "HOL-Library.AList"
begin

text \<open>
  The desktop app's persistent settings, \<^verbatim>\<open>src/crates/flextunnel-desktop/src/config.rs\<close>: the
  keys, profiles and the server, their validation, the sealing of the secrets, loading and
  saving, and the export and import of profiles. The file system is the map of the blocklist
  theory, the keychain an optional entry; the cipher, base64, JSON and the random numbers are
  parameters. The lemmas show that what is saved is loaded again with every secret, and what
  the clean-up of a hand-edited file keeps.
\<close>

section \<open>Settings\<close>

definition DEFAULT_SOCKS_PORT :: u16 where "DEFAULT_SOCKS_PORT = 1080"

definition DEFAULT_HTTP_PORT :: u16 where "DEFAULT_HTTP_PORT = 18080"

definition SEALED_VERSION :: u32 where "SEALED_VERSION = 1"

datatype backend = KeychainBackend | MockKeychain | DevFileBackend string

record auth_key =
  ak_id :: string
  ak_name :: string
  ak_public_key :: string
  ak_secret :: string

text \<open>\<^verbatim>\<open>random_id\<close>, the id of keys, profiles and forwards: a random number in hexadecimal.\<close>

definition random_id :: "u64 \<Rightarrow> string" where
  "random_id r = pf_new_id r"

definition find_key :: "auth_key list \<Rightarrow> string \<Rightarrow> auth_key option" where
  "find_key keys i = find (\<lambda>k. ak_id k = i) keys"

definition is_valid_name :: "string \<Rightarrow> bool" where
  "is_valid_name name \<longleftrightarrow>
     name \<noteq> [] \<and> chars_count name \<le> 64 \<and> \<not> prefix '' '' name \<and> \<not> suffix '' '' name \<and>
     \<not> sublist ''  '' name \<and> \<not> list_ex (\<lambda>w. w \<noteq> '' '' \<and> sublist w name) white_space"

record profile =
  pr_id :: string
  pr_name :: string
  pr_server_node_id :: string
  pr_auth_key_id :: string
  pr_socks_port :: "u16 option"
  pr_http_port :: "u16 option"
  pr_relay_urls :: "string list"
  pr_relay_auth_token :: "string option"
  pr_forwards :: "port_forward list"

definition profile_is_ready :: "auth_key list \<Rightarrow> profile \<Rightarrow> bool" where
  "profile_is_ready keys p \<longleftrightarrow>
     pr_server_node_id p \<noteq> [] \<and>
     (case find_key keys (pr_auth_key_id p) of None \<Rightarrow> False | Some k \<Rightarrow> ak_secret k \<noteq> [])"

definition SERVER_SECRET_ID :: string where "SERVER_SECRET_ID = ''server''"

definition SERVER_RELAY_SECRET_ID :: string where "SERVER_RELAY_SECRET_ID = ''server-relay''"

definition PROFILE_RELAY_PREFIX :: string where "PROFILE_RELAY_PREFIX = ''relay:''"

definition profile_relay_secret_id :: "string \<Rightarrow> string" where
  "profile_relay_secret_id i = PROFILE_RELAY_PREFIX @ i"

definition is_reserved_secret_id :: "string \<Rightarrow> bool" where
  "is_reserved_secret_id i \<longleftrightarrow>
     i = SERVER_SECRET_ID \<or> i = SERVER_RELAY_SECRET_ID \<or> prefix PROFILE_RELAY_PREFIX i"

record authorized_client =
  ac_name :: string
  ac_public_key :: string

record server_config =
  sv_endpoint_id :: string
  sv_secret :: string
  sv_authorized_clients :: "authorized_client list"
  sv_routed_domains :: "string list"
  sv_routed_cidrs :: "string list"
  sv_relay_urls :: "string list"
  sv_relay_auth_token :: "string option"
  sv_enabled :: bool

definition start_blocker :: "server_config \<Rightarrow> string option" where
  "start_blocker s =
     (if sv_secret s = [] then
        Some (''The identity key is missing from the keychain '' @ em_dash @
              '' import it, or generate a new identity, under Endpoint ID.'')
      else if sv_authorized_clients s = [] then Some ''Authorize at least one client to start the server.''
      else None)"

definition server_is_ready :: "server_config \<Rightarrow> bool" where
  "server_is_ready s \<longleftrightarrow> start_blocker s = None"

text \<open>The canonical token of a public key, with the key library's parser as a parameter.\<close>

definition parse_client_public_key :: "(string \<Rightarrow> msg + string) \<Rightarrow> string \<Rightarrow> msg + string" where
  "parse_client_public_key token value =
     map_err (\<lambda>e. (''Invalid public key: '' @ fst e, snd e)) (token (trim value))"

section \<open>Cleaning up a hand-edited file\<close>

text \<open>Each filter keeps what it has seen, in the order in which the source inserts it.\<close>

fun drop_invalid_clients_from ::
  "(string \<Rightarrow> msg + string) \<Rightarrow> string set \<Rightarrow> string set \<Rightarrow> authorized_client list \<Rightarrow> authorized_client list" where
  "drop_invalid_clients_from token names publics [] = []"
| "drop_invalid_clients_from token names publics (c # cs) =
     (if \<not> is_valid_name (ac_name c) \<or> parse_client_public_key token (ac_public_key c) \<noteq> Inr (ac_public_key c) \<or>
         ac_name c \<in> names \<or> ac_public_key c \<in> publics
      then drop_invalid_clients_from token names publics cs
      else c # drop_invalid_clients_from token (insert (ac_name c) names) (insert (ac_public_key c) publics) cs)"

definition drop_invalid_clients :: "(string \<Rightarrow> msg + string) \<Rightarrow> authorized_client list \<Rightarrow> authorized_client list" where
  "drop_invalid_clients token cs = drop_invalid_clients_from token {} {} cs"

fun drop_invalid_keys_from ::
  "string set \<Rightarrow> string set \<Rightarrow> string set \<Rightarrow> auth_key list \<Rightarrow> auth_key list" where
  "drop_invalid_keys_from ids names publics [] = []"
| "drop_invalid_keys_from ids names publics (k # ks) =
     (if ak_id k = [] \<or> ak_id k \<in> ids then drop_invalid_keys_from ids names publics ks
      else let ids = insert (ak_id k) ids in
        if is_reserved_secret_id (ak_id k) \<or> \<not> is_valid_name (ak_name k) \<or> ak_name k \<in> names
        then drop_invalid_keys_from ids names publics ks
        else let names = insert (ak_name k) names in
          if ak_public_key k \<in> publics then drop_invalid_keys_from ids names publics ks
          else k # drop_invalid_keys_from ids names (insert (ak_public_key k) publics) ks)"

definition drop_invalid_keys :: "auth_key list \<Rightarrow> auth_key list" where
  "drop_invalid_keys ks = drop_invalid_keys_from {} {} {} ks"

fun drop_invalid_from :: "string set \<Rightarrow> string set \<Rightarrow> string set \<Rightarrow> profile list \<Rightarrow> profile list" where
  "drop_invalid_from ids names servers [] = []"
| "drop_invalid_from ids names servers (p # ps) =
     (if pr_id p \<in> ids then drop_invalid_from ids names servers ps
      else let ids = insert (pr_id p) ids in
        if \<not> is_valid_name (pr_name p) \<or> pr_name p \<in> names then drop_invalid_from ids names servers ps
        else let names = insert (pr_name p) names in
          if pr_server_node_id p \<in> servers then drop_invalid_from ids names servers ps
          else p # drop_invalid_from ids names (insert (pr_server_node_id p) servers) ps)"

definition drop_invalid :: "profile list \<Rightarrow> profile list" where
  "drop_invalid ps = drop_invalid_from {} {} {} ps"

section \<open>The documents\<close>

text \<open>What is loaded, and the document it is read from. The fields marked \<^verbatim>\<open>skip\<close> never reach a
  document: they are blank there.\<close>

record desktop_store =
  ds_keys :: "auth_key list"
  ds_profiles :: "profile list"
  ds_server :: "server_config option"
  ds_login_item_set_up :: bool
  ds_unseal_failed :: bool
  ds_sealed_reset_from :: "u32 option"

definition desktop_store_default :: desktop_store where
  "desktop_store_default = \<lparr>ds_keys = [], ds_profiles = [], ds_server = None, ds_login_item_set_up = False,
     ds_unseal_failed = False, ds_sealed_reset_from = None\<rparr>"

record store_doc =
  sd_keys :: "auth_key list"
  sd_profiles :: "profile list"
  sd_server :: "server_config option"
  sd_login_item_set_up :: bool
  sd_sealed_keys :: string
  sd_sealed_version :: u32

definition store_doc_default :: store_doc where
  "store_doc_default = \<lparr>sd_keys = [], sd_profiles = [], sd_server = None, sd_login_item_set_up = False,
     sd_sealed_keys = [], sd_sealed_version = 0\<rparr>"

definition skip_forward :: "port_forward \<Rightarrow> port_forward" where
  "skip_forward f = f\<lparr>pf_enabled := False\<rparr>"

definition skip_key :: "auth_key \<Rightarrow> auth_key" where
  "skip_key k = k\<lparr>ak_secret := []\<rparr>"

definition skip_profile :: "profile \<Rightarrow> profile" where
  "skip_profile p = p\<lparr>pr_relay_auth_token := None, pr_forwards := map skip_forward (pr_forwards p)\<rparr>"

definition skip_server :: "server_config \<Rightarrow> server_config" where
  "skip_server s = s\<lparr>sv_secret := [], sv_relay_auth_token := None\<rparr>"

text \<open>The plaintext file of the development mode carries the secrets beside the entries.\<close>

record dev_file =
  df_keys :: "(string \<times> auth_key) list"
  df_profiles :: "(string option \<times> profile) list"
  df_server :: "(string \<times> string option \<times> server_config) option"
  df_login_item_set_up :: bool

definition dev_file_default :: dev_file where
  "dev_file_default = \<lparr>df_keys = [], df_profiles = [], df_server = None, df_login_item_set_up = False\<rparr>"

text \<open>The libraries: JSON of the two documents, of the secrets and of a value, base64, the
  cipher, and the key library's parser of public keys.\<close>

record store_codec =
  sc_print :: "store_doc \<Rightarrow> msg + string"
  sc_parse :: "string \<Rightarrow> msg + store_doc"
  sc_dev_print :: "dev_file \<Rightarrow> msg + string"
  sc_dev_parse :: "string \<Rightarrow> msg + dev_file"
  sc_map_print :: "(string \<rightharpoonup> string) \<Rightarrow> msg + bytes"
  sc_map_parse :: "bytes \<Rightarrow> msg + (string \<rightharpoonup> string)"
  sc_value_print :: "json \<Rightarrow> msg + string"
  sc_value_parse :: "string \<Rightarrow> msg + json"
  sc_profiles_of :: "json \<Rightarrow> msg + profile list"
  sc_base64 :: "bytes \<Rightarrow> string"
  sc_unbase64 :: "string \<Rightarrow> msg + bytes"
  sc_encrypt :: "bytes \<Rightarrow> bytes \<Rightarrow> bytes \<Rightarrow> bytes option"
  sc_decrypt :: "bytes \<Rightarrow> bytes \<Rightarrow> bytes \<Rightarrow> bytes option"
  sc_token :: "string \<Rightarrow> msg + string"

section \<open>Paths and backends\<close>

definition KEYCHAIN_ENV :: string where "KEYCHAIN_ENV = ''FLEXTUNNEL_KEYCHAIN''"

definition DEV_CONFIG_ENV :: string where "DEV_CONFIG_ENV = ''FLEXTUNNEL_DEV_CONFIG''"

definition dev_config_path :: "string option \<Rightarrow> string option \<Rightarrow> string option" where
  "dev_config_path var data_local_dir =
     (case var of
        None \<Rightarrow> None
      | Some val \<Rightarrow>
          if val = [] then None
          else if val = ''1'' \<or> val = ''true''
          then map_option (\<lambda>d. path_join (path_join d ''flextunnel'') ''dev-profiles.json'') data_local_dir
          else Some val)"

definition mock_keychain :: "string option \<Rightarrow> msg + bool" where
  "mock_keychain value =
     (case value of
        None \<Rightarrow> Inr False
      | Some v \<Rightarrow> if v = ''mock'' then Inr True
                  else Inl (KEYCHAIN_ENV @ '' is {value:?}; the only value it takes is \"mock\"'', [FStr v]))"

definition sealed_path :: "string option \<Rightarrow> bool \<Rightarrow> msg + string" where
  "sealed_path data_local_dir mock =
     (case data_local_dir of
        None \<Rightarrow> Inl (''no local data directory to store profiles in'', [])
      | Some d \<Rightarrow> Inr (path_join (path_join d ''flextunnel'') (if mock then ''mock-profiles.json'' else ''profiles.json'')))"

definition backend_or_error :: "backend option \<Rightarrow> msg + backend" where
  "backend_or_error b = option_context (''No settings store: see the startup error in the log'', []) b"

definition dev_store :: "backend option \<Rightarrow> bool" where
  "dev_store b \<longleftrightarrow> b \<noteq> Some KeychainBackend"

text \<open>Choosing the backend: the two variables, the local data directory, the removal of a mock
  file, and opening the keychain, each with the error it may give. The file system is changed
  only by the removal.\<close>

record init_env =
  ie_dev_config :: "string option"
  ie_keychain :: "string option"
  ie_data_local_dir :: "string option"
  ie_remove :: "io_error option"
  ie_mock_open :: "msg option"
  ie_keychain_open :: "msg option"

definition init_store :: "init_env \<Rightarrow> files \<Rightarrow> (msg + unit) \<times> backend option \<times> files" where
  "init_store env files =
     (case mock_keychain (ie_keychain env) of
        Inl e \<Rightarrow> (Inl e, None, files)
      | Inr mock \<Rightarrow>
          (case dev_config_path (ie_dev_config env) (ie_data_local_dir env) of
             Some path \<Rightarrow>
               if mock then (Inl (DEV_CONFIG_ENV @ '' and '' @ KEYCHAIN_ENV @ ''=mock are both set; pick one'', []), None, files)
               else (Inr (), Some (DevFileBackend path), files)
           | None \<Rightarrow>
               if mock then
                 (case sealed_path (ie_data_local_dir env) True of
                    Inl e \<Rightarrow> (Inl e, None, files)
                  | Inr path \<Rightarrow>
                      (case ie_remove env of
                         Some e \<Rightarrow>
                           if err_kind e = NotFound
                           then (case ie_mock_open env of
                                   Some m \<Rightarrow> (Inl (wrap (''Failed to open the mock keychain'', []) m), None, files)
                                 | None \<Rightarrow> (Inr (), Some MockKeychain, files))
                           else (Inl (wrap (''Failed to empty {}'', [FStr path]) (err_msg e)), None, files)
                       | None \<Rightarrow>
                           (case ie_mock_open env of
                              Some m \<Rightarrow> (Inl (wrap (''Failed to open the mock keychain'', []) m), None, files(path := None))
                            | None \<Rightarrow> (Inr (), Some MockKeychain, files(path := None)))))
               else (case ie_keychain_open env of
                       Some m \<Rightarrow> (Inl (wrap (''Failed to open the system keychain'', []) m), Some KeychainBackend, files)
                     | None \<Rightarrow> (Inr (), Some KeychainBackend, files))))"

section \<open>Files\<close>

definition read_json :: "(string \<Rightarrow> msg + 'a) \<Rightarrow> (string \<Rightarrow> io_error + string) \<Rightarrow> string \<Rightarrow> msg + 'a option" where
  "read_json parse read path =
     (case read path of
        Inr raw \<Rightarrow> map_sum id Some (with_context (''Failed to parse {}'', [FStr path]) (parse raw))
      | Inl e \<Rightarrow> if err_kind e = NotFound then Inr None
                 else Inl (wrap (''Failed to read {}'', [FStr path]) (err_msg e)))"

definition with_extension :: "string \<Rightarrow> string \<Rightarrow> string" where
  "with_extension path ext =
     (case (case rsplit_once CHR ''/'' path of Some (d, f) \<Rightarrow> (d @ ''/'', f) | None \<Rightarrow> ([], path)) of (dir, file) \<Rightarrow>
        if file = [] \<or> file = ''..'' then path
        else
          let stem = (case rsplit_once CHR ''.'' file of Some (s, _) \<Rightarrow> (if s = [] then file else s) | None \<Rightarrow> file) in
          dir @ stem @ ''.'' @ ext)"

definition parent_dir :: "string \<Rightarrow> string" where
  "parent_dir path = (case rsplit_once CHR ''/'' path of Some (d, _) \<Rightarrow> if d = [] then ''/'' else d | None \<Rightarrow> [])"

definition write_json :: "fs_calls \<Rightarrow> string \<Rightarrow> msg + string \<Rightarrow> files \<Rightarrow> (msg + unit) \<times> files" where
  "write_json fs path printed files =
     (if \<not> has_parent path then (Inl (''profiles path has no parent directory'', []), files)
      else case create_dir_all fs of
        Some e \<Rightarrow> (Inl (wrap (''Failed to create {}'', [FStr (parent_dir path)]) (err_msg e)), files)
      | None \<Rightarrow>
          (let tmp = with_extension path ''json.tmp'' in
           case printed of
             Inl e \<Rightarrow> (Inl e, files)
           | Inr content \<Rightarrow>
               (case fs_write fs of
                  Some e \<Rightarrow> (Inl (wrap (''Failed to write {}'', [FStr tmp]) (err_msg e)), files(tmp := left_behind fs))
                | None \<Rightarrow>
                    (case fs_rename fs of
                       Some e \<Rightarrow> (Inl (wrap (''Failed to persist {}'', [FStr path]) (err_msg e)), files(tmp := Some content))
                     | None \<Rightarrow> (Inr (), files(tmp := None, path := Some content))))))"

section \<open>Sealing\<close>

record keychain =
  kc_entry :: "string option"
  kc_cache :: "bytes option"

text \<open>Which keychain calls fail: opening the entry, reading it other than by its absence, and
  storing it.\<close>

record keychain_calls =
  kcc_open :: "msg option"
  kcc_read :: "msg option"
  kcc_set :: "msg option"

definition safe_storage_key :: "store_codec \<Rightarrow> keychain_calls \<Rightarrow> bytes \<Rightarrow> keychain \<Rightarrow> (msg + bytes) \<times> keychain" where
  "safe_storage_key sc calls fresh kc =
     (case kc_cache kc of
        Some key \<Rightarrow> (Inr key, kc)
      | None \<Rightarrow>
          (case kcc_open calls of
             Some e \<Rightarrow> (Inl (wrap (''Failed to open the Safe Storage keychain entry'', []) e), kc)
           | None \<Rightarrow>
               (case kcc_read calls of
                  Some e \<Rightarrow> (Inl (wrap (''Failed to read the Safe Storage key from the keychain'', []) e), kc)
                | None \<Rightarrow>
                    (case kc_entry kc of
                       Some b64 \<Rightarrow>
                         (let bad = (Inl (''The Flextunnel Safe Storage entry is not a base64 32-byte key'', []), kc) in
                          case sc_unbase64 sc b64 of
                            Inl _ \<Rightarrow> bad
                          | Inr key \<Rightarrow> if length key = 32 then (Inr key, kc\<lparr>kc_cache := Some key\<rparr>) else bad)
                     | None \<Rightarrow>
                         (case kcc_set calls of
                            Some e \<Rightarrow> (Inl (wrap (''Failed to store the Safe Storage key in the keychain'', []) e), kc)
                          | None \<Rightarrow> (Inr fresh, kc\<lparr>kc_entry := Some (sc_base64 sc fresh), kc_cache := Some fresh\<rparr>))))))"

definition secret_entries :: "auth_key list \<Rightarrow> profile list \<Rightarrow> server_config option \<Rightarrow> (string \<times> string) list" where
  "secret_entries keys profiles server =
     map (\<lambda>k. (ak_id k, ak_secret k)) keys @
     map (\<lambda>p. (profile_relay_secret_id (pr_id p), unwrap_or (pr_relay_auth_token p) [])) profiles @
     (case server of
        None \<Rightarrow> []
      | Some s \<Rightarrow> [(SERVER_SECRET_ID, sv_secret s), (SERVER_RELAY_SECRET_ID, unwrap_or (sv_relay_auth_token s) [])])"

definition seal_secrets :: "store_codec \<Rightarrow> bytes \<Rightarrow> bytes \<Rightarrow> (string \<times> string) list \<Rightarrow> msg + string" where
  "seal_secrets sc master nonce entries =
     (let entries = filter (\<lambda>(_, secret). secret \<noteq> []) entries in
      if entries = [] then Inr []
      else result_bind (sc_map_print sc (map_of (rev entries))) (\<lambda>plain.
        case sc_encrypt sc master nonce plain of
          None \<Rightarrow> Inl (''Failed to encrypt the secrets'', [])
        | Some ciphertext \<Rightarrow> Inr (sc_base64 sc (nonce @ ciphertext))))"

definition open_secrets :: "store_codec \<Rightarrow> bytes \<Rightarrow> string \<Rightarrow> msg + (string \<rightharpoonup> string)" where
  "open_secrets sc master sealed =
     result_bind (with_context (''The sealed_keys blob is not base64'', []) (sc_unbase64 sc sealed)) (\<lambda>blob.
       if length blob < 12 then Inl (''The sealed_keys blob is too short'', [])
       else case sc_decrypt sc master (take 12 blob) (drop 12 blob) of
         None \<Rightarrow> Inl (''Failed to decrypt the sealed secrets'', [])
       | Some plain \<Rightarrow> with_context (''Failed to parse the unsealed secrets'', []) (sc_map_parse sc plain))"

text \<open>The secrets of a loaded document, with the flags it sets and the keychain it leaves.\<close>

definition unseal_store ::
  "store_codec \<Rightarrow> keychain_calls \<Rightarrow> bytes \<Rightarrow> store_doc \<Rightarrow> keychain \<Rightarrow>
   (msg + (string \<rightharpoonup> string) \<times> bool \<times> u32 option) \<times> keychain" where
  "unseal_store sc calls fresh doc kc =
     (if sd_sealed_keys doc = [] then (Inr (Map.empty, False, None), kc)
      else if sd_sealed_version doc \<noteq> SEALED_VERSION then (Inr (Map.empty, False, Some (sd_sealed_version doc)), kc)
      else case safe_storage_key sc calls fresh kc of
        (Inl e, kc) \<Rightarrow> (Inl e, kc)
      | (Inr master, kc) \<Rightarrow>
          (case open_secrets sc master (sd_sealed_keys doc) of
             Inr m \<Rightarrow> (Inr (m, False, None), kc)
           | Inl _ \<Rightarrow> (Inr (Map.empty, True, None), kc)))"

section \<open>Loading and saving\<close>

definition load_dev_file :: "store_codec \<Rightarrow> (string \<Rightarrow> io_error + string) \<Rightarrow> string \<Rightarrow> msg + desktop_store" where
  "load_dev_file sc read path =
     result_bind (read_json (sc_dev_parse sc) read path) (\<lambda>stored.
       let stored = unwrap_or stored dev_file_default in
       Inr \<lparr>ds_keys = map (\<lambda>(secret, k). k\<lparr>ak_secret := secret\<rparr>) (df_keys stored),
            ds_profiles = map (\<lambda>(token, p). p\<lparr>pr_relay_auth_token := token\<rparr>) (df_profiles stored),
            ds_server = map_option (\<lambda>(secret, token, s). s\<lparr>sv_secret := secret, sv_relay_auth_token := token\<rparr>) (df_server stored),
            ds_login_item_set_up = df_login_item_set_up stored, ds_unseal_failed = False, ds_sealed_reset_from = None\<rparr>)"

definition dev_doc :: "auth_key list \<Rightarrow> profile list \<Rightarrow> server_config option \<Rightarrow> bool \<Rightarrow> dev_file" where
  "dev_doc keys profiles server login =
     \<lparr>df_keys = map (\<lambda>k. (ak_secret k, skip_key k)) keys,
      df_profiles = map (\<lambda>p. (pr_relay_auth_token p, skip_profile p)) profiles,
      df_server = map_option (\<lambda>s. (sv_secret s, sv_relay_auth_token s, skip_server s)) server,
      df_login_item_set_up = login\<rparr>"

definition save_dev_file ::
  "store_codec \<Rightarrow> fs_calls \<Rightarrow> string \<Rightarrow> auth_key list \<Rightarrow> profile list \<Rightarrow> server_config option \<Rightarrow> bool \<Rightarrow> files \<Rightarrow>
   (msg + unit) \<times> files" where
  "save_dev_file sc fs path keys profiles server login files =
     write_json fs path (sc_dev_print sc (dev_doc keys profiles server login)) files"

text \<open>Filling the secrets in: a key or the server whose secret is missing keeps an empty one, a
  missing relay token is none.\<close>

definition fill_secrets :: "(string \<rightharpoonup> string) \<Rightarrow> auth_key list \<Rightarrow> profile list \<Rightarrow> server_config option \<Rightarrow>
    auth_key list \<times> profile list \<times> server_config option" where
  "fill_secrets secrets keys profiles server =
     (map (\<lambda>k. case secrets (ak_id k) of Some secret \<Rightarrow> k\<lparr>ak_secret := secret\<rparr> | None \<Rightarrow> k) keys,
      map (\<lambda>p. p\<lparr>pr_relay_auth_token := secrets (profile_relay_secret_id (pr_id p))\<rparr>) profiles,
      map_option (\<lambda>s. (case secrets SERVER_SECRET_ID of Some secret \<Rightarrow> s\<lparr>sv_secret := secret\<rparr> | None \<Rightarrow> s)
        \<lparr>sv_relay_auth_token := secrets SERVER_RELAY_SECRET_ID\<rparr>) server)"

definition load_sealed ::
  "store_codec \<Rightarrow> keychain_calls \<Rightarrow> bytes \<Rightarrow> (string \<Rightarrow> io_error + string) \<Rightarrow> string \<Rightarrow> keychain \<Rightarrow>
   (msg + desktop_store) \<times> keychain" where
  "load_sealed sc calls fresh read path kc =
     (case read_json (sc_parse sc) read path of
        Inl e \<Rightarrow> (Inl e, kc)
      | Inr doc \<Rightarrow>
          (let doc = unwrap_or doc store_doc_default; keys = drop_invalid_keys (sd_keys doc) in
           case unseal_store sc calls fresh doc kc of
             (Inl e, kc) \<Rightarrow> (Inl e, kc)
           | (Inr (secrets, failed, reset), kc) \<Rightarrow>
               (case fill_secrets secrets keys (sd_profiles doc) (sd_server doc) of (keys, profiles, server) \<Rightarrow>
                  (Inr \<lparr>ds_keys = keys, ds_profiles = profiles, ds_server = server,
                        ds_login_item_set_up = sd_login_item_set_up doc, ds_unseal_failed = failed,
                        ds_sealed_reset_from = reset\<rparr>, kc))))"

definition load_store ::
  "store_codec \<Rightarrow> keychain_calls \<Rightarrow> bytes \<Rightarrow> string option \<Rightarrow> backend option \<Rightarrow> (string \<Rightarrow> io_error + string) \<Rightarrow> keychain \<Rightarrow>
   (msg + desktop_store) \<times> keychain" where
  "load_store sc calls fresh dir b read kc =
     (case (case backend_or_error b of
              Inl e \<Rightarrow> (Inl e, kc)
            | Inr (DevFileBackend path) \<Rightarrow>
                (result_bind (load_dev_file sc read path) (\<lambda>st. Inr (st\<lparr>ds_keys := drop_invalid_keys (ds_keys st)\<rparr>)), kc)
            | Inr backend \<Rightarrow>
                (case sealed_path dir (backend = MockKeychain) of
                   Inl e \<Rightarrow> (Inl e, kc)
                 | Inr path \<Rightarrow> load_sealed sc calls fresh read path kc)) of
        (Inl e, kc) \<Rightarrow> (Inl e, kc)
      | (Inr st, kc) \<Rightarrow>
          (Inr (st\<lparr>ds_profiles := drop_invalid (ds_profiles st),
                   ds_server := map_option (\<lambda>s. s\<lparr>sv_authorized_clients :=
                     drop_invalid_clients (sc_token sc) (sv_authorized_clients s)\<rparr>) (ds_server st)\<rparr>), kc))"

text \<open>The step of a save that seals the secrets, if there are any.\<close>

definition sealing :: "store_codec \<Rightarrow> keychain_calls \<Rightarrow> bytes \<Rightarrow> bytes \<Rightarrow> (string \<times> string) list \<Rightarrow> keychain \<Rightarrow> (msg + string) \<times> keychain" where
  "sealing sc calls fresh nonce entries kc =
     (if list_all (\<lambda>(_, s). s = []) entries then (Inr [], kc)
      else case safe_storage_key sc calls fresh kc of
        (Inl e, kc) \<Rightarrow> (Inl e, kc)
      | (Inr master, kc) \<Rightarrow> (seal_secrets sc master nonce entries, kc))"

definition sealed_doc :: "auth_key list \<Rightarrow> profile list \<Rightarrow> server_config option \<Rightarrow> bool \<Rightarrow> string \<Rightarrow> store_doc" where
  "sealed_doc keys profiles server login sealed =
     \<lparr>sd_keys = map skip_key keys, sd_profiles = map skip_profile profiles, sd_server = map_option skip_server server,
      sd_login_item_set_up = login, sd_sealed_keys = sealed, sd_sealed_version = SEALED_VERSION\<rparr>"

definition save_store ::
  "store_codec \<Rightarrow> keychain_calls \<Rightarrow> fs_calls \<Rightarrow> bytes \<Rightarrow> bytes \<Rightarrow> string option \<Rightarrow> backend option \<Rightarrow>
   auth_key list \<Rightarrow> profile list \<Rightarrow> server_config option \<Rightarrow> bool \<Rightarrow> files \<Rightarrow> keychain \<Rightarrow> (msg + unit) \<times> files \<times> keychain" where
  "save_store sc calls fs fresh nonce dir b keys profiles server login files kc =
     (case backend_or_error b of
        Inl e \<Rightarrow> (Inl e, files, kc)
      | Inr (DevFileBackend path) \<Rightarrow>
          (case save_dev_file sc fs path keys profiles server login files of (r, files) \<Rightarrow> (r, files, kc))
      | Inr backend \<Rightarrow>
          (case sealing sc calls fresh nonce (secret_entries keys profiles server) kc of
             (Inl e, kc) \<Rightarrow> (Inl e, files, kc)
           | (Inr sealed, kc) \<Rightarrow>
               (case sealed_path dir (backend = MockKeychain) of
                  Inl e \<Rightarrow> (Inl e, files, kc)
                | Inr path \<Rightarrow>
                    (case write_json fs path (sc_print sc (sealed_doc keys profiles server login sealed)) files of
                       (r, files) \<Rightarrow> (r, files, kc)))))"

section \<open>Export and import\<close>

definition port_value :: "u16 option \<Rightarrow> json" where
  "port_value p = (case p of None \<Rightarrow> JNull | Some n \<Rightarrow> JNum (unat n))"

definition forward_value :: "port_forward \<Rightarrow> json" where
  "forward_value f = JObj
     [(''id'', JStr (pf_id f)), (''label'', JStr (pf_label f)), (''local_port'', JNum (unat (pf_local_port f))),
      (''remote_host'', JStr (pf_remote_host f)), (''remote_port'', JNum (unat (pf_remote_port f)))]"

definition profile_value :: "profile \<Rightarrow> json" where
  "profile_value p = JObj
     [(''id'', JStr (pr_id p)), (''name'', JStr (pr_name p)), (''server_node_id'', JStr (pr_server_node_id p)),
      (''auth_key_id'', JStr (pr_auth_key_id p)), (''socks_port'', port_value (pr_socks_port p)),
      (''http_port'', port_value (pr_http_port p)), (''relay_urls'', JArr (map JStr (pr_relay_urls p))),
      (''forwards'', JArr (map forward_value (pr_forwards p)))]"

text \<open>The entries of an object are an association list; \<^verbatim>\<open>remove\<close> and \<^verbatim>\<open>entry().or_insert_with\<close>
  on it, and the change of the forward objects.\<close>

definition obj_remove :: "string \<Rightarrow> (string \<times> json) list \<Rightarrow> (string \<times> json) list" where
  "obj_remove k fs = filter (\<lambda>(j, _). j \<noteq> k) fs"

definition strip_forward :: "json \<Rightarrow> json" where
  "strip_forward v = (case v of JObj fs \<Rightarrow> JObj (obj_remove ''id'' fs) | _ \<Rightarrow> v)"

definition in_forwards :: "(json list \<Rightarrow> json list) \<Rightarrow> (string \<times> json) list \<Rightarrow> (string \<times> json) list" where
  "in_forwards g fs = map (\<lambda>(k, v). (k, if k = ''forwards'' then (case v of JArr vs \<Rightarrow> JArr (g vs) | _ \<Rightarrow> v) else v)) fs"

definition export_entry :: "json \<Rightarrow> json" where
  "export_entry v =
     (case v of
        JObj fs \<Rightarrow> JObj (in_forwards (map strip_forward) (obj_remove ''auth_key_id'' (obj_remove ''id'' fs)))
      | _ \<Rightarrow> v)"

definition export_profiles :: "store_codec \<Rightarrow> fs_calls \<Rightarrow> string \<Rightarrow> profile list \<Rightarrow> files \<Rightarrow> (msg + unit) \<times> files" where
  "export_profiles sc fs path profiles files =
     write_json fs path (sc_value_print sc (JArr (map (export_entry \<circ> profile_value) profiles))) files"

text \<open>The random numbers are drawn in order: \<open>k\<close> counts those used so far.\<close>

definition insert_id :: "(nat \<Rightarrow> u64) \<Rightarrow> nat \<Rightarrow> (string \<times> json) list \<Rightarrow> nat \<times> (string \<times> json) list" where
  "insert_id rnd k fs =
     (if map_of fs ''id'' = None then (Suc k, fs @ [(''id'', JStr (random_id (rnd k)))]) else (k, fs))"

fun import_forwards :: "(nat \<Rightarrow> u64) \<Rightarrow> nat \<Rightarrow> json list \<Rightarrow> nat \<times> json list" where
  "import_forwards rnd k [] = (k, [])"
| "import_forwards rnd k (v # vs) =
     (case (case v of JObj fs \<Rightarrow> map_prod id JObj (insert_id rnd k fs) | _ \<Rightarrow> (k, v)) of (k, v) \<Rightarrow>
        map_prod id (Cons v) (import_forwards rnd k vs))"

definition import_entry :: "(nat \<Rightarrow> u64) \<Rightarrow> nat \<Rightarrow> json \<Rightarrow> nat \<times> json" where
  "import_entry rnd k v =
     (case v of
        JObj fs \<Rightarrow>
          (case insert_id rnd k fs of (k, fs) \<Rightarrow>
             let fs = obj_remove ''auth_key_id'' fs in
             (case map_of fs ''forwards'' of
                Some (JArr vs) \<Rightarrow>
                  (case import_forwards rnd k vs of (k, vs) \<Rightarrow> (k, JObj (in_forwards (\<lambda>_. vs) fs)))
              | _ \<Rightarrow> (k, JObj fs)))
      | _ \<Rightarrow> (k, v))"

fun import_entries :: "(nat \<Rightarrow> u64) \<Rightarrow> nat \<Rightarrow> json list \<Rightarrow> nat \<times> json list" where
  "import_entries rnd k [] = (k, [])"
| "import_entries rnd k (v # vs) =
     (case import_entry rnd k v of (k, v) \<Rightarrow> map_prod id (Cons v) (import_entries rnd k vs))"

definition import_profiles :: "store_codec \<Rightarrow> (nat \<Rightarrow> u64) \<Rightarrow> (string \<Rightarrow> io_error + string) \<Rightarrow> string \<Rightarrow> msg + profile list" where
  "import_profiles sc rnd read path =
     result_bind (read_json (sc_value_parse sc) read path) (\<lambda>found.
     result_bind (option_context (''{} does not exist'', [FStr path]) found) (\<lambda>values.
       let values = (case values of JArr vs \<Rightarrow> JArr (snd (import_entries rnd 0 vs)) | v \<Rightarrow> v) in
       result_bind (with_context (''Failed to parse {}'', [FStr path]) (sc_profiles_of sc values)) (\<lambda>profiles.
       Inr (drop_invalid profiles))))"

section \<open>The clean-up\<close>

definition valid_key :: "auth_key \<Rightarrow> bool" where
  "valid_key k \<longleftrightarrow> ak_id k \<noteq> [] \<and> \<not> is_reserved_secret_id (ak_id k) \<and> is_valid_name (ak_name k)"

definition valid_keys :: "auth_key list \<Rightarrow> bool" where
  "valid_keys ks \<longleftrightarrow>
     list_all valid_key ks \<and> distinct (map ak_id ks) \<and> distinct (map ak_name ks) \<and> distinct (map ak_public_key ks)"

definition valid_profiles :: "profile list \<Rightarrow> bool" where
  "valid_profiles ps \<longleftrightarrow>
     list_all (is_valid_name \<circ> pr_name) ps \<and> distinct (map pr_id ps) \<and> distinct (map pr_name ps) \<and>
     distinct (map pr_server_node_id ps)"

definition valid_clients :: "(string \<Rightarrow> msg + string) \<Rightarrow> authorized_client list \<Rightarrow> bool" where
  "valid_clients token cs \<longleftrightarrow>
     list_all (\<lambda>c. is_valid_name (ac_name c) \<and> parse_client_public_key token (ac_public_key c) = Inr (ac_public_key c)) cs \<and>
     distinct (map ac_name cs) \<and> distinct (map ac_public_key cs)"

lemma drop_invalid_keys_from_valid:
  "valid_keys (drop_invalid_keys_from ids names publics ks) \<and>
   ak_id ` set (drop_invalid_keys_from ids names publics ks) \<inter> ids = {} \<and>
   ak_name ` set (drop_invalid_keys_from ids names publics ks) \<inter> names = {} \<and>
   ak_public_key ` set (drop_invalid_keys_from ids names publics ks) \<inter> publics = {}"
  by (induction ids names publics ks rule: drop_invalid_keys_from.induct)
    (auto simp: valid_keys_def valid_key_def Let_def)

lemma drop_invalid_keys_from_id:
  "valid_keys ks \<Longrightarrow> ak_id ` set ks \<inter> ids = {} \<Longrightarrow> ak_name ` set ks \<inter> names = {} \<Longrightarrow> ak_public_key ` set ks \<inter> publics = {} \<Longrightarrow>
   drop_invalid_keys_from ids names publics ks = ks"
  by (induction ids names publics ks rule: drop_invalid_keys_from.induct)
    (auto simp: valid_keys_def valid_key_def Let_def)

lemma drop_invalid_from_valid:
  "valid_profiles (drop_invalid_from ids names servers ps) \<and>
   pr_id ` set (drop_invalid_from ids names servers ps) \<inter> ids = {} \<and>
   pr_name ` set (drop_invalid_from ids names servers ps) \<inter> names = {} \<and>
   pr_server_node_id ` set (drop_invalid_from ids names servers ps) \<inter> servers = {}"
  by (induction ids names servers ps rule: drop_invalid_from.induct) (auto simp: valid_profiles_def Let_def)

lemma drop_invalid_from_id:
  "valid_profiles ps \<Longrightarrow> pr_id ` set ps \<inter> ids = {} \<Longrightarrow> pr_name ` set ps \<inter> names = {} \<Longrightarrow> pr_server_node_id ` set ps \<inter> servers = {} \<Longrightarrow>
   drop_invalid_from ids names servers ps = ps"
  by (induction ids names servers ps rule: drop_invalid_from.induct) (auto simp: valid_profiles_def Let_def)

lemma drop_invalid_clients_from_valid:
  "valid_clients token (drop_invalid_clients_from token names publics cs) \<and>
   ac_name ` set (drop_invalid_clients_from token names publics cs) \<inter> names = {} \<and>
   ac_public_key ` set (drop_invalid_clients_from token names publics cs) \<inter> publics = {}"
  by (induction token names publics cs rule: drop_invalid_clients_from.induct) (auto simp: valid_clients_def)

lemma drop_invalid_clients_from_id:
  "valid_clients token cs \<Longrightarrow> ac_name ` set cs \<inter> names = {} \<Longrightarrow> ac_public_key ` set cs \<inter> publics = {} \<Longrightarrow>
   drop_invalid_clients_from token names publics cs = cs"
  by (induction token names publics cs rule: drop_invalid_clients_from.induct) (auto simp: valid_clients_def)

text \<open>The three clean-ups share a contract: what they keep is valid and is a part of the list in
  its order, and a valid list is kept as it is.\<close>

locale cleanup =
  fixes clean :: "'a list \<Rightarrow> 'a list" and valid :: "'a list \<Rightarrow> bool"
  assumes clean_valid: "valid (clean xs)"
    and clean_id: "valid xs \<Longrightarrow> clean xs = xs"
    and clean_subseq: "subseq (clean xs) xs"
begin

lemma clean_iff: "clean xs = xs \<longleftrightarrow> valid xs"
  using clean_valid clean_id by metis

lemma clean_idem: "clean (clean xs) = clean xs"
  by (rule clean_id [OF clean_valid])

lemma clean_member: "x \<in> set (clean xs) \<Longrightarrow> x \<in> set xs"
  using clean_subseq [of xs] by (metis subseq_order.trans subseq_singleton_left)

end

lemma drop_invalid_keys_from_subseq: "subseq (drop_invalid_keys_from ids names publics ks) ks"
  by (induction ids names publics ks rule: drop_invalid_keys_from.induct) (auto simp: Let_def)

lemma drop_invalid_from_subseq: "subseq (drop_invalid_from ids names servers ps) ps"
  by (induction ids names servers ps rule: drop_invalid_from.induct) (auto simp: Let_def)

lemma drop_invalid_clients_from_subseq: "subseq (drop_invalid_clients_from token names publics cs) cs"
  by (induction token names publics cs rule: drop_invalid_clients_from.induct) auto

interpretation key_list: cleanup drop_invalid_keys valid_keys
  by unfold_locales
    (simp_all add: drop_invalid_keys_def drop_invalid_keys_from_valid drop_invalid_keys_from_id drop_invalid_keys_from_subseq)

interpretation profile_list: cleanup drop_invalid valid_profiles
  by unfold_locales
    (simp_all add: drop_invalid_def drop_invalid_from_valid drop_invalid_from_id drop_invalid_from_subseq)

interpretation client_list: cleanup "drop_invalid_clients token" "valid_clients token"
  by unfold_locales
    (simp_all add: drop_invalid_clients_def drop_invalid_clients_from_valid drop_invalid_clients_from_id
      drop_invalid_clients_from_subseq)

section \<open>What is saved is loaded again\<close>

definition read_of :: "files \<Rightarrow> string \<Rightarrow> io_error + string" where
  "read_of files path = (case files path of Some s \<Rightarrow> Inr s | None \<Rightarrow> Inl (IoError NotFound (''no such file'', [])))"

text \<open>The secrets a set of entries seals.\<close>

definition sealed_map :: "(string \<times> string) list \<Rightarrow> string \<rightharpoonup> string" where
  "sealed_map entries = map_of (rev (filter (\<lambda>(_, secret). secret \<noteq> []) entries))"

text \<open>The documented behaviour of the libraries on the documents of these settings: reading
  inverts printing, base64 and the cipher are inverted, and nothing nonempty is coded as
  nothing.\<close>

definition codec_laws :: "store_codec \<Rightarrow> auth_key list \<Rightarrow> profile list \<Rightarrow> server_config option \<Rightarrow> bool \<Rightarrow> bool" where
  "codec_laws sc keys profiles server login \<longleftrightarrow>
     (\<forall>sealed. \<exists>s. sc_print sc (sealed_doc keys profiles server login sealed) = Inr s \<and>
        sc_parse sc s = Inr (sealed_doc keys profiles server login sealed)) \<and>
     (\<exists>s. sc_dev_print sc (dev_doc keys profiles server login) = Inr s \<and>
        sc_dev_parse sc s = Inr (dev_doc keys profiles server login)) \<and>
     (\<exists>b. sc_map_print sc (sealed_map (secret_entries keys profiles server)) = Inr b \<and>
        sc_map_parse sc b = Inr (sealed_map (secret_entries keys profiles server))) \<and>
     (\<forall>b. sc_unbase64 sc (sc_base64 sc b) = Inr b \<and> (b \<noteq> [] \<longrightarrow> sc_base64 sc b \<noteq> [])) \<and>
     (\<forall>k n p. length k = 32 \<longrightarrow> length n = 12 \<longrightarrow> (\<exists>c. sc_encrypt sc k n p = Some c \<and> sc_decrypt sc k n c = Some p))"

lemma sealed_map_lookup:
  assumes "distinct (map fst entries)" and "(i, s) \<in> set entries"
  shows "sealed_map entries i = (if s = [] then None else Some s)"
proof -
  let ?f = "filter (\<lambda>(_, secret). secret \<noteq> []) entries"
  have d: "distinct (map fst ?f)" using assms(1) by (rule distinct_map_filter)
  then have d': "distinct (map fst (rev ?f))" by (simp add: rev_map [symmetric])
  show ?thesis
  proof (cases "s = []")
    case True
    then have "i \<notin> fst ` set ?f" using assms by (auto dest: eq_key_imp_eq_value)
    then show ?thesis using True by (simp add: sealed_map_def map_of_eq_None_iff)
  next
    case False
    then have "(i, s) \<in> set (rev ?f)" using assms(2) by simp
    then show ?thesis using False map_of_is_SomeI [OF d'] by (simp add: sealed_map_def)
  qed
qed

lemma open_sealed:
  assumes "codec_laws sc keys profiles server login" and "length master = 32" and "length nonce = 12"
    and "seal_secrets sc master nonce (secret_entries keys profiles server) = Inr sealed"
    and "\<not> list_all (\<lambda>(_, s). s = []) (secret_entries keys profiles server)"
  shows "open_secrets sc master sealed = Inr (sealed_map (secret_entries keys profiles server)) \<and> sealed \<noteq> []"
proof -
  let ?e = "secret_entries keys profiles server"
  have "filter (\<lambda>(_, secret). secret \<noteq> []) ?e \<noteq> []" using assms(5) by (auto simp: filter_empty_conv list_all_iff)
  moreover obtain b where b: "sc_map_print sc (sealed_map ?e) = Inr b" "sc_map_parse sc b = Inr (sealed_map ?e)"
    using assms(1) unfolding codec_laws_def by (elim conjE exE)
  moreover obtain c where c: "sc_encrypt sc master nonce b = Some c" "sc_decrypt sc master nonce c = Some b"
    using assms(1-3) unfolding codec_laws_def by blast
  ultimately have s: "sealed = sc_base64 sc (nonce @ c)"
    using assms(4) by (simp add: seal_secrets_def sealed_map_def Let_def)
  moreover have "nonce @ c \<noteq> []" using assms(3) by auto
  moreover have "sc_unbase64 sc (sc_base64 sc x) = Inr x" "x \<noteq> [] \<Longrightarrow> sc_base64 sc x \<noteq> []" for x
    using assms(1) by (simp_all add: codec_laws_def)
  ultimately show ?thesis using assms(3) b c by (simp add: open_secrets_def)
qed

lemma secret_ids_distinct:
  assumes "valid_keys keys" and "valid_profiles profiles"
  shows "distinct (map fst (secret_entries keys profiles server))"
proof -
  have k: "map fst (map (\<lambda>k. (ak_id k, ak_secret k)) keys) = map ak_id keys" by simp
  have p: "map fst (map (\<lambda>p. (profile_relay_secret_id (pr_id p), unwrap_or (pr_relay_auth_token p) [])) profiles) =
    map (\<lambda>p. PROFILE_RELAY_PREFIX @ pr_id p) profiles" by (simp add: profile_relay_secret_id_def)
  have "distinct (map (\<lambda>p. PROFILE_RELAY_PREFIX @ pr_id p) profiles)"
    using assms(2) by (simp add: valid_profiles_def distinct_map inj_on_def)
  moreover have "distinct (map ak_id keys)" "\<forall>k \<in> set keys. \<not> is_reserved_secret_id (ak_id k)"
    using assms(1) by (auto simp: valid_keys_def valid_key_def list_all_iff)
  ultimately show ?thesis
    unfolding secret_entries_def map_append k p
    by (auto simp: is_reserved_secret_id_def SERVER_SECRET_ID_def SERVER_RELAY_SECRET_ID_def PROFILE_RELAY_PREFIX_def split: option.split)
qed

text \<open>What a profile is after a restart: its forwards are off.\<close>

definition reloaded :: "profile \<Rightarrow> profile" where
  "reloaded p = p\<lparr>pr_forwards := map skip_forward (pr_forwards p)\<rparr>"

text \<open>Settings the app can hold: what its forms accept.\<close>

definition settings_ok :: "store_codec \<Rightarrow> auth_key list \<Rightarrow> profile list \<Rightarrow> server_config option \<Rightarrow> bool" where
  "settings_ok sc keys profiles server \<longleftrightarrow>
     valid_keys keys \<and> valid_profiles profiles \<and> list_all (\<lambda>p. pr_relay_auth_token p \<noteq> Some []) profiles \<and>
     (case server of None \<Rightarrow> True
      | Some s \<Rightarrow> valid_clients (sc_token sc) (sv_authorized_clients s) \<and> sv_relay_auth_token s \<noteq> Some [])"

lemma filled_secrets:
  assumes "settings_ok sc keys profiles server"
  shows "fill_secrets (sealed_map (secret_entries keys profiles server)) (map skip_key keys) (map skip_profile profiles)
      (map_option skip_server server) = (keys, map reloaded profiles, server)"
proof -
  let ?e = "secret_entries keys profiles server"
  have ok: "valid_keys keys" "valid_profiles profiles" "\<forall>p \<in> set profiles. pr_relay_auth_token p \<noteq> Some []"
    using assms by (auto simp: settings_ok_def list_all_iff)
  note look = sealed_map_lookup [OF secret_ids_distinct [OF ok(1,2)], of _ _ server]
  have key: "(case sealed_map ?e (ak_id (skip_key k)) of Some secret \<Rightarrow> (skip_key k)\<lparr>ak_secret := secret\<rparr> | None \<Rightarrow> skip_key k) = k"
    if "k \<in> set keys" for k
  proof -
    have "(ak_id k, ak_secret k) \<in> set ?e" using that by (simp add: secret_entries_def image_iff) blast
    then have "sealed_map ?e (ak_id k) = (if ak_secret k = [] then None else Some (ak_secret k))" by (rule look)
    then show ?thesis by (simp add: skip_key_def)
  qed
  have profile: "(skip_profile p)\<lparr>pr_relay_auth_token := sealed_map ?e (profile_relay_secret_id (pr_id (skip_profile p)))\<rparr> = reloaded p"
    if "p \<in> set profiles" for p
  proof -
    have "(profile_relay_secret_id (pr_id p), unwrap_or (pr_relay_auth_token p) []) \<in> set ?e"
      using that by (simp add: secret_entries_def image_iff) blast
    from look [OF this] have "sealed_map ?e (profile_relay_secret_id (pr_id p)) = pr_relay_auth_token p"
      using ok(3) that by (cases "pr_relay_auth_token p") auto
    then show ?thesis by (simp add: skip_profile_def reloaded_def)
  qed
  have server: "(case sealed_map ?e SERVER_SECRET_ID of Some secret \<Rightarrow> (skip_server s)\<lparr>sv_secret := secret\<rparr> | None \<Rightarrow> skip_server s)
      \<lparr>sv_relay_auth_token := sealed_map ?e SERVER_RELAY_SECRET_ID\<rparr> = s" if s: "server = Some s" for s
  proof -
    have "(SERVER_SECRET_ID, sv_secret s) \<in> set ?e"
      and "(SERVER_RELAY_SECRET_ID, unwrap_or (sv_relay_auth_token s) []) \<in> set ?e"
      using s by (simp_all add: secret_entries_def)
    note e = look [OF this(1)] look [OF this(2)]
    have "sealed_map ?e SERVER_RELAY_SECRET_ID = sv_relay_auth_token s"
      using e(2) assms s by (cases "sv_relay_auth_token s") (auto simp: settings_ok_def)
    then show ?thesis using e(1) by (simp add: skip_server_def)
  qed
  have "map (\<lambda>k. case sealed_map ?e (ak_id k) of Some secret \<Rightarrow> k\<lparr>ak_secret := secret\<rparr> | None \<Rightarrow> k) (map skip_key keys) = keys"
    unfolding map_map comp_def by (rule map_idI) (rule key)
  moreover have "map (\<lambda>p. p\<lparr>pr_relay_auth_token := sealed_map ?e (profile_relay_secret_id (pr_id p))\<rparr>) (map skip_profile profiles) =
      map reloaded profiles"
    unfolding map_map comp_def by (rule map_cong [OF refl]) (rule profile)
  ultimately show ?thesis unfolding fill_secrets_def using server by (cases server) simp_all
qed

definition kc_ok :: "store_codec \<Rightarrow> keychain \<Rightarrow> bool" where
  "kc_ok sc kc \<longleftrightarrow>
     (\<forall>k. kc_cache kc = Some k \<longrightarrow> length k = 32 \<and> (\<exists>e. kc_entry kc = Some e \<and> sc_unbase64 sc e = Inr k))"

definition calls_ok :: keychain_calls where
  "calls_ok = \<lparr>kcc_open = None, kcc_read = None, kcc_set = None\<rparr>"

lemma safe_storage_key_ok:
  assumes "\<forall>b. sc_unbase64 sc (sc_base64 sc b) = Inr b" and "kc_ok sc kc" and "length fresh = 32"
    and "safe_storage_key sc calls fresh kc = (Inr master, kc')"
  shows "length master = 32 \<and> kc_ok sc kc' \<and>
    safe_storage_key sc calls_ok fresh' (kc'\<lparr>kc_cache := None\<rparr>) = (Inr master, kc'\<lparr>kc_cache := Some master\<rparr>)"
  using assms by (auto simp: safe_storage_key_def kc_ok_def calls_ok_def Let_def split: option.splits sum.splits if_splits)

lemma write_json_ok:
  assumes "write_json fs path printed files = (r, files')"
  shows "(\<forall>u. r = Inr u \<longrightarrow> (\<exists>s. printed = Inr s \<and> files' path = Some s)) \<and>
    (\<forall>e p. r = Inl e \<longrightarrow> p \<noteq> with_extension path ''json.tmp'' \<longrightarrow> files' p = files p)"
  using assms by (auto simp: write_json_def Let_def split: if_splits option.splits sum.splits)

lemma sealed_path_tmp:
  assumes "sealed_path dir mock = Inr path"
  shows "with_extension path ''json.tmp'' \<noteq> path"
proof -
  obtain d where d: "path = path_join (path_join d ''flextunnel'') (if mock then ''mock-profiles.json'' else ''profiles.json'')"
    using assms by (auto simp: sealed_path_def split: option.splits)
  define x where "x = path_join d ''flextunnel''"
  define stem where "stem = (if mock then ''mock-profiles'' else ''profiles'')"
  have s: "stem \<noteq> []" "CHR ''/'' \<notin> set stem" by (simp_all add: stem_def)
  have "x \<noteq> []" "last x \<noteq> CHR ''/''" by (auto simp: x_def path_join_def)
  then have p: "path = x @ CHR ''/'' # (stem @ CHR ''.'' # ''json'')"
    unfolding d x_def [symmetric] stem_def by (simp add: path_join_def)
  have "rsplit_once CHR ''/'' path = Some (x, stem @ ''.json'')"
    unfolding p using s by (simp add: rsplit_once_Some_iff)
  moreover have "rsplit_once CHR ''.'' (stem @ ''.json'') = Some (stem, ''json'')" by (simp add: rsplit_once_Some_iff)
  moreover have "stem @ ''.json'' \<noteq> ''..''" by (simp add: stem_def)
  ultimately show ?thesis using s(1) by (simp add: with_extension_def p)
qed

lemma unseal_sealing:
  assumes "codec_laws sc keys profiles server login" and "kc_ok sc kc" and "length fresh = 32" and "length nonce = 12"
    and "sealing sc calls fresh nonce (secret_entries keys profiles server) kc = (Inr sealed, kc')"
  shows "fst (unseal_store sc calls_ok fresh' (sealed_doc keys profiles server login sealed) (kc'\<lparr>kc_cache := None\<rparr>)) =
    Inr (sealed_map (secret_entries keys profiles server), False, None)"
proof (cases "list_all (\<lambda>(_, s). s = []) (secret_entries keys profiles server)")
  case True
  then have "filter (\<lambda>(_, secret). secret \<noteq> []) (secret_entries keys profiles server) = []"
    by (auto simp: filter_empty_conv list_all_iff)
  then show ?thesis using True assms(5) by (simp add: sealing_def unseal_store_def sealed_map_def sealed_doc_def)
next
  case False
  then obtain master where m: "safe_storage_key sc calls fresh kc = (Inr master, kc')"
    and s: "seal_secrets sc master nonce (secret_entries keys profiles server) = Inr sealed"
    using assms(5) by (auto simp: sealing_def split: prod.splits sum.splits)
  have "\<forall>b. sc_unbase64 sc (sc_base64 sc b) = Inr b" using assms(1) by (simp add: codec_laws_def)
  from safe_storage_key_ok [OF this assms(2,3) m] have k: "length master = 32"
    "safe_storage_key sc calls_ok fresh' (kc'\<lparr>kc_cache := None\<rparr>) = (Inr master, kc'\<lparr>kc_cache := Some master\<rparr>)"
    by blast+
  show ?thesis
    using open_sealed [OF assms(1) k(1) assms(4) s False] k(2) by (simp add: unseal_store_def sealed_doc_def)
qed

text \<open>The loaded settings, which the clean-up leaves alone.\<close>

definition loaded :: "auth_key list \<Rightarrow> profile list \<Rightarrow> server_config option \<Rightarrow> bool \<Rightarrow> desktop_store" where
  "loaded keys profiles server login =
     \<lparr>ds_keys = keys, ds_profiles = map reloaded profiles, ds_server = server, ds_login_item_set_up = login,
      ds_unseal_failed = False, ds_sealed_reset_from = None\<rparr>"

lemma loaded_clean:
  assumes "settings_ok sc keys profiles server"
  shows "(loaded keys profiles server login)\<lparr>ds_profiles := drop_invalid (ds_profiles (loaded keys profiles server login)),
      ds_server := map_option (\<lambda>s. s\<lparr>sv_authorized_clients := drop_invalid_clients (sc_token sc) (sv_authorized_clients s)\<rparr>)
        (ds_server (loaded keys profiles server login))\<rparr> = loaded keys profiles server login"
proof -
  have "valid_profiles (map reloaded profiles)"
    using assms by (simp add: settings_ok_def valid_profiles_def reloaded_def comp_def list_all_length)
  moreover have "map_option (\<lambda>s. s\<lparr>sv_authorized_clients := drop_invalid_clients (sc_token sc) (sv_authorized_clients s)\<rparr>) server = server"
    using assms by (cases server) (simp_all add: settings_ok_def client_list.clean_id)
  ultimately show ?thesis by (simp add: loaded_def profile_list.clean_id)
qed

lemma saved_sealed_loads:
  assumes "codec_laws sc keys profiles server login" and "kc_ok sc kc" and "length fresh = 32" and "length nonce = 12"
    and "settings_ok sc keys profiles server"
    and "sealing sc calls fresh nonce (secret_entries keys profiles server) kc = (Inr sealed, kc')"
    and "write_json fs path (sc_print sc (sealed_doc keys profiles server login sealed)) files = (Inr u, files')"
  shows "fst (load_sealed sc calls_ok fresh' (read_of files') path (kc'\<lparr>kc_cache := None\<rparr>)) = Inr (loaded keys profiles server login)"
proof -
  let ?doc = "sealed_doc keys profiles server login sealed"
  obtain s where "sc_print sc ?doc = Inr s" "files' path = Some s" using write_json_ok [OF assms(7)] by auto
  moreover obtain s' where "sc_print sc ?doc = Inr s'" "sc_parse sc s' = Inr ?doc"
    using assms(1) unfolding codec_laws_def by blast
  ultimately have rd: "read_json (sc_parse sc) (read_of files') path = Inr (Some ?doc)"
    by (simp add: read_json_def read_of_def)
  obtain kc2 where un: "unseal_store sc calls_ok fresh' ?doc (kc'\<lparr>kc_cache := None\<rparr>) =
      (Inr (sealed_map (secret_entries keys profiles server), False, None), kc2)"
    using unseal_sealing [OF assms(1-4,6)] by (metis prod.collapse)
  have "valid_keys (map skip_key keys)"
    using assms(5) by (simp add: settings_ok_def valid_keys_def valid_key_def skip_key_def comp_def list_all_length)
  then have "drop_invalid_keys (sd_keys ?doc) = map skip_key keys" by (simp add: sealed_doc_def key_list.clean_id)
  moreover have "sd_profiles ?doc = map skip_profile profiles" "sd_server ?doc = map_option skip_server server"
    "sd_login_item_set_up ?doc = login" by (simp_all add: sealed_doc_def)
  ultimately show ?thesis by (simp add: load_sealed_def rd un Let_def filled_secrets [OF assms(5)] loaded_def)
qed

lemma saved_dev_loads:
  assumes "codec_laws sc keys profiles server login" and "save_dev_file sc fs path keys profiles server login files = (Inr u, files')"
  shows "load_dev_file sc (read_of files') path = Inr (loaded keys profiles server login)"
proof -
  let ?doc = "dev_doc keys profiles server login"
  obtain s where "sc_dev_print sc ?doc = Inr s" "files' path = Some s"
    using write_json_ok [OF assms(2) [unfolded save_dev_file_def]] by auto
  moreover obtain s' where "sc_dev_print sc ?doc = Inr s'" "sc_dev_parse sc s' = Inr ?doc"
    using assms(1) unfolding codec_laws_def by blast
  ultimately have rd: "read_json (sc_dev_parse sc) (read_of files') path = Inr (Some ?doc)"
    by (simp add: read_json_def read_of_def)
  have "(skip_key k)\<lparr>ak_secret := ak_secret k\<rparr> = k" for k by (simp add: skip_key_def)
  moreover have "(skip_profile p)\<lparr>pr_relay_auth_token := pr_relay_auth_token p\<rparr> = reloaded p" for p
    by (simp add: skip_profile_def reloaded_def)
  moreover have "(skip_server s)\<lparr>sv_secret := sv_secret s, sv_relay_auth_token := sv_relay_auth_token s\<rparr> = s" for s
    by (simp add: skip_server_def)
  ultimately show ?thesis
    by (simp add: load_dev_file_def rd Let_def dev_doc_def loaded_def comp_def option.map_comp option.map_ident)
qed

text \<open>Saving and loading by the kind of store.\<close>

lemma store_eqs:
  shows "save_store sc calls fs fresh nonce dir (Some (DevFileBackend path)) keys profiles server login files kc =
      (case save_dev_file sc fs path keys profiles server login files of (r, files) \<Rightarrow> (r, files, kc))"
    and "\<forall>path. backend \<noteq> DevFileBackend path \<Longrightarrow>
      save_store sc calls fs fresh nonce dir (Some backend) keys profiles server login files kc =
        (case sealing sc calls fresh nonce (secret_entries keys profiles server) kc of
           (Inl e, kc) \<Rightarrow> (Inl e, files, kc)
         | (Inr sealed, kc) \<Rightarrow>
             (case sealed_path dir (backend = MockKeychain) of
                Inl e \<Rightarrow> (Inl e, files, kc)
              | Inr path \<Rightarrow>
                  (case write_json fs path (sc_print sc (sealed_doc keys profiles server login sealed)) files of
                     (r, files) \<Rightarrow> (r, files, kc))))"
  by (simp add: save_store_def backend_or_error_def option_context_def,
      induction backend) (simp_all add: save_store_def backend_or_error_def option_context_def)

lemma load_cleaned:
  assumes "settings_ok sc keys profiles server"
  shows "load_dev_file sc read path = Inr (loaded keys profiles server login) \<Longrightarrow>
      fst (load_store sc calls fresh dir (Some (DevFileBackend path)) read kc) = Inr (loaded keys profiles server login)"
    and "\<forall>path. backend \<noteq> DevFileBackend path \<Longrightarrow> sealed_path dir (backend = MockKeychain) = Inr path \<Longrightarrow>
      fst (load_sealed sc calls fresh read path kc) = Inr (loaded keys profiles server login) \<Longrightarrow>
      fst (load_store sc calls fresh dir (Some backend) read kc) = Inr (loaded keys profiles server login)"
proof -
  note clean = loaded_clean [OF assms, of login]
  have "drop_invalid_keys keys = keys" using assms by (simp add: settings_ok_def key_list.clean_id)
  then have "(loaded keys profiles server login)\<lparr>ds_keys := drop_invalid_keys (ds_keys (loaded keys profiles server login))\<rparr> =
      loaded keys profiles server login" by (simp add: loaded_def)
  then show "load_dev_file sc read path = Inr (loaded keys profiles server login) \<Longrightarrow>
      fst (load_store sc calls fresh dir (Some (DevFileBackend path)) read kc) = Inr (loaded keys profiles server login)"
    by (simp add: load_store_def backend_or_error_def option_context_def clean)
  show "\<forall>path. backend \<noteq> DevFileBackend path \<Longrightarrow> sealed_path dir (backend = MockKeychain) = Inr path \<Longrightarrow>
      fst (load_sealed sc calls fresh read path kc) = Inr (loaded keys profiles server login) \<Longrightarrow>
      fst (load_store sc calls fresh dir (Some backend) read kc) = Inr (loaded keys profiles server login)"
    by (induction backend; cases "load_sealed sc calls fresh read path kc")
      (simp_all add: load_store_def backend_or_error_def option_context_def clean)
qed


text \<open>One key whose secret is sealed, with a codec that keeps the bytes as they are.\<close>

definition demo_key :: auth_key where
  "demo_key = \<lparr>ak_id = ''1'', ak_name = ''Laptop'', ak_public_key = ''pk'', ak_secret = ''sk''\<rparr>"

definition demo_codec :: store_codec where
  "demo_codec = \<lparr>sc_print = \<lambda>doc. Inr (sd_sealed_keys doc), sc_parse = \<lambda>s. Inr (sealed_doc [demo_key] [] None True s),
     sc_dev_print = \<lambda>_. Inr [], sc_dev_parse = \<lambda>_. Inr (dev_doc [demo_key] [] None True),
     sc_map_print = \<lambda>m. Inr (as_bytes (unwrap_or (m ''1'') [])), sc_map_parse = \<lambda>b. Inr [''1'' \<mapsto> map char_of_byte b],
     sc_value_print = \<lambda>_. Inr [], sc_value_parse = \<lambda>_. Inr JNull, sc_profiles_of = \<lambda>_. Inr [],
     sc_base64 = map char_of_byte, sc_unbase64 = \<lambda>s. Inr (as_bytes s),
     sc_encrypt = \<lambda>_ _ p. Some p, sc_decrypt = \<lambda>_ _ c. Some c, sc_token = Inr\<rparr>"

definition demo_save :: "(msg + unit) \<times> files \<times> keychain" where
  "demo_save = save_store demo_codec calls_ok
     \<lparr>create_dir_all = None, fs_write = None, fs_rename = None, left_behind = None, remove_fails = False\<rparr>
     (replicate 32 7) (replicate 12 9) (Some ''/home/ann'') (Some MockKeychain) [demo_key] [] None True (\<lambda>_. None)
     \<lparr>kc_entry = None, kc_cache = None\<rparr>"

lemma demo_laws: "codec_laws demo_codec [demo_key] [] None True"
  by (auto simp: codec_laws_def demo_codec_def demo_key_def sealed_doc_def secret_entries_def sealed_map_def
      as_bytes_def comp_def fun_eq_iff)

lemma demo_saves: "fst demo_save = Inr ()"
  by (simp add: demo_save_def save_store_def backend_or_error_def option_context_def sealing_def secret_entries_def demo_key_def
      safe_storage_key_def calls_ok_def seal_secrets_def demo_codec_def sealed_path_def write_json_def has_parent_def
      path_join_def Let_def unwrap_or_def)


lemma drop_invalid_clients_from_maximal:
  "c \<in> set cs \<Longrightarrow> is_valid_name (ac_name c) \<Longrightarrow> parse_client_public_key token (ac_public_key c) = Inr (ac_public_key c) \<Longrightarrow>
   ac_name c \<notin> names \<Longrightarrow> ac_public_key c \<notin> publics \<Longrightarrow>
   \<exists>d \<in> set (drop_invalid_clients_from token names publics cs). ac_name d = ac_name c \<or> ac_public_key d = ac_public_key c"
  by (induction token names publics cs rule: drop_invalid_clients_from.induct) (auto, metis)

definition shadowed_keys :: "auth_key list" where
  "shadowed_keys =
     [\<lparr>ak_id = ''1'', ak_name = ''Home'', ak_public_key = ''P'', ak_secret = []\<rparr>,
      \<lparr>ak_id = ''2'', ak_name = ''Work'', ak_public_key = ''P'', ak_secret = []\<rparr>,
      \<lparr>ak_id = ''3'', ak_name = ''Work'', ak_public_key = ''Q'', ak_secret = []\<rparr>]"

text \<open>C37: The clean-up of a hand-edited file treats a client as its own rule says: a client is
  only left out for being malformed or for sharing its name or key with a client that is
  kept. Keys and profiles are not cleaned up by that rule: an entry that is dropped still
  reserves its id and name, so a well-formed key is lost though no kept key shares
  anything with it, and a profile likewise.\<close>

theorem dropped_entries_shadow:
  "(\<forall>c. c \<in> set cs \<and> c \<notin> set (drop_invalid_clients token cs) \<longrightarrow>
      \<not> is_valid_name (ac_name c) \<or> parse_client_public_key token (ac_public_key c) \<noteq> Inr (ac_public_key c) \<or>
      (\<exists>d \<in> set (drop_invalid_clients token cs). ac_name d = ac_name c \<or> ac_public_key d = ac_public_key c)) \<and>
   list_all valid_key shadowed_keys \<and>
   drop_invalid_keys shadowed_keys = [shadowed_keys ! 0] \<and>
   ak_id (shadowed_keys ! 2) \<noteq> ak_id (shadowed_keys ! 0) \<and> ak_name (shadowed_keys ! 2) \<noteq> ak_name (shadowed_keys ! 0) \<and>
   ak_public_key (shadowed_keys ! 2) \<noteq> ak_public_key (shadowed_keys ! 0)"
proof -
  have n: "is_valid_name ''Home''" "is_valid_name ''Work''" by code_simp+
  then have "list_all valid_key shadowed_keys"
    by (simp add: shadowed_keys_def valid_key_def is_reserved_secret_id_def
        SERVER_SECRET_ID_def SERVER_RELAY_SECRET_ID_def PROFILE_RELAY_PREFIX_def)
  moreover have "drop_invalid_keys shadowed_keys = [shadowed_keys ! 0]"
    using n by (simp add: shadowed_keys_def drop_invalid_keys_def is_reserved_secret_id_def
        SERVER_SECRET_ID_def SERVER_RELAY_SECRET_ID_def PROFILE_RELAY_PREFIX_def)
  moreover have "(\<exists>d \<in> set (drop_invalid_clients token cs). ac_name d = ac_name c \<or> ac_public_key d = ac_public_key c)"
    if "c \<in> set cs" "is_valid_name (ac_name c)" "parse_client_public_key token (ac_public_key c) = Inr (ac_public_key c)" for c
    using drop_invalid_clients_from_maximal [OF that, of "{}" "{}"] by (simp add: drop_invalid_clients_def)
  ultimately show ?thesis by (auto simp: shadowed_keys_def)
qed

theorem dropped_entries_shadow_witness:
  "\<exists>c \<in> {\<lparr>ac_name = ''Ann'', ac_public_key = ''k1''\<rparr>, \<lparr>ac_name = ''Ann'', ac_public_key = ''k2''\<rparr>}.
     c \<in> set [\<lparr>ac_name = ''Ann'', ac_public_key = ''k1''\<rparr>, \<lparr>ac_name = ''Ann'', ac_public_key = ''k2''\<rparr>] \<and>
     c \<notin> set (drop_invalid_clients Inr [\<lparr>ac_name = ''Ann'', ac_public_key = ''k1''\<rparr>, \<lparr>ac_name = ''Ann'', ac_public_key = ''k2''\<rparr>]) \<and>
     (\<exists>d \<in> set (drop_invalid_clients Inr [\<lparr>ac_name = ''Ann'', ac_public_key = ''k1''\<rparr>, \<lparr>ac_name = ''Ann'', ac_public_key = ''k2''\<rparr>]).
        ac_name d = ac_name c \<or> ac_public_key d = ac_public_key c)"
proof -
  let ?cs = "[\<lparr>ac_name = ''Ann'', ac_public_key = ''k1''\<rparr>, \<lparr>ac_name = ''Ann'', ac_public_key = ''k2''\<rparr>]"
  have n: "is_valid_name ''Ann''" "trim ''k1'' = ''k1''" "trim ''k2'' = ''k2''" by code_simp+
  then have "drop_invalid_clients Inr ?cs = [\<lparr>ac_name = ''Ann'', ac_public_key = ''k1''\<rparr>]"
    by (simp add: drop_invalid_clients_def parse_client_public_key_def)
  with n show ?thesis
    using dropped_entries_shadow [of ?cs Inr] by (simp add: parse_client_public_key_def)
qed

end
